(* ===== verification/Prelude.thy ===== *)
theory Prelude
  imports Main "HOL-Library.Word" "HOL-Library.AList" "HOL-Library.Sublist"
begin

text \<open>
  Shared vocabulary of the development: the machine integers and byte strings of the Rust
  sources, little-endian conversion (\<^verbatim>\<open>u32::to_le_bytes\<close>), two's complement wrap-around and
  saturation on \<^typ>\<open>int\<close>, hash maps as association lists, and the generic lemmas the component
  theories use. Nothing here models a file of the repository.
\<close>

unbundle bit_operations_syntax

type_synonym u8 = "8 word"
type_synonym u16 = "16 word"
type_synonym u32 = "32 word"
type_synonym u64 = "64 word"
type_synonym bytes = "u8 list"

text \<open>\<^verbatim>\<open>std::io::Error\<close> by its \<^verbatim>\<open>ErrorKind\<close> and message.\<close>

datatype io_error =
    InvalidData string
  | InvalidInput string
  | UnexpectedEof
  | OtherIo string

text \<open>
  The outcome of code that may panic (an index or slice out of range, a failed \<^verbatim>\<open>unwrap\<close>, a
  \<^verbatim>\<open>clamp\<close> with crossed bounds).
\<close>

datatype 'a rust = Panic | Ret 'a

primrec rust_bind :: "'a rust \<Rightarrow> ('a \<Rightarrow> 'b rust) \<Rightarrow> 'b rust" where
  "rust_bind Panic f = Panic"
| "rust_bind (Ret x) f = f x"

lemma rust_bind_Ret: "rust_bind x f = Ret z \<longleftrightarrow> (\<exists>y. x = Ret y \<and> f y = Ret z)"
  by (cases x) auto

text \<open>
  A sequence of events handled one after the other, the invariants of such runs, and simulations of
  one handler by another. A simulation only speaks of runs whose events are admissible where they
  occur.
\<close>

primrec rust_run :: "('e \<Rightarrow> 's \<Rightarrow> 's rust) \<Rightarrow> 'e list \<Rightarrow> 's \<Rightarrow> 's rust" where
  "rust_run step [] s = Ret s"
| "rust_run step (e # es) s = rust_bind (step e s) (rust_run step es)"

locale step_invariant =
  fixes step :: "'e \<Rightarrow> 's \<Rightarrow> 's rust" and admissible :: "'e \<Rightarrow> bool" and inv :: "'s \<Rightarrow> bool"
  assumes step_inv: "admissible e \<Longrightarrow> inv s \<Longrightarrow> step e s = Ret s' \<Longrightarrow> inv s'"
begin

lemma run_inv: "list_all admissible es \<Longrightarrow> inv s \<Longrightarrow> rust_run step es s = Ret s' \<Longrightarrow> inv s'"
  by (induction es arbitrary: s) (auto simp: rust_bind_Ret dest: step_inv)

end

locale total_invariant = step_invariant +
  assumes step_returns: "admissible e \<Longrightarrow> inv s \<Longrightarrow> step e s \<noteq> Panic"
begin

lemma run_returns: "list_all admissible es \<Longrightarrow> inv s \<Longrightarrow> \<exists>s'. rust_run step es s = Ret s' \<and> inv s'"
proof (induction es arbitrary: s)
  case (Cons e es)
  then obtain s1 where "step e s = Ret s1" using step_returns by (cases "step e s") auto
  with Cons show ?case using step_inv [of e s s1] by auto
qed simp

end

primrec admissible_run :: "('e \<Rightarrow> 's \<Rightarrow> bool) \<Rightarrow> ('e \<Rightarrow> 's \<Rightarrow> 's rust) \<Rightarrow> 'e list \<Rightarrow> 's \<Rightarrow> bool" where
  "admissible_run ok step [] s = True"
| "admissible_run ok step (e # es) s =
     (ok e s \<and> (case step e s of Panic \<Rightarrow> True | Ret s' \<Rightarrow> admissible_run ok step es s'))"

locale forward_simulation =
  fixes spec :: "'e \<Rightarrow> 'a \<Rightarrow> 'a rust" and impl :: "'f \<Rightarrow> 'b \<Rightarrow> 'b rust"
    and ok :: "'e \<Rightarrow> 'a \<Rightarrow> bool" and concrete :: "'e \<Rightarrow> 'f" and related :: "'a \<Rightarrow> 'b \<Rightarrow> bool"
  assumes simulate: "ok e a \<Longrightarrow> related a b \<Longrightarrow> spec e a = Ret a' \<Longrightarrow> \<exists>b'. impl (concrete e) b = Ret b' \<and> related a' b'"
begin

lemma simulate_run:
  "admissible_run ok spec es a \<Longrightarrow> related a b \<Longrightarrow> rust_run spec es a = Ret a'
    \<Longrightarrow> \<exists>b'. rust_run impl (map concrete es) b = Ret b' \<and> related a' b'"
proof (induction es arbitrary: a b)
  case (Cons e es)
  then obtain a1 where a1: "spec e a = Ret a1" "rust_run spec es a1 = Ret a'" by (auto simp: rust_bind_Ret)
  with Cons.prems simulate obtain b1 where "impl (concrete e) b = Ret b1" "related a1 b1" by force
  with Cons a1 show ?case by force
qed simp

end

text \<open>\<^verbatim>\<open>xs[i]\<close> and \<^verbatim>\<open>&xs[a..b]\<close> with their bounds checks.\<close>

definition index_at :: "'a list \<Rightarrow> nat \<Rightarrow> 'a rust" where
  "index_at xs i = (if i < length xs then Ret (xs ! i) else Panic)"

definition slice :: "'a list \<Rightarrow> nat \<Rightarrow> nat \<Rightarrow> 'a list rust" where
  "slice xs a b = (if a \<le> b \<and> b \<le> length xs then Ret (take (b - a) (drop a xs)) else Panic)"

text \<open>The largest \<^verbatim>\<open>usize\<close> of the armv7 target the repository builds for.\<close>

definition usize_MAX :: nat where
  "usize_MAX = 2 ^ 32 - 1"

subsection \<open>Signed integers with explicit width\<close>

definition i32_MAX :: int where
  "i32_MAX = 2 ^ 31 - 1"

definition i32_MIN :: int where
  "i32_MIN = - (2 ^ 31)"

definition i64_MAX :: int where
  "i64_MAX = 2 ^ 63 - 1"

definition i64_MIN :: int where
  "i64_MIN = - (2 ^ 63)"

definition wrap_i64 :: "int \<Rightarrow> int" where
  "wrap_i64 x = (x + 2 ^ 63) mod 2 ^ 64 - 2 ^ 63"

definition wrap_i32 :: "int \<Rightarrow> int" where
  "wrap_i32 x = (x + 2 ^ 31) mod 2 ^ 32 - 2 ^ 31"

definition sat_i64 :: "int \<Rightarrow> int" where
  "sat_i64 x = max i64_MIN (min i64_MAX x)"

definition sat_i32 :: "int \<Rightarrow> int" where
  "sat_i32 x = max i32_MIN (min i32_MAX x)"

lemma wrap_i64_id [simp]: "i64_MIN \<le> x \<Longrightarrow> x \<le> i64_MAX \<Longrightarrow> wrap_i64 x = x"
  by (simp add: wrap_i64_def i64_MIN_def i64_MAX_def)

lemma wrap_i32_id [simp]: "i32_MIN \<le> x \<Longrightarrow> x \<le> i32_MAX \<Longrightarrow> wrap_i32 x = x"
  by (simp add: wrap_i32_def i32_MIN_def i32_MAX_def)

lemma sat_i64_id [simp]: "i64_MIN \<le> x \<Longrightarrow> x \<le> i64_MAX \<Longrightarrow> sat_i64 x = x"
  by (simp add: sat_i64_def)

lemma sat_i32_id [simp]: "i32_MIN \<le> x \<Longrightarrow> x \<le> i32_MAX \<Longrightarrow> sat_i32 x = x"
  by (simp add: sat_i32_def)

lemma sat_i32_bounds: "i32_MIN \<le> sat_i32 x \<and> sat_i32 x \<le> i32_MAX"
  by (simp add: sat_i32_def i32_MIN_def i32_MAX_def)

subsection \<open>Little-endian words\<close>

definition u32_to_le_bytes :: "u32 \<Rightarrow> bytes" where
  "u32_to_le_bytes w = [ucast w, ucast (drop_bit 8 w), ucast (drop_bit 16 w), ucast (drop_bit 24 w)]"

fun u32_from_le_bytes :: "bytes \<Rightarrow> u32" where
  "u32_from_le_bytes [a, b, c, d] =
     ucast a OR push_bit 8 (ucast b) OR push_bit 16 (ucast c) OR push_bit 24 (ucast d)"
| "u32_from_le_bytes _ = 0"

definition u16_to_le_bytes :: "u16 \<Rightarrow> bytes" where
  "u16_to_le_bytes w = [ucast w, ucast (drop_bit 8 w)]"

named_theorems le_simps

lemma length_u32_to_le_bytes [simp]: "length (u32_to_le_bytes w) = 4"
  by (simp add: u32_to_le_bytes_def)

lemma u32_le_roundtrip [simp]: "u32_from_le_bytes (u32_to_le_bytes w) = w"
proof (rule bit_eqI)
  fix n :: nat
  assume "possible_bit TYPE(u32) n"
  then consider "n < 8" | "8 \<le> n" "n < 16" | "16 \<le> n" "n < 24" | "24 \<le> n" "n < 32"
    by fastforce
  then show "bit (u32_from_le_bytes (u32_to_le_bytes w)) n \<longleftrightarrow> bit w n"
    by cases (auto simp: u32_to_le_bytes_def bit_simps)
qed

subsection \<open>Hash maps\<close>

text \<open>
  A \<^verbatim>\<open>HashMap\<close> is an association list with distinct keys, in the (unspecified) order an iteration
  would visit it. Theorems that depend on the order say so.
\<close>

type_synonym ('k, 'v) hashmap = "('k \<times> 'v) list"

abbreviation hm_wf :: "('k, 'v) hashmap \<Rightarrow> bool" where
  "hm_wf m \<equiv> distinct (map fst m)"

abbreviation hm_get :: "('k, 'v) hashmap \<Rightarrow> 'k \<Rightarrow> 'v option" where
  "hm_get m k \<equiv> map_of m k"

abbreviation hm_insert :: "'k \<Rightarrow> 'v \<Rightarrow> ('k, 'v) hashmap \<Rightarrow> ('k, 'v) hashmap" where
  "hm_insert k v m \<equiv> AList.update k v m"

abbreviation hm_remove :: "'k \<Rightarrow> ('k, 'v) hashmap \<Rightarrow> ('k, 'v) hashmap" where
  "hm_remove k m \<equiv> AList.delete k m"

lemma hm_wf_insert: "hm_wf m \<Longrightarrow> hm_wf (hm_insert k v m)"
  by (rule distinct_update)

lemma hm_wf_remove: "hm_wf m \<Longrightarrow> hm_wf (hm_remove k m)"
  by (rule distinct_delete)

lemma hm_get_insert: "hm_get (hm_insert k v m) = (hm_get m)(k \<mapsto> v)"
  by (rule update_conv')

lemma hm_get_remove: "hm_get (hm_remove k m) = (hm_get m)(k := None)"
  by (rule delete_conv')

lemma hm_set_insert: "x \<in> set (hm_insert k v m) \<Longrightarrow> x = (k, v) \<or> x \<in> set m"
  by (induction m) (auto split: if_splits)

lemma hm_values_insert:
  "snd ` set (hm_insert k v m) \<subseteq> insert v (snd ` set m)"
  by (induction m) auto

lemma hm_values_remove: "snd ` set (hm_remove k m) \<subseteq> snd ` set m"
  by (induction m) auto

lemma hm_insert_all:
  assumes "\<forall>u \<in> snd ` set m. P u" and "P v"
  shows "\<forall>u \<in> snd ` set (hm_insert k v m). P u"
  using assms hm_values_insert [of k v m] by blast

lemma hm_remove_all: "\<forall>u \<in> snd ` set m. P u \<Longrightarrow> \<forall>u \<in> snd ` set (hm_remove k m). P u"
  using hm_values_remove [of k m] by blast

lemma hm_get_all:
  assumes "\<forall>u \<in> snd ` set m. P u" and "hm_get m k = Some v"
  shows "P v"
  using assms map_of_SomeD [OF assms(2)] by force

lemma hm_keys_map: "map fst (map (\<lambda>(k, v). (k, f k v)) m) = map fst m"
  by (induction m) auto

subsection \<open>Lists\<close>

lemma append_eq_append_split:
  assumes "xs @ ys = us @ vs" and "length xs \<ge> length us"
  shows "\<exists>ws. xs = us @ ws \<and> vs = ws @ ys"
  using assms by (auto simp: append_eq_append_conv2)

lemma length_filter_mono:
  "(\<And>x. x \<in> set xs \<Longrightarrow> P x \<Longrightarrow> Q x) \<Longrightarrow> length (filter P xs) \<le> length (filter Q xs)"
  by (induction xs) (auto simp: le_SucI)

subsection \<open>Strings\<close>

text \<open>\<^verbatim>\<open>str::trim\<close> on ASCII text, and the decimal form of a number (\<^verbatim>\<open>{}\<close> of \<^verbatim>\<open>format!\<close>).\<close>

definition is_ws :: "char \<Rightarrow> bool" where
  "is_ws c \<longleftrightarrow> of_char c \<in> {9, 10, 11, 12, 13, 32 :: nat}"

definition trim :: "string \<Rightarrow> string" where
  "trim s = rev (dropWhile is_ws (rev (dropWhile is_ws s)))"

definition digit :: "nat \<Rightarrow> char" where
  "digit d = char_of (48 + d)"

fun show_nat :: "nat \<Rightarrow> string" where
  "show_nat n = (if n < 10 then [digit n] else show_nat (n div 10) @ [digit (n mod 10)])"

declare show_nat.simps [simp del]

definition show_int :: "int \<Rightarrow> string" where
  "show_int i = (if i < 0 then CHR ''-'' # show_nat (nat (- i)) else show_nat (nat i))"

end
