(* ===== verification/Bytes_Codec.thy ===== *)
theory Bytes_Codec
  imports Prelude
begin

text \<open>
  The length-prefixed framing of every RustDesk TCP connection
  (\<^verbatim>\<open>libs/hbb_common/src/bytes_codec.rs\<close>): a frame is a header of one to four bytes, whose two
  low bits give the header's length and whose other bits give the payload's length, followed by
  the payload. The codec's state, the decoder (\<^verbatim>\<open>decode_head\<close>, \<^verbatim>\<open>decode_data\<close>, \<^verbatim>\<open>decode\<close>) and
  the encoder are definitions; the lemmas show that a stream of encoded frames decodes to the
  same payloads whatever the chunks in which the bytes arrive.
\<close>

subsection \<open>State\<close>

datatype decode_state = Head | Data nat

record bytes_codec =
  bc_state :: decode_state
  bc_raw :: bool
  bc_max_packet_length :: nat

definition MAX_PREALLOCATED_PAYLOAD_LEN :: nat where
  "MAX_PREALLOCATED_PAYLOAD_LEN = 256 * 1024"

definition codec_new :: bytes_codec where
  "codec_new = \<lparr>bc_state = Head, bc_raw = False, bc_max_packet_length = usize_MAX\<rparr>"

definition set_raw :: "bytes_codec \<Rightarrow> bytes_codec" where
  "set_raw c = c\<lparr>bc_raw := True\<rparr>"

definition set_max_packet_length :: "nat \<Rightarrow> bytes_codec \<Rightarrow> bytes_codec" where
  "set_max_packet_length n c = c\<lparr>bc_max_packet_length := n\<rparr>"

subsection \<open>Decoder\<close>

text \<open>
  The header value \<^verbatim>\<open>n\<close> before the range check: the first \<open>head_len\<close> bytes, little-endian,
  shifted right by two. Bytes beyond the header do not take part.
\<close>

definition head_value :: "nat \<Rightarrow> bytes \<Rightarrow> u32" where
  "head_value head_len src =
     (let n = ucast (src ! 0) :: u32;
          n = (if head_len > 1 then n OR push_bit 8 (ucast (src ! 1)) else n);
          n = (if head_len > 2 then n OR push_bit 16 (ucast (src ! 2)) else n);
          n = (if head_len > 3 then n OR push_bit 24 (ucast (src ! 3)) else n)
      in drop_bit 2 n)"

text \<open>
  The buffer is returned with the header consumed, together with the amount of additional
  capacity requested through \<^verbatim>\<open>BytesMut::reserve\<close> (0 where the source returns before it).
\<close>

definition decode_head :: "bytes_codec \<Rightarrow> bytes \<Rightarrow> io_error + nat option \<times> bytes \<times> nat" where
  "decode_head c src =
     (if src = [] then Inr (None, src, 0)
      else let head_len = unat (src ! 0 AND 3) + 1 in
        if length src < head_len then Inr (None, src, 0)
        else let n = unat (head_value head_len src) in
          if n > bc_max_packet_length c then Inl (InvalidData ''Too big packet'')
          else let src' = drop head_len src
               in Inr (Some n, src', min (n - length src') MAX_PREALLOCATED_PAYLOAD_LEN))"

definition decode_data :: "nat \<Rightarrow> bytes \<Rightarrow> bytes option \<times> bytes" where
  "decode_data n src = (if length src < n then (None, src) else (Some (take n src), drop n src))"

text \<open>\<open>decode\<close> returns the result, the codec, the buffer and the capacity requested.\<close>

definition decode ::
  "bytes_codec \<Rightarrow> bytes \<Rightarrow> (io_error + bytes option) \<times> bytes_codec \<times> bytes \<times> nat" where
  "decode c src =
     (if bc_raw c then
        (if src \<noteq> [] then (Inr (Some src), c, [], 0) else (Inr None, c, src, 0))
      else
        let body = (\<lambda>n c src r.
          case decode_data n src of
            (Some dat, src') \<Rightarrow> (Inr (Some dat), c\<lparr>bc_state := Head\<rparr>, src', r)
          | (None, src') \<Rightarrow> (Inr None, c, src', r))
        in case bc_state c of
             Head \<Rightarrow>
               (case decode_head c src of
                  Inl e \<Rightarrow> (Inl e, c, src, 0)
                | Inr (Some n, src', r) \<Rightarrow> body n (c\<lparr>bc_state := Data n\<rparr>) src' r
                | Inr (None, src', r) \<Rightarrow> (Inr None, c, src', r))
           | Data n \<Rightarrow> body n c src 0)"

subsection \<open>Encoder\<close>

definition frame_header :: "nat \<Rightarrow> bytes option" where
  "frame_header len =
     (if len \<le> 0x3F then Some [ucast (push_bit 2 (of_nat len :: u32))]
      else if len \<le> 0x3FFF then
        Some (u16_to_le_bytes (ucast (push_bit 2 (of_nat len :: u32)) OR 1))
      else if len \<le> 0x3FFFFF then
        (let h = push_bit 2 (of_nat len :: u32) OR 2
         in Some (u16_to_le_bytes (ucast (h AND 0xFFFF)) @ [ucast (drop_bit 16 h)]))
      else if len \<le> 0x3FFFFFFF then
        Some (u32_to_le_bytes (push_bit 2 (of_nat len) OR 3))
      else None)"

definition encode :: "bytes_codec \<Rightarrow> bytes \<Rightarrow> bytes \<Rightarrow> io_error + bytes" where
  "encode c dat buf =
     (if bc_raw c then Inr (buf @ dat)
      else case frame_header (length dat) of
             Some h \<Rightarrow> Inr (buf @ h @ dat)
           | None \<Rightarrow> Inl (InvalidInput ''Overflow''))"

subsection \<open>A connection: bytes arrive, the reader calls the decoder\<close>

text \<open>
  The reader's side of a connection as a transition system. \<open>rx_rest\<close> are the bytes the peer has
  sent that have not arrived; a step is the arrival of any number of them, or one call of
  \<open>decode\<close> on what has arrived. Which step is next is left open, so every chunking of the stream
  and every schedule of the reader is covered.
\<close>

record 'c rx =
  rx_codec :: 'c
  rx_buf :: bytes
  rx_rest :: bytes
  rx_out :: "bytes list"

type_synonym 'c decoder = "'c \<Rightarrow> bytes \<Rightarrow> (io_error + bytes option) \<times> 'c \<times> bytes \<times> nat"

inductive rx_step :: "'c decoder \<Rightarrow> 'c rx \<Rightarrow> 'c rx \<Rightarrow> bool" for dec where
  arrive: "rx_rest s = chunk @ rest \<Longrightarrow>
    rx_step dec s (s\<lparr>rx_buf := rx_buf s @ chunk, rx_rest := rest\<rparr>)"
| emit: "dec (rx_codec s) (rx_buf s) = (Inr (Some m), c', buf', r) \<Longrightarrow>
    rx_step dec s (s\<lparr>rx_codec := c', rx_buf := buf', rx_out := rx_out s @ [m]\<rparr>)"
| wait: "dec (rx_codec s) (rx_buf s) = (Inr None, c', buf', r) \<Longrightarrow>
    rx_step dec s (s\<lparr>rx_codec := c', rx_buf := buf'\<rparr>)"

definition rx_init :: "'c \<Rightarrow> bytes \<Rightarrow> 'c rx" where
  "rx_init c stream = \<lparr>rx_codec = c, rx_buf = [], rx_rest = stream, rx_out = []\<rparr>"

text \<open>The bytes a sender writes for a list of messages: \<open>encode\<close> appended message by message.\<close>

fun encode_all :: "bytes_codec \<Rightarrow> bytes list \<Rightarrow> bytes \<Rightarrow> io_error + bytes" where
  "encode_all c [] buf = Inr buf"
| "encode_all c (m # ms) buf =
     (case encode c m buf of Inl e \<Rightarrow> Inl e | Inr buf' \<Rightarrow> encode_all c ms buf')"

text \<open>
  What the codec still expects of a message in a given state: the whole frame between frames, the
  payload once the header has been consumed; nothing where it would not accept the message.
\<close>

definition codec_accepts :: "nat \<Rightarrow> bytes \<Rightarrow> bool" where
  "codec_accepts maxlen m \<longleftrightarrow> length m \<le> 0x3FFFFFFF \<and> length m \<le> maxlen"

definition codec_frame :: "bytes \<Rightarrow> bytes" where
  "codec_frame m = (case frame_header (length m) of Some h \<Rightarrow> h @ m | None \<Rightarrow> [])"

definition codec_idle :: "nat \<Rightarrow> bytes_codec \<Rightarrow> bool" where
  "codec_idle maxlen c \<longleftrightarrow> bc_state c = Head \<and> \<not> bc_raw c \<and> bc_max_packet_length c = maxlen"

definition codec_expect :: "nat \<Rightarrow> bytes_codec \<Rightarrow> bytes \<Rightarrow> bytes option" where
  "codec_expect maxlen c m =
     (if bc_raw c \<or> bc_max_packet_length c \<noteq> maxlen \<or> \<not> codec_accepts maxlen m then None
      else case bc_state c of
             Head \<Rightarrow> Some (codec_frame m)
           | Data n \<Rightarrow> (if n = length m then Some m else None))"

inductive_cases rx_stepE: "rx_step dec s t"

text \<open>A short run used by the witnesses: two messages, the second still undelivered.\<close>

definition run_codec :: bytes_codec where
  "run_codec = set_max_packet_length 100 codec_new"

definition run_mid :: "bytes_codec rx" where
  "run_mid = \<lparr>rx_codec = run_codec, rx_buf = [], rx_rest = [4, 5], rx_out = [[7, 9]]\<rparr>"

definition run_end :: "bytes_codec rx" where
  "run_end = \<lparr>rx_codec = run_codec, rx_buf = [4, 5], rx_rest = [], rx_out = [[7, 9]]\<rparr>"

subsection \<open>One header\<close>

lemma frame_header_None: "frame_header len = None \<longleftrightarrow> 0x3FFFFFFF < len"
  by (auto simp: frame_header_def Let_def)


lemma bit_nat_bound: "(len :: nat) < 2 ^ k \<Longrightarrow> k \<le> n \<Longrightarrow> \<not> bit len n"
proof
  assume "len < 2 ^ k" "k \<le> n" "bit len n"
  then have "bit (take_bit k len) n"
    by (simp only: take_bit_nat_eq_self)
  with \<open>k \<le> n\<close> show False
    by (simp add: bit_take_bit_iff)
qed

lemma three_eq_mask: "(3 :: 'a :: len word) = mask 2"
  by (simp add: mask_eq_exp_minus_1)

text \<open>Each of the four header shapes carries its length and its value.\<close>

lemma header1:
  assumes "len \<le> 0x3F"
  shows "(ucast (push_bit 2 (of_nat len :: u32)) :: u8) AND 3 = 0"
    and "drop_bit 2 (ucast (ucast (push_bit 2 (of_nat len :: u32)) :: u8) :: u32) = of_nat len"
proof -
  show "(ucast (push_bit 2 (of_nat len :: u32)) :: u8) AND 3 = 0"
    by (rule bit_eqI) (auto simp: bit_simps three_eq_mask)
  have "len < 2 ^ 6" using assms by simp
  note bnd = bit_nat_bound [OF this]
  show "drop_bit 2 (ucast (ucast (push_bit 2 (of_nat len :: u32)) :: u8) :: u32) = of_nat len"
  proof (rule bit_eqI)
    fix n
    show "bit (drop_bit 2 (ucast (ucast (push_bit 2 (of_nat len :: u32)) :: u8) :: u32)) n
        = bit (of_nat len :: u32) n"
      by (cases "n < 6") (auto simp: bit_simps bnd)
  qed
qed

lemma header2:
  fixes len :: nat
  defines "x \<equiv> (ucast (push_bit 2 (of_nat len :: u32)) :: u16) OR 1"
  assumes "len \<le> 0x3FFF"
  shows "(ucast x :: u8) AND 3 = 1"
    and "drop_bit 2 ((ucast (ucast x :: u8) :: u32) OR push_bit 8 (ucast (ucast (drop_bit 8 x) :: u8)))
          = of_nat len" (is "?l = _")
proof -
  show "(ucast x :: u8) AND 3 = 1"
    unfolding x_def by (rule bit_eqI) (auto simp: bit_simps three_eq_mask)
  have "len < 2 ^ 14" using assms by simp
  note bnd = bit_nat_bound [OF this]
  show "?l = of_nat len"
  proof (rule bit_eqI)
    fix n :: nat
    consider "n < 6" | "6 \<le> n" "n < 14" | "14 \<le> n" by linarith
    then show "bit ?l n = bit (of_nat len :: u32) n"
      by cases (auto simp: x_def bit_simps bnd)
  qed
qed

lemma header3:
  fixes len :: nat
  defines "x \<equiv> push_bit 2 (of_nat len :: u32) OR 2"
  defines "y \<equiv> ucast (x AND 0xFFFF) :: u16"
  assumes "len \<le> 0x3FFFFF"
  shows "(ucast y :: u8) AND 3 = 2"
    and "drop_bit 2 ((ucast (ucast y :: u8) :: u32) OR push_bit 8 (ucast (ucast (drop_bit 8 y) :: u8))
          OR push_bit 16 (ucast (ucast (drop_bit 16 x) :: u8))) = of_nat len" (is "?l = _")
proof -
  have m: "(0xFFFF :: u32) = mask 16" by (simp add: mask_eq_exp_minus_1)
  show "(ucast y :: u8) AND 3 = 2"
    unfolding x_def y_def m by (rule bit_eqI) (auto simp: bit_simps three_eq_mask)
  have "len < 2 ^ 22" using assms by simp
  note bnd = bit_nat_bound [OF this]
  show "?l = of_nat len"
  proof (rule bit_eqI)
    fix n :: nat
    consider "n < 6" | "6 \<le> n" "n < 14" | "14 \<le> n" "n < 22" | "22 \<le> n" by linarith
    then show "bit ?l n = bit (of_nat len :: u32) n"
      by cases (auto simp: x_def y_def m bit_simps bnd)
  qed
qed

lemma header4:
  fixes len :: nat
  defines "x \<equiv> push_bit 2 (of_nat len :: u32) OR 3"
  assumes "len \<le> 0x3FFFFFFF"
  shows "(ucast x :: u8) AND 3 = 3"
    and "drop_bit 2 x = of_nat len"
proof -
  show "(ucast x :: u8) AND 3 = 3"
    unfolding x_def three_eq_mask by (rule bit_eqI) (auto simp: bit_simps)
  have "len < 2 ^ 30" using assms by simp
  note bnd = bit_nat_bound [OF this]
  show "drop_bit 2 x = of_nat len"
  proof (rule bit_eqI)
    fix n :: nat
    show "bit (drop_bit 2 x) n = bit (of_nat len :: u32) n"
      by (cases "n < 30") (auto simp: x_def three_eq_mask bit_simps bnd)
  qed
qed

lemma unat_of_nat_u32: "n < 2 ^ 32 \<Longrightarrow> unat (of_nat n :: u32) = n"
  by (simp add: unat_of_nat)

lemma frame_header_parses:
  assumes "frame_header len = Some h"
  shows "h \<noteq> []"
    and "unat (h ! 0 AND 3) + 1 = length h"
    and "unat (head_value (length h) (h @ rest)) = len"
proof -
  have len: "len \<le> 0x3FFFFFFF" and small: "unat (of_nat len :: u32) = len"
    using assms by (auto simp: frame_header_def Let_def unat_of_nat split: if_splits)
  consider "len \<le> 0x3F" | "0x3F < len" "len \<le> 0x3FFF" | "0x3FFF < len" "len \<le> 0x3FFFFF"
    | "0x3FFFFF < len" by linarith
  then have "h \<noteq> [] \<and> unat (h ! 0 AND 3) + 1 = length h
      \<and> head_value (length h) (h @ rest) = of_nat len"
  proof cases
    case 1
    then show ?thesis
      using assms header1 [OF 1] by (auto simp: frame_header_def head_value_def)
  next
    case 2
    then show ?thesis
      using assms header2 [OF 2(2)]
      by (auto simp: frame_header_def head_value_def u16_to_le_bytes_def nth_append Let_def)
  next
    case 3
    then show ?thesis
      using assms header3 [OF 3(2)]
      by (auto simp: frame_header_def head_value_def u16_to_le_bytes_def nth_append Let_def or.assoc)
  next
    case 4
    let ?x = "push_bit 2 (of_nat len :: u32) OR 3"
    have h: "h = u32_to_le_bytes ?x" using assms 4 len by (auto simp: frame_header_def)
    have "head_value 4 (u32_to_le_bytes ?x @ rest) = drop_bit 2 (u32_from_le_bytes (u32_to_le_bytes ?x))"
      by (simp add: head_value_def u32_to_le_bytes_def nth_append Let_def or.assoc del: u32_le_roundtrip)
    then show ?thesis
      using header4 [OF len] by (simp add: h) (simp add: u32_to_le_bytes_def)
  qed
  then show "h \<noteq> []" "unat (h ! 0 AND 3) + 1 = length h" "unat (head_value (length h) (h @ rest)) = len"
    using small by auto
qed

subsection \<open>Streams of messages\<close>

text \<open>
  The contract between a framing decoder and the reader that drives it: a decoder that expects the
  bytes \<open>w\<close> for a message delivers exactly that message when it holds at least \<open>w\<close>, and keeps
  waiting, losing no byte, when it holds less.
\<close>

locale message_stream =
  fixes dec :: "'c decoder"
    and idle :: "'c \<Rightarrow> bool"
    and expect :: "'c \<Rightarrow> bytes \<Rightarrow> bytes option"
    and accepts :: "bytes \<Rightarrow> bool"
    and frame :: "bytes \<Rightarrow> bytes"
  assumes deliver: "expect c m = Some w \<Longrightarrow>
      \<exists>c' r. dec c (w @ rest) = (Inr (Some m), c', rest, r) \<and> idle c'"
    and hold: "expect c m = Some (buf @ z) \<Longrightarrow> z \<noteq> [] \<Longrightarrow>
      \<exists>c' buf' r. dec c buf = (Inr None, c', buf', r) \<and> expect c' m = Some (buf' @ z)"
    and quiet: "idle c \<Longrightarrow> \<exists>c' r. dec c [] = (Inr None, c', [], r) \<and> idle c'"
    and idle_expect: "idle c \<Longrightarrow> accepts m \<Longrightarrow> expect c m = Some (frame m)"
begin

definition wire :: "bytes list \<Rightarrow> bytes" where
  "wire ms = concat (map frame ms)"

definition awaits :: "'c \<Rightarrow> bytes list \<Rightarrow> bytes \<Rightarrow> bool" where
  "awaits c pend stream \<longleftrightarrow>
     (case pend of
        [] \<Rightarrow> idle c \<and> stream = []
      | m # ms \<Rightarrow> \<exists>w. expect c m = Some w \<and> stream = w @ wire ms)"

definition stream_inv :: "bytes list \<Rightarrow> 'c rx \<Rightarrow> bool" where
  "stream_inv ms s \<longleftrightarrow> list_all accepts ms \<and>
     (\<exists>pend. ms = rx_out s @ pend \<and> awaits (rx_codec s) pend (rx_buf s @ rx_rest s))"

lemma awaits_wire: "idle c \<Longrightarrow> list_all accepts pend \<Longrightarrow> awaits c pend (wire pend)"
  by (cases pend) (auto simp: awaits_def wire_def idle_expect)

lemma stream_inv_init: "idle c \<Longrightarrow> list_all accepts ms \<Longrightarrow> stream_inv ms (rx_init c (wire ms))"
  by (simp add: stream_inv_def rx_init_def awaits_wire)

text \<open>What a call of the decoder does in a state of the invariant.\<close>

lemma decode_call:
  assumes "stream_inv ms s"
  obtains (none) c' buf' r where "dec (rx_codec s) (rx_buf s) = (Inr None, c', buf', r)"
      "stream_inv ms (s\<lparr>rx_codec := c', rx_buf := buf'\<rparr>)"
      "rx_rest s = [] \<Longrightarrow> rx_out s = ms"
  | (some) m c' buf' r where "dec (rx_codec s) (rx_buf s) = (Inr (Some m), c', buf', r)"
      "stream_inv ms (s\<lparr>rx_codec := c', rx_buf := buf', rx_out := rx_out s @ [m]\<rparr>)"
proof -
  from assms obtain pend where acc: "list_all accepts ms" and ms: "ms = rx_out s @ pend"
    and p: "awaits (rx_codec s) pend (rx_buf s @ rx_rest s)"
    by (auto simp: stream_inv_def)
  show ?thesis
  proof (cases pend)
    case Nil
    with p quiet [of "rx_codec s"] obtain c' r where
      d: "dec (rx_codec s) (rx_buf s) = (Inr None, c', [], r)" and "idle c'"
      by (auto simp: awaits_def)
    with Nil p ms acc show ?thesis
      by (intro none [OF d]) (auto simp: stream_inv_def awaits_def)
  next
    case (Cons m ms')
    with p obtain w where e: "expect (rx_codec s) m = Some w"
      and eq: "rx_buf s @ rx_rest s = w @ wire ms'"
      by (auto simp: awaits_def)
    show ?thesis
    proof (cases "length w \<le> length (rx_buf s)")
      case True
      then obtain b where b: "rx_buf s = w @ b" and w: "wire ms' = b @ rx_rest s"
        using append_eq_append_split [OF eq] by auto
      from deliver [OF e, of b] obtain c' r where
        d: "dec (rx_codec s) (rx_buf s) = (Inr (Some m), c', b, r)" and i: "idle c'"
        unfolding b by blast
      have "awaits c' ms' (b @ rx_rest s)"
        using awaits_wire [OF i, of ms'] acc ms Cons w by simp
      with ms Cons acc show ?thesis
        by (intro some [OF d]) (auto simp: stream_inv_def)
    next
      case False
      then obtain z where z: "w = rx_buf s @ z" and r: "rx_rest s = z @ wire ms'" and "z \<noteq> []"
        using append_eq_append_split [OF eq [symmetric]] by fastforce
      from hold [OF e [unfolded z] \<open>z \<noteq> []\<close>] obtain c' buf' q where
        d: "dec (rx_codec s) (rx_buf s) = (Inr None, c', buf', q)" and
        e': "expect c' m = Some (buf' @ z)" by blast
      show ?thesis
        using ms Cons acc e' r \<open>z \<noteq> []\<close> by (intro none [OF d]) (auto simp: stream_inv_def awaits_def)
    qed
  qed
qed

lemma stream_inv_step: "rx_step dec s t \<Longrightarrow> stream_inv ms s \<Longrightarrow> stream_inv ms t"
proof (induction rule: rx_step.induct)
  case (arrive s chunk rest)
  then show ?case by (auto simp: stream_inv_def)
next
  case (emit s m c' buf' r)
  from emit.prems show ?case
    by (cases rule: decode_call) (use emit.hyps in auto)
next
  case (wait s c' buf' r)
  from wait.prems show ?case
    by (cases rule: decode_call) (use wait.hyps in auto)
qed

lemma stream_inv_steps: "(rx_step dec)\<^sup>*\<^sup>* s t \<Longrightarrow> stream_inv ms s \<Longrightarrow> stream_inv ms t"
  by (induction rule: rtranclp_induct) (auto dest: stream_inv_step)

lemma stream_inv_prefix: "stream_inv ms s \<Longrightarrow> prefix (rx_out s) ms"
  by (auto simp: stream_inv_def)

lemma stream_safe:
  assumes "idle c" and "list_all accepts ms" and "(rx_step dec)\<^sup>*\<^sup>* (rx_init c (wire ms)) s"
  shows "prefix (rx_out s) ms \<and> (\<forall>e. fst (dec (rx_codec s) (rx_buf s)) \<noteq> Inl e)"
proof -
  have inv: "stream_inv ms s"
    using assms by (blast intro: stream_inv_steps stream_inv_init)
  then have "prefix (rx_out s) ms" by (rule stream_inv_prefix)
  with inv show ?thesis by (cases rule: decode_call) auto
qed

lemma stream_progress:
  assumes "idle c" and "list_all accepts ms" and "(rx_step dec)\<^sup>*\<^sup>* (rx_init c (wire ms)) s"
    and "rx_rest s = []" and "rx_out s \<noteq> ms"
  shows "\<exists>m c' buf' r. dec (rx_codec s) (rx_buf s) = (Inr (Some m), c', buf', r) \<and>
    prefix (rx_out s @ [m]) ms"
proof -
  have inv: "stream_inv ms s"
    using assms by (blast intro: stream_inv_steps stream_inv_init)
  then show ?thesis
  proof (cases rule: decode_call)
    case none
    with assms(4,5) show ?thesis by simp
  next
    case some
    then show ?thesis using stream_inv_prefix by fastforce
  qed
qed

end

subsection \<open>The length-prefixed codec is such a decoder\<close>

lemma decode_head_frame:
  assumes "frame_header len = Some h" and "len \<le> bc_max_packet_length c"
  shows "decode_head c (h @ rest) =
    Inr (Some len, rest, min (len - length rest) MAX_PREALLOCATED_PAYLOAD_LEN)"
  using frame_header_parses(1,2) [OF assms(1)] frame_header_parses(3) [OF assms(1), of rest] assms(2)
  by (simp add: decode_head_def nth_append)

lemma decode_head_short:
  assumes "frame_header len = Some (buf @ z)" and "z \<noteq> []"
  shows "decode_head c buf = Inr (None, buf, 0)"
  using frame_header_parses(2) [OF assms(1)] assms(2)
  by (cases buf) (auto simp: decode_head_def nth_append)

lemma accepts_header:
  assumes "codec_accepts maxlen m"
  obtains h where "frame_header (length m) = Some h" "codec_frame m = h @ m"
  using assms frame_header_None [of "length m"]
  by (cases "frame_header (length m)") (auto simp: codec_accepts_def codec_frame_def)

lemma codec_deliver:
  assumes "codec_expect maxlen c m = Some w"
  shows "\<exists>c' r. decode c (w @ rest) = (Inr (Some m), c', rest, r) \<and> codec_idle maxlen c'"
proof -
  have acc: "codec_accepts maxlen m" and c: "\<not> bc_raw c" "bc_max_packet_length c = maxlen"
    using assms by (auto simp: codec_expect_def split: if_splits)
  from acc obtain h where h: "frame_header (length m) = Some h" "codec_frame m = h @ m"
    by (rule accepts_header)
  have "length m \<le> bc_max_packet_length c" using acc c by (simp add: codec_accepts_def)
  note hd = decode_head_frame [OF h(1) this]
  show ?thesis
    using assms c acc h hd [of "m @ rest"]
    by (cases "bc_state c")
       (auto simp: codec_expect_def decode_def decode_data_def codec_idle_def split: if_splits)
qed

lemma codec_hold:
  assumes "codec_expect maxlen c m = Some (buf @ z)" and "z \<noteq> []"
  shows "\<exists>c' buf' r. decode c buf = (Inr None, c', buf', r) \<and> codec_expect maxlen c' m = Some (buf' @ z)"
proof -
  have acc: "codec_accepts maxlen m" and c: "\<not> bc_raw c" "bc_max_packet_length c = maxlen"
    using assms by (auto simp: codec_expect_def split: if_splits)
  from acc obtain h where h: "frame_header (length m) = Some h" "codec_frame m = h @ m"
    by (rule accepts_header)
  have le: "length m \<le> bc_max_packet_length c" using acc c by (simp add: codec_accepts_def)
  show ?thesis
  proof (cases "bc_state c")
    case (Data n)
    with assms c acc show ?thesis
      by (auto simp: codec_expect_def decode_def decode_data_def split: if_splits)
  next
    case Head
    then have eq: "h @ m = buf @ z" using assms c acc h by (simp add: codec_expect_def)
    show ?thesis
    proof (cases "length h \<le> length buf")
      case True
      then obtain b where b: "buf = h @ b" "m = b @ z"
        using append_eq_append_split [OF eq [symmetric]] by auto
      then show ?thesis
        using Head c acc decode_head_frame [OF h(1) le, of b] assms(2)
        by (auto simp: decode_def decode_data_def codec_expect_def)
    next
      case False
      then obtain y where "h = buf @ y" "y \<noteq> []"
        using append_eq_append_split [OF eq] by fastforce
      then have "decode_head c buf = Inr (None, buf, 0)"
        using h(1) decode_head_short by blast
      then show ?thesis
        using Head c assms by (auto simp: decode_def)
    qed
  qed
qed

interpretation codec_stream: message_stream decode "codec_idle maxlen" "codec_expect maxlen"
    "codec_accepts maxlen" codec_frame for maxlen
proof unfold_locales
  fix c m w rest
  assume "codec_expect maxlen c m = Some w"
  then show "\<exists>c' r. decode c (w @ rest) = (Inr (Some m), c', rest, r) \<and> codec_idle maxlen c'"
    by (rule codec_deliver)
next
  fix c m buf z
  assume "codec_expect maxlen c m = Some (buf @ z)" and "z \<noteq> []"
  then show "\<exists>c' buf' r. decode c buf = (Inr None, c', buf', r) \<and>
      codec_expect maxlen c' m = Some (buf' @ z)"
    by (rule codec_hold)
qed (auto simp: codec_idle_def codec_expect_def decode_def decode_head_def)

lemma encode_all_wire:
  assumes "\<not> bc_raw c" and "list_all (\<lambda>m. length m \<le> 0x3FFFFFFF) ms"
  shows "encode_all c ms buf = Inr (buf @ codec_stream.wire ms)"
  using assms(2)
proof (induction ms arbitrary: buf)
  case Nil
  then show ?case by (simp add: codec_stream.wire_def)
next
  case (Cons m ms)
  then have "codec_accepts 0x3FFFFFFF m" by (simp add: codec_accepts_def)
  then obtain h where "frame_header (length m) = Some h" "codec_frame m = h @ m"
    by (rule accepts_header)
  with Cons assms(1) show ?case by (simp add: codec_stream.wire_def encode_def)
qed

lemma encode_all_stream:
  assumes "encode_all codec_new ms [] = Inr stream"
    and "list_all (\<lambda>m. length m \<le> 0x3FFFFFFF \<and> length m \<le> maxlen) ms"
  shows "codec_stream.wire ms = stream"
  using assms encode_all_wire [of codec_new ms "[]"] by (auto simp: codec_new_def list_all_iff)

lemma codec_new_idle: "codec_idle maxlen (set_max_packet_length maxlen codec_new)"
  by (simp add: codec_idle_def set_max_packet_length_def codec_new_def)

subsection \<open>Properties\<close>

text \<open>
  C1. Safety of the stream: whatever chunks the bytes of encoded messages arrive in, and whenever
  the reader polls, what the decoder has delivered is a prefix of the messages sent, and no poll
  ever fails, provided every message is within the configured maximum.
\<close>

theorem codec_stream_safe:
  assumes "encode_all codec_new ms [] = Inr stream"
    and "list_all (\<lambda>m. length m \<le> 0x3FFFFFFF \<and> length m \<le> maxlen) ms"
    and "(rx_step decode)\<^sup>*\<^sup>* (rx_init (set_max_packet_length maxlen codec_new) stream) s"
  shows "prefix (rx_out s) ms \<and> (\<forall>e. fst (decode (rx_codec s) (rx_buf s)) \<noteq> Inl e)"
proof (rule codec_stream.stream_safe [of maxlen])
  show "codec_idle maxlen (set_max_packet_length maxlen codec_new)" by (rule codec_new_idle)
  show "list_all (codec_accepts maxlen) ms"
    using assms(2) by (simp add: codec_accepts_def list_all_iff)
  show "(rx_step decode)\<^sup>*\<^sup>* (rx_init (set_max_packet_length maxlen codec_new) (codec_stream.wire ms)) s"
    using assms by (simp add: encode_all_stream)
qed

lemma run_encode: "encode_all codec_new [[7, 9], [5]] [] = Inr [8, 7, 9, 4, 5]"
  by (simp add: encode_def codec_new_def frame_header_def)

lemma run_to_mid: "(rx_step decode)\<^sup>*\<^sup>* (rx_init (set_max_packet_length 100 codec_new) [8, 7, 9, 4, 5]) run_mid"
proof (rule converse_rtranclp_into_rtranclp)
  let ?s = "\<lparr>rx_codec = run_codec, rx_buf = [8, 7, 9], rx_rest = [4, 5], rx_out = []\<rparr>"
  show "rx_step decode (rx_init (set_max_packet_length 100 codec_new) [8, 7, 9, 4, 5]) ?s"
    using rx_step.arrive [of "rx_init run_codec [8, 7, 9, 4, 5]" "[8, 7, 9]" "[4, 5]"]
    by (simp add: rx_init_def run_codec_def)
  show "(rx_step decode)\<^sup>*\<^sup>* ?s run_mid"
    using rx_step.emit [of decode ?s]
    by (intro r_into_rtranclp)
       (simp add: run_mid_def run_codec_def decode_def decode_head_def head_value_def decode_data_def
         set_max_packet_length_def codec_new_def)
qed

lemma run_to_end: "(rx_step decode)\<^sup>*\<^sup>* (rx_init (set_max_packet_length 100 codec_new) [8, 7, 9, 4, 5]) run_end"
  using run_to_mid
proof (rule rtranclp.rtrancl_into_rtrancl)
  show "rx_step decode run_mid run_end"
    using rx_step.arrive [of run_mid "[4, 5]" "[]"] by (simp add: run_mid_def run_end_def)
qed

theorem codec_stream_safe_witness:
  "prefix (rx_out run_mid) [[7, 9], [5]]
    \<and> (\<forall>e. fst (decode (rx_codec run_mid) (rx_buf run_mid)) \<noteq> Inl e)"
  by (rule codec_stream_safe [OF run_encode _ run_to_mid]) simp

text \<open>
  C2. Progress of the stream: once every byte has arrived, a poll delivers the next message as long
  as one is missing, so polling until it returns nothing yields exactly the messages sent.
\<close>

theorem codec_stream_progress:
  assumes "encode_all codec_new ms [] = Inr stream"
    and "list_all (\<lambda>m. length m \<le> 0x3FFFFFFF \<and> length m \<le> maxlen) ms"
    and "(rx_step decode)\<^sup>*\<^sup>* (rx_init (set_max_packet_length maxlen codec_new) stream) s"
    and "rx_rest s = []" and "rx_out s \<noteq> ms"
  shows "\<exists>m c' buf' r. decode (rx_codec s) (rx_buf s) = (Inr (Some m), c', buf', r) \<and>
    prefix (rx_out s @ [m]) ms"
proof (rule codec_stream.stream_progress [of maxlen])
  show "codec_idle maxlen (set_max_packet_length maxlen codec_new)" by (rule codec_new_idle)
  show "list_all (codec_accepts maxlen) ms"
    using assms(2) by (simp add: codec_accepts_def list_all_iff)
  show "(rx_step decode)\<^sup>*\<^sup>* (rx_init (set_max_packet_length maxlen codec_new) (codec_stream.wire ms)) s"
    using assms(1,2,3) by (simp add: encode_all_stream)
qed (use assms in auto)

theorem codec_stream_progress_witness:
  "\<exists>m c' buf' r. decode (rx_codec run_end) (rx_buf run_end) = (Inr (Some m), c', buf', r) \<and>
    prefix (rx_out run_end @ [m]) [[7, 9], [5]]"
  by (rule codec_stream_progress [OF run_encode _ run_to_end]) (simp_all add: run_end_def)

text \<open>
  C3. Resource bound against an untrusted peer: whatever bytes are received, one poll never asks for
  more than 256 KiB of additional buffer, never invents bytes, and never delivers from a fresh
  header a payload longer than the configured maximum.
\<close>

theorem decode_bounded:
  assumes "decode c src = (res, c', src', r)"
  shows "r \<le> 256 * 1024 \<and> suffix src' src \<and>
    (\<forall>m. res = Inr (Some m) \<longrightarrow> \<not> bc_raw c \<longrightarrow> bc_state c = Head \<longrightarrow>
      length m \<le> bc_max_packet_length c)"
proof -
  have "r \<le> 256 * 1024"
    using assms
    by (auto simp: decode_def decode_head_def decode_data_def MAX_PREALLOCATED_PAYLOAD_LEN_def Let_def
        split: if_splits decode_state.splits)
  moreover have "suffix src' src"
    using assms
    by (auto simp: decode_def decode_head_def decode_data_def Let_def suffix_drop
        split: if_splits decode_state.splits)
  moreover have "length m \<le> bc_max_packet_length c"
    if "res = Inr (Some m)" "\<not> bc_raw c" "bc_state c = Head" for m
    using assms that
    by (auto simp: decode_def decode_head_def decode_data_def Let_def split: if_splits)
  ultimately show ?thesis by blast
qed

theorem decode_bounded_witness:
  "decode codec_new [253, 255, 9] = (Inr None, codec_new\<lparr>bc_state := Data 16383\<rparr>, [9], 16382)
    \<and> (16382 :: nat) \<le> 256 * 1024"
proof -
  have d: "decode codec_new [253, 255, 9] = (Inr None, codec_new\<lparr>bc_state := Data 16383\<rparr>, [9], 16382)"
    by (simp add: decode_def decode_head_def head_value_def decode_data_def codec_new_def usize_MAX_def
        MAX_PREALLOCATED_PAYLOAD_LEN_def)
  show ?thesis using d decode_bounded [OF d] by simp
qed

text \<open>
  The encoder refuses exactly the payloads the four-byte header cannot describe, and a header
  that declares more than the configured maximum is refused without consuming a byte.
\<close>

theorem codec_errors:
  "(\<not> bc_raw c \<longrightarrow> ((\<exists>e. encode c dat buf = Inl e) \<longleftrightarrow> 0x3FFFFFFF < length dat)) \<and>
   (frame_header n = Some h \<longrightarrow> \<not> bc_raw c \<longrightarrow> bc_state c = Head \<longrightarrow> bc_max_packet_length c < n \<longrightarrow>
      decode c (h @ rest) = (Inl (InvalidData ''Too big packet''), c, h @ rest, 0))"
proof (intro conjI impI)
  assume "\<not> bc_raw c"
  then show "(\<exists>e. encode c dat buf = Inl e) \<longleftrightarrow> 0x3FFFFFFF < length dat"
    using frame_header_None [of "length dat"] by (auto simp: encode_def split: option.splits)
next
  assume "frame_header n = Some h" "\<not> bc_raw c" "bc_state c = Head" "bc_max_packet_length c < n"
  then show "decode c (h @ rest) = (Inl (InvalidData ''Too big packet''), c, h @ rest, 0)"
    using frame_header_parses(1,2) [of n h] frame_header_parses(3) [of n h rest]
    by (auto simp: decode_def decode_head_def nth_append)
qed

theorem codec_errors_witness:
  "decode run_codec ([165, 1] @ [0]) =
    (Inl (InvalidData ''Too big packet''), run_codec, [165, 1] @ [0], 0)"
  using codec_errors [of run_codec "[]" "[]" 105 "[165, 1]" "[0]"]
  by (simp add: frame_header_def u16_to_le_bytes_def run_codec_def set_max_packet_length_def codec_new_def)

end
