(* ===== verification/Transport.thy ===== *)
theory Transport
  imports Bytes_Codec
begin

text \<open>
  Below the frames of a connection: the encryption of a stream (\<^verbatim>\<open>Encrypt\<close> and \<^verbatim>\<open>FramedStream\<close> of
  \<^verbatim>\<open>libs/hbb_common/src/tcp.rs\<close>) and the addresses that travel through the rendezvous server
  (\<^verbatim>\<open>AddrMangle\<close> of \<^verbatim>\<open>libs/hbb_common/src/lib.rs\<close>). The ciphers of sodiumoxide are arguments.
\<close>

subsection \<open>Addresses\<close>

type_synonym u128 = "128 word"

datatype socket_addr = SocketV4 u8 u8 u8 u8 u16 | SocketV6 bytes u16

definition addr_ok :: "socket_addr \<Rightarrow> bool" where
  "addr_ok a = (case a of SocketV4 _ _ _ _ _ \<Rightarrow> True | SocketV6 octets _ \<Rightarrow> length octets = 16)"

definition is_loopback_v6 :: "bytes \<Rightarrow> bool" where
  "is_loopback_v6 octets \<longleftrightarrow> octets = replicate 15 0 @ [1]"

text \<open>\<^verbatim>\<open>Ipv6Addr::to_ipv4\<close>: the mapped and the compatible addresses.\<close>

definition to_ipv4 :: "bytes \<Rightarrow> bytes option" where
  "to_ipv4 octets =
     (if take 12 octets = replicate 10 0 @ [0xFF, 0xFF] \<or> take 12 octets = replicate 12 0 then Some (drop 12 octets) else None)"

definition try_into_v4 :: "socket_addr \<Rightarrow> socket_addr" where
  "try_into_v4 addr =
     (case addr of
        SocketV6 octets port \<Rightarrow>
          if \<not> is_loopback_v6 octets then
            (case to_ipv4 octets of
               Some v4 \<Rightarrow> SocketV4 (v4 ! 0) (v4 ! 1) (v4 ! 2) (v4 ! 3) port
             | None \<Rightarrow> addr)
          else addr
      | _ \<Rightarrow> addr)"

definition u128_to_le_bytes :: "u128 \<Rightarrow> bytes" where
  "u128_to_le_bytes w = map (\<lambda>i. ucast (drop_bit (8 * i) w)) [0..<16]"

primrec u128_from_le_bytes :: "bytes \<Rightarrow> u128" where
  "u128_from_le_bytes [] = 0"
| "u128_from_le_bytes (b # bs) = ucast b OR push_bit 8 (u128_from_le_bytes bs)"

definition mangled :: "u32 \<Rightarrow> u32 \<Rightarrow> u16 \<Rightarrow> u128" where
  "mangled tm ip port =
     (let tm = ucast tm; ip = ucast ip; port = ucast port
      in push_bit 49 (ip + tm) OR push_bit 17 tm OR (port + (tm AND 0xFFFF)))"

definition addr_encode :: "u32 \<Rightarrow> socket_addr \<Rightarrow> bytes" where
  "addr_encode tm addr =
     (case try_into_v4 addr of
        SocketV4 a b c d port \<Rightarrow>
          let bytes = u128_to_le_bytes (mangled tm (u32_from_le_bytes [a, b, c, d]) port);
              n_padding = length (takeWhile (\<lambda>i. i = 0) (rev bytes))
          in take (16 - n_padding) bytes
      | SocketV6 octets port \<Rightarrow> octets @ u16_to_le_bytes port)"

text \<open>The two subtractions wrap in a release build; a debug build would panic where they underflow.\<close>

definition addr_decode :: "bytes \<Rightarrow> socket_addr" where
  "addr_decode bs =
     (if length bs > 16 then
        (if length bs \<noteq> 18 then SocketV6 (replicate 16 0) 0
         else SocketV6 (take 16 bs) (ucast (bs ! 16) OR push_bit 8 (ucast (bs ! 17))))
      else
        let number = u128_from_le_bytes (bs @ replicate (16 - length bs) 0);
            tm = drop_bit 17 number AND 0xFFFFFFFF;
            ip = u32_to_le_bytes (ucast (drop_bit 49 number - tm));
            port = (number AND 0xFFFFFF) - (tm AND 0xFFFF)
        in SocketV4 (ip ! 0) (ip ! 1) (ip ! 2) (ip ! 3) (ucast port))"

lemma bit_from_le:
  "bit (u128_from_le_bytes bs) n \<longleftrightarrow> n < 128 \<and> n div 8 < length bs \<and> bit (bs ! (n div 8)) (n mod 8)"
proof (induction bs arbitrary: n)
  case (Cons b bs)
  show ?case
  proof (cases "n < 8")
    case True
    then show ?thesis by (simp add: bit_simps)
  next
    case False
    then have n: "n div 8 = Suc ((n - 8) div 8)" "n mod 8 = (n - 8) mod 8"
      by (simp_all add: le_div_geq le_mod_geq)
    have b: "\<not> bit b n" using False by (simp add: not_le_imp_less bit_word.rep_eq bit_imp_le_length impossible_bit)
    have "bit (u128_from_le_bytes (b # bs)) n \<longleftrightarrow> n < 128 \<and> bit (u128_from_le_bytes bs) (n - 8)"
      using False b by (auto simp: bit_or_iff bit_push_bit_iff bit_unsigned_iff)
    then show ?thesis using False Cons [of "n - 8"] by (auto simp: n)
  qed
qed simp

lemma length_to_le [simp]: "length (u128_to_le_bytes w) = 16"
  by (simp add: u128_to_le_bytes_def)

lemma u128_le_roundtrip: "u128_from_le_bytes (u128_to_le_bytes w) = w"
proof (rule bit_eqI)
  fix n assume "possible_bit TYPE(u128) n"
  then have n: "n < 128" by simp
  then have "n div 8 < 16" by simp
  then show "bit (u128_from_le_bytes (u128_to_le_bytes w)) n = bit w n"
    using n by (simp add: bit_from_le u128_to_le_bytes_def bit_simps)
qed

text \<open>The zero bytes cut off the end are the ones decoding puts back.\<close>

lemma strip_padding:
  assumes "k = length (takeWhile (\<lambda>i. i = (0 :: u8)) (rev bs))"
  shows "take (length bs - k) bs @ replicate k 0 = bs"
proof -
  have "takeWhile (\<lambda>i. i = 0) (rev bs) = replicate k (0 :: u8)"
    unfolding assms by (rule replicate_length_same [symmetric]) (auto dest: set_takeWhileD)
  then have "rev bs = replicate k 0 @ dropWhile (\<lambda>i. i = 0) (rev bs)"
    using takeWhile_dropWhile_id [of "\<lambda>i. i = 0" "rev bs"] by simp
  then have "rev (rev bs) = rev (dropWhile (\<lambda>i. i = 0) (rev bs)) @ replicate k 0"
    by (metis rev_append rev_replicate)
  then obtain r where r: "bs = r @ replicate k 0" by simp
  then show ?thesis by simp
qed

lemma high_bits: "unat (w :: 'a :: len word) < 2 ^ k \<Longrightarrow> k \<le> n \<Longrightarrow> \<not> bit w n"
  using bit_nat_bound [of "unat w" k n] by (simp add: bit_unsigned_iff)

lemma unat_ucast_u32: "unat (ucast (w :: u32) :: u128) = unat w"
proof -
  have "unat w < 2 ^ 128" by (rule less_le_trans [OF unsigned_less]) simp
  then show ?thesis by (simp add: unsigned_ucast_eq take_bit_nat_eq_self)
qed

lemma unat_ucast_u16: "unat (ucast (w :: u16) :: u128) = unat w"
proof -
  have "unat w < 2 ^ 128" by (rule less_le_trans [OF unsigned_less]) simp
  then show ?thesis by (simp add: unsigned_ucast_eq take_bit_nat_eq_self)
qed

lemma unat_add_small: "unat (x :: u128) + unat y < 2 ^ 128 \<Longrightarrow> unat (x + y) = unat x + unat y"
  by (simp add: unat_word_ariths(1))

text \<open>The parts of the mangled number do not overlap: each is read back by its shift.\<close>

lemma mangled_sum_bound: "unat (ucast (ip :: u32) + ucast (tm :: u32) :: u128) < 2 ^ 33"
proof -
  have "unat ip < 2 ^ 32" "unat tm < 2 ^ 32" using unsigned_less [of ip] unsigned_less [of tm] by simp_all
  then show ?thesis by (subst unat_add_small) (simp_all add: unat_ucast_u32)
qed

lemma mangled_low_bound: "unat (ucast (port :: u16) + (ucast (tm :: u32) AND 0xFFFF) :: u128) < 2 ^ 17"
proof -
  have "(ucast tm AND 0xFFFF :: u128) \<le> 0xFFFF" by (rule word_and_le1)
  then have "unat (ucast tm AND 0xFFFF :: u128) \<le> 0xFFFF" by (simp add: word_le_nat_alt)
  moreover have "unat port < 2 ^ 16" using unsigned_less [of port] by simp
  ultimately show ?thesis by (subst unat_add_small) (simp_all add: unat_ucast_u16)
qed

lemma mangled_tm: "drop_bit 17 (mangled tm ip port) AND 0xFFFFFFFF = ucast tm"
proof (rule bit_eqI)
  fix n
  have m: "(0xFFFFFFFF :: u128) = mask 32" by (simp add: mask_eq_exp_minus_1)
  have "unat tm < 2 ^ 32" using unsigned_less [of tm] by simp
  then have t: "32 \<le> n \<Longrightarrow> \<not> bit (ucast tm :: u128) n" by (simp add: high_bits [where k = 32] unat_ucast_u32)
  have l: "\<not> bit (ucast port + (ucast tm AND 0xFFFF) :: u128) (17 + n)"
    by (rule high_bits [OF mangled_low_bound]) simp
  show "bit (drop_bit 17 (mangled tm ip port) AND 0xFFFFFFFF) n = bit (ucast tm :: u128) n"
    using t l by (cases "n < 32") (auto simp: m mangled_def Let_def bit_and_iff bit_or_iff bit_drop_bit_eq bit_push_bit_iff bit_mask_iff)
qed

lemma mangled_ip: "drop_bit 49 (mangled tm ip port) = ucast ip + ucast tm"
proof (rule bit_eqI)
  fix n
  have "unat tm < 2 ^ 32" using unsigned_less [of tm] by simp
  then have t: "\<not> bit (ucast tm :: u128) (32 + n)" by (simp add: high_bits [where k = 32] unat_ucast_u32)
  have l: "\<not> bit (ucast port + (ucast tm AND 0xFFFF) :: u128) (49 + n)"
    by (rule high_bits [OF mangled_low_bound]) simp
  have s: "33 \<le> n \<Longrightarrow> \<not> bit (ucast ip + ucast tm :: u128) n" by (rule high_bits [OF mangled_sum_bound])
  show "bit (drop_bit 49 (mangled tm ip port)) n = bit (ucast ip + ucast tm :: u128) n"
    using t l s by (cases "n < 33") (auto simp: mangled_def Let_def bit_or_iff bit_drop_bit_eq bit_push_bit_iff)
qed

lemma take_bit_diff_wide: "l \<le> w \<Longrightarrow> take_bit l (take_bit w x - take_bit w y) = take_bit l (x - y :: int)"
  using take_bit_diff [of l "take_bit w x" "take_bit w y"] take_bit_diff [of l x y] by (simp add: min_absorb1)

lemma take_bit_add_wide: "l \<le> w \<Longrightarrow> take_bit l (take_bit w x + take_bit w y) = take_bit l (x + y :: int)"
  using take_bit_add [of l "take_bit w x" "take_bit w y"] take_bit_add [of l x y] by (simp add: min_absorb1)

lemma ucast_diff: "LENGTH('a :: len) \<le> 128 \<Longrightarrow> ucast ((x :: u128) - y) = (ucast x - ucast y :: 'a word)"
  by transfer (simp add: take_bit_diff_wide min_absorb1)

lemma ucast_sum: "LENGTH('a :: len) \<le> 128 \<Longrightarrow> ucast ((x :: u128) + y) = (ucast x + ucast y :: 'a word)"
  by transfer (simp add: take_bit_add_wide min_absorb1)

lemma mangled_port:
  "ucast (mangled tm ip port AND 0xFFFFFF) = (port + ucast (ucast tm AND 0xFFFF :: u128) :: u16)"
proof -
  have m: "(0xFFFFFF :: u128) = mask 24" by (simp add: mask_eq_exp_minus_1)
  have "(ucast (mangled tm ip port AND 0xFFFFFF) :: u16) = ucast (ucast port + (ucast tm AND 0xFFFF) :: u128)"
  proof (rule bit_eqI)
    fix n assume "possible_bit TYPE(u16) n"
    then have "n < 16" by simp
    then show "bit (ucast (mangled tm ip port AND 0xFFFFFF) :: u16) n = bit (ucast (ucast port + (ucast tm AND 0xFFFF) :: u128) :: u16) n"
      by (simp add: m mangled_def Let_def bit_unsigned_iff bit_and_iff bit_or_iff bit_push_bit_iff bit_mask_iff)
  qed
  also have "\<dots> = port + ucast (ucast tm AND 0xFFFF :: u128)"
    by (simp add: ucast_sum) (simp add: bit_eq_iff bit_simps)
  finally show ?thesis .
qed

lemma no_high_bit_u8: "\<not> bit (b :: u8) (8 + n)" "\<not> bit b (16 + n)" "\<not> bit b (24 + n)"
  by (simp_all add: impossible_bit)

lemma u32_octets: "u32_to_le_bytes (u32_from_le_bytes [a, b, c, d]) = [a, b, c, d]"
  by (auto simp: u32_to_le_bytes_def bit_eq_iff bit_simps no_high_bit_u8)

lemma decode_v4: "addr_decode (addr_encode tm (SocketV4 a b c d port)) = SocketV4 a b c d port"
proof -
  let ?v = "mangled tm (u32_from_le_bytes [a, b, c, d]) port"
  let ?bs = "u128_to_le_bytes ?v"
  let ?k = "length (takeWhile (\<lambda>i. i = 0) (rev ?bs))"
  let ?e = "addr_encode tm (SocketV4 a b c d port)"
  have k: "?k \<le> 16" using length_takeWhile_le [of "\<lambda>i. i = 0" "rev ?bs"] by simp
  have e: "?e = take (16 - ?k) ?bs" by (simp add: addr_encode_def try_into_v4_def Let_def)
  then have len: "length ?e = 16 - ?k" by simp
  have "?e @ replicate (16 - length ?e) 0 = ?bs"
    using strip_padding [OF refl, of ?bs] k unfolding len by (simp add: e)
  then have "u128_from_le_bytes (?e @ replicate (16 - length ?e) 0) = ?v" by (simp only: u128_le_roundtrip)
  moreover have "\<not> length ?e > 16" using len by simp
  moreover have "(ucast (ucast (w :: u32) :: u128) :: u32) = w" for w by (simp add: bit_eq_iff bit_simps)
  ultimately show ?thesis
    by (simp add: addr_decode_def Let_def mangled_tm mangled_ip mangled_port ucast_diff ucast_sum u32_octets
        del: u32_from_le_bytes.simps)
qed

lemma addr_ok_to_ipv4: "length octets = 16 \<Longrightarrow> to_ipv4 octets = Some v4 \<Longrightarrow> length v4 = 4"
  by (auto simp: to_ipv4_def split: if_splits)

lemma u16_octets: "ucast (u16_to_le_bytes w ! 0) OR push_bit 8 (ucast (u16_to_le_bytes w ! 1)) = w"
  by (auto simp: u16_to_le_bytes_def bit_eq_iff bit_simps)

lemma decode_v6:
  "length octets = 16 \<Longrightarrow> try_into_v4 (SocketV6 octets port) = SocketV6 octets port \<Longrightarrow>
   addr_decode (addr_encode tm (SocketV6 octets port)) = SocketV6 octets port"
  using u16_octets [of port] by (simp add: addr_encode_def addr_decode_def nth_append) (simp add: u16_to_le_bytes_def)

lemma try_into_v4_idem: "try_into_v4 (try_into_v4 a) = try_into_v4 a"
  by (auto simp: try_into_v4_def split: socket_addr.splits option.splits)

lemma encode_v4_only: "addr_encode tm a = addr_encode tm (try_into_v4 a)"
  by (simp add: addr_encode_def try_into_v4_idem)


lemma replicate_10: "replicate 10 x = [x, x, x, x, x, x, x, x, x, x]"
  by (simp add: numeral_nat)


subsection \<open>Encryption of a stream\<close>

text \<open>
  The operations of sodiumoxide and the serialisation of \<^verbatim>\<open>IdPk\<close> that the code calls, as arguments of the model;
  keys, nonces and messages are byte strings.
\<close>

record cipher_suite =
  cr_seal :: "bytes \<Rightarrow> bytes \<Rightarrow> bytes \<Rightarrow> bytes"
  cr_open :: "bytes \<Rightarrow> bytes \<Rightarrow> bytes \<Rightarrow> bytes option"
  cr_box_seal :: "bytes \<Rightarrow> bytes \<Rightarrow> bytes \<Rightarrow> bytes \<Rightarrow> bytes"
  cr_box_open :: "bytes \<Rightarrow> bytes \<Rightarrow> bytes \<Rightarrow> bytes \<Rightarrow> bytes option"
  cr_sign :: "bytes \<Rightarrow> bytes \<Rightarrow> bytes"
  cr_verify :: "bytes \<Rightarrow> bytes \<Rightarrow> bytes option"
  cr_write_idpk :: "string \<Rightarrow> bytes \<Rightarrow> bytes"
  cr_parse_idpk :: "bytes \<Rightarrow> (string \<times> bytes) option"
  cr_decode64 :: "string \<Rightarrow> bytes option"

definition SECRETBOX_KEYBYTES :: nat where "SECRETBOX_KEYBYTES = 32"
definition SECRETBOX_NONCEBYTES :: nat where "SECRETBOX_NONCEBYTES = 24"
definition PUBLICKEYBYTES :: nat where "PUBLICKEYBYTES = 32"

record stream_key =
  en_key :: bytes
  en_sent :: u64
  en_rcvd :: u64

definition encrypt_new :: "bytes \<Rightarrow> stream_key" where
  "encrypt_new key = \<lparr>en_key = key, en_sent = 0, en_rcvd = 0\<rparr>"

definition u64_to_le_bytes :: "u64 \<Rightarrow> bytes" where
  "u64_to_le_bytes w = map (\<lambda>i. ucast (drop_bit (8 * i) w)) [0..<8]"

definition get_nonce :: "u64 \<Rightarrow> bytes" where
  "get_nonce seqnum = u64_to_le_bytes seqnum @ replicate (SECRETBOX_NONCEBYTES - 8) 0"

definition enc :: "cipher_suite \<Rightarrow> stream_key \<Rightarrow> bytes \<Rightarrow> bytes \<times> stream_key" where
  "enc cr e dat =
     (let e = e\<lparr>en_sent := en_sent e + 1\<rparr>
      in (cr_seal cr dat (get_nonce (en_sent e)) (en_key e), e))"

definition dec :: "cipher_suite \<Rightarrow> stream_key \<Rightarrow> bytes \<Rightarrow> (io_error + bytes) \<times> stream_key" where
  "dec cr e bs =
     (if length bs \<le> 1 then (Inr bs, e)
      else
        let e = e\<lparr>en_rcvd := en_rcvd e + 1\<rparr>
        in case cr_open cr bs (get_nonce (en_rcvd e)) (en_key e) of
             Some res \<Rightarrow> (Inr res, e)
           | None \<Rightarrow> (Inl (OtherIo ''decryption error''), e))"

datatype handshake_error =
    PkLength
  | BoxDecryption
  | SecretKeyLength
  | SignKeyLength
  | MessageFormat
  | NoPublicKey
  | ResetByPeer
  | ElapsedTime
  | StreamError io_error
  | KeyExchangeMessage
  | SignatureMismatch
  | TheirPkLength
  | InvalidRsPk

definition key_decode :: "cipher_suite \<Rightarrow> bytes \<Rightarrow> bytes \<Rightarrow> bytes \<Rightarrow> handshake_error + bytes" where
  "key_decode cr symmetric_data their_pk_b our_sk_b =
     (if length their_pk_b \<noteq> PUBLICKEYBYTES then Inl PkLength
      else case cr_box_open cr symmetric_data (replicate SECRETBOX_NONCEBYTES 0) their_pk_b our_sk_b of
             None \<Rightarrow> Inl BoxDecryption
           | Some symmetric_key \<Rightarrow>
               if length symmetric_key \<noteq> SECRETBOX_KEYBYTES then Inl SecretKeyLength else Inr symmetric_key)"

subsection \<open>Framed streams\<close>

text \<open>\<open>fs_codec\<close> is the codec of the framing layer; the bytes are written and read by tokio.\<close>

record framed_stream =
  fs_codec :: bytes_codec
  fs_key :: "stream_key option"
  fs_timeout :: u64

definition framed_new :: framed_stream where
  "framed_new = \<lparr>fs_codec = codec_new, fs_key = None, fs_timeout = 0\<rparr>"

definition set_send_timeout :: "u64 \<Rightarrow> framed_stream \<Rightarrow> framed_stream" where
  "set_send_timeout ms s = s\<lparr>fs_timeout := ms\<rparr>"

definition fs_set_raw :: "framed_stream \<Rightarrow> framed_stream" where
  "fs_set_raw s = s\<lparr>fs_codec := set_raw (fs_codec s), fs_key := None\<rparr>"

definition is_secured :: "framed_stream \<Rightarrow> bool" where
  "is_secured s \<longleftrightarrow> fs_key s \<noteq> None"

definition set_key :: "bytes \<Rightarrow> framed_stream \<Rightarrow> framed_stream" where
  "set_key key s = s\<lparr>fs_key := Some (encrypt_new key)\<rparr>"

text \<open>What a send comes to: the bytes written behind \<open>out\<close>, or an error; \<open>late\<close> says that the timer ran out.\<close>

definition send_bytes :: "bool \<Rightarrow> framed_stream \<Rightarrow> bytes \<Rightarrow> bytes \<Rightarrow> handshake_error + bytes" where
  "send_bytes late s bs out =
     (if fs_timeout s > 0 \<and> late then Inl ElapsedTime
      else case encode (fs_codec s) bs out of Inl e \<Rightarrow> Inl (StreamError e) | Inr out' \<Rightarrow> Inr out')"

definition send_raw ::
  "cipher_suite \<Rightarrow> bool \<Rightarrow> framed_stream \<Rightarrow> bytes \<Rightarrow> bytes \<Rightarrow> (handshake_error + bytes) \<times> framed_stream" where
  "send_raw cr late s msg out =
     (let (msg, s) =
        (case fs_key s of
           Some key \<Rightarrow> (let (msg, key) = enc cr key msg in (msg, s\<lparr>fs_key := Some key\<rparr>))
         | None \<Rightarrow> (msg, s))
      in (send_bytes late s msg out, s))"

text \<open>\<open>res\<close> is what the framing layer returns: nothing at the end of the stream, an error or a frame.\<close>

definition fs_next ::
  "cipher_suite \<Rightarrow> framed_stream \<Rightarrow> (io_error + bytes) option \<Rightarrow> (io_error + bytes) option \<times> framed_stream" where
  "fs_next cr s res =
     (case res of
        Some (Inr bs) \<Rightarrow>
          (case fs_key s of
             Some key \<Rightarrow> (let (r, key) = dec cr key bs in (Some r, s\<lparr>fs_key := Some key\<rparr>))
           | None \<Rightarrow> (res, s))
      | _ \<Rightarrow> (res, s))"

definition next_timeout ::
  "cipher_suite \<Rightarrow> bool \<Rightarrow> framed_stream \<Rightarrow> (io_error + bytes) option \<Rightarrow> (io_error + bytes) option \<times> framed_stream" where
  "next_timeout cr late s res = (if late then (None, s) else fs_next cr s res)"

text \<open>A series of sends, and a reader that stops at the first error as the connection loops do.\<close>

primrec send_all :: "cipher_suite \<Rightarrow> framed_stream \<Rightarrow> bytes list \<Rightarrow> bytes \<Rightarrow> (handshake_error + bytes) \<times> framed_stream" where
  "send_all cr s [] out = (Inr out, s)"
| "send_all cr s (m # ms) out =
     (case send_raw cr False s m out of
        (Inr out', s') \<Rightarrow> send_all cr s' ms out'
      | (Inl e, s') \<Rightarrow> (Inl e, s'))"

primrec receive :: "cipher_suite \<Rightarrow> framed_stream \<Rightarrow> bytes list \<Rightarrow> (bytes \<times> bytes) list \<times> io_error option" where
  "receive cr s [] = ([], None)"
| "receive cr s (f # fs) =
     (case fs_next cr s (Some (Inr f)) of
        (Some (Inr m), s') \<Rightarrow> (let (got, e) = receive cr s' fs in ((f, m) # got, e))
      | (Some (Inl e), s') \<Rightarrow> ([], Some e)
      | (None, s') \<Rightarrow> ([], None))"

text \<open>The authenticated part of what a reader has got, and the messages that were sealed under a nonce.\<close>

definition authenticated :: "(bytes \<times> bytes) list \<Rightarrow> bytes list" where
  "authenticated got = map snd (filter (\<lambda>(f, m). length f > 1) got)"

definition sealed :: "bytes list \<Rightarrow> bytes \<Rightarrow> bytes \<Rightarrow> bool" where
  "sealed ms n m \<longleftrightarrow> (\<exists>i < length ms. n = get_nonce (of_nat (Suc i)) \<and> m = ms ! i)"

definition stands_at :: "nat \<Rightarrow> bytes list \<Rightarrow> bytes \<Rightarrow> bool" where
  "stands_at j ms m \<longleftrightarrow> j < length ms \<and> ms ! j = m"

lemma bit_u64_bytes: "n < 64 \<Longrightarrow> bit (u64_to_le_bytes w ! (n div 8)) (n mod 8) = bit w n"
proof -
  assume "n < 64"
  moreover from this have "n div 8 < 8" by simp
  ultimately show ?thesis by (simp add: u64_to_le_bytes_def bit_simps)
qed

lemma get_nonce_inj: "get_nonce a = get_nonce b \<Longrightarrow> a = b"
proof (rule bit_eqI)
  fix n assume eq: "get_nonce a = get_nonce b" and "possible_bit TYPE(u64) n"
  then have "n < 64" by simp
  moreover have "u64_to_le_bytes a = u64_to_le_bytes b" using eq by (simp add: get_nonce_def u64_to_le_bytes_def)
  ultimately show "bit a n = bit b n" using bit_u64_bytes by metis
qed

lemma unat_of_nat_u64: "n < 2 ^ 64 \<Longrightarrow> unat (of_nat n :: u64) = n"
  by (simp add: unat_of_nat take_bit_nat_eq_self)

lemma nonce_index: "get_nonce (of_nat i) = get_nonce (of_nat j) \<Longrightarrow> i < 2 ^ 64 \<Longrightarrow> j < 2 ^ 64 \<Longrightarrow> i = j"
  by (drule get_nonce_inj) (metis unat_of_nat_u64)

lemma sealed_at:
  "sealed ms (get_nonce (of_nat (Suc j))) m \<Longrightarrow> length ms < 2 ^ 64 \<Longrightarrow> Suc j < 2 ^ 64 \<Longrightarrow> stands_at j ms m"
  by (auto simp: sealed_def stands_at_def simp del: of_nat_Suc dest!: nonce_index)

lemma tiny_frame_unauthenticated: "length f \<le> 1 \<Longrightarrow> fs_next cr s (Some (Inr f)) = (Some (Inr f), s)"
  by (cases s) (auto simp: fs_next_def dec_def split: option.splits)

text \<open>Only frames longer than one byte count, and each is opened under the next nonce.\<close>

lemma receive_counts:
  assumes "fs_key s = Some e" and "en_key e = k" and "en_rcvd e = of_nat c"
    and "receive cr s frames = (got, err)" and "j < length (authenticated got)"
  shows "\<exists>f \<in> set frames. cr_open cr f (get_nonce (of_nat (Suc (c + j)))) k = Some (authenticated got ! j) \<and> j < length frames"
  using assms
proof (induction frames arbitrary: s e c got j)
  case Nil
  then show ?case by (simp add: authenticated_def)
next
  case (Cons f fs)
  show ?case
  proof (cases "length f \<le> 1")
    case True
    then obtain got' where "receive cr s fs = (got', err)" "got = (f, f) # got'"
      using Cons.prems(4) by (auto simp: tiny_frame_unauthenticated split: prod.splits)
    then show ?thesis using True Cons.prems(5) Cons.IH [OF Cons.prems(1,2,3)] by (force simp: authenticated_def)
  next
    case False
    let ?n = "get_nonce (of_nat (Suc c))"
    have n: "get_nonce (en_rcvd e + 1) = ?n" using Cons.prems(3) by (simp add: add.commute)
    show ?thesis
    proof (cases "cr_open cr f ?n k")
      case None
      then have "got = []" using Cons.prems False n by (auto simp: fs_next_def dec_def Let_def)
      then show ?thesis using Cons.prems by (simp add: authenticated_def)
    next
      case (Some m)
      let ?e = "e\<lparr>en_rcvd := en_rcvd e + 1\<rparr>"
      let ?s = "s\<lparr>fs_key := Some ?e\<rparr>"
      obtain got' where g: "receive cr ?s fs = (got', err)" "got = (f, m) # got'"
        using Cons.prems False n Some by (auto simp: fs_next_def dec_def Let_def split: prod.splits)
      then have a: "authenticated got = m # authenticated got'" using False by (simp add: authenticated_def)
      show ?thesis
      proof (cases j)
        case 0
        then show ?thesis using a Some by auto
      next
        case (Suc i)
        have "en_rcvd ?e = of_nat (Suc c)" using Cons.prems(3) by (simp add: add.commute)
        then show ?thesis
          using Cons.IH [of ?s ?e "Suc c" got' i] Cons.prems(2,5) g(1) a Suc by auto
      qed
    qed
  qed
qed

subsection \<open>What the encryption gives\<close>


text \<open>A cipher for the witnesses: the nonce is written in front of the message, and checked.\<close>

definition demo_suite :: cipher_suite where
  "demo_suite =
     \<lparr>cr_seal = (\<lambda>m n k. n @ m),
      cr_open = (\<lambda>c n k. if length c \<ge> 24 \<and> take 24 c = n then Some (drop 24 c) else None),
      cr_box_seal = (\<lambda>m n pk sk. m), cr_box_open = (\<lambda>c n pk sk. Some c),
      cr_sign = (\<lambda>m sk. m), cr_verify = (\<lambda>s pk. Some s),
      cr_write_idpk = (\<lambda>id pk. pk @ map (\<lambda>c. of_nat (of_char c)) id),
      cr_parse_idpk = (\<lambda>bs. Some (map (\<lambda>b. char_of (unat b)) (drop 32 bs), take 32 bs)), cr_decode64 = (\<lambda>s. Some (replicate 32 0))\<rparr>"

lemma length_get_nonce [simp]: "length (get_nonce n) = 24"
  by (simp add: get_nonce_def u64_to_le_bytes_def SECRETBOX_NONCEBYTES_def)

definition demo_secured :: framed_stream where
  "demo_secured = set_key (replicate 32 7) framed_new"

definition demo_frames :: "bytes list" where
  "demo_frames = [[9], get_nonce 1 @ [5, 6], [1, 2, 3]]"

lemma demo_unforgeable:
  assumes "f \<in> set demo_frames" and "cr_open demo_suite f n k = Some m"
  shows "sealed [[5, 6], [8]] n m \<or> sealed [[7]] n m"
proof -
  have "n = get_nonce 1 \<and> m = [5, 6]" using assms by (auto simp: demo_frames_def demo_suite_def split: if_splits)
  then have "sealed [[5, 6], [8]] n m" unfolding sealed_def by (intro exI [of _ 0]) simp
  then show ?thesis ..
qed

lemma demo_receive:
  "receive demo_suite demo_secured demo_frames =
   ([([9], [9]), (get_nonce 1 @ [5, 6], [5, 6])], Some (OtherIo ''decryption error''))"
  by (simp add: demo_frames_def demo_secured_def set_key_def encrypt_new_def fs_next_def dec_def demo_suite_def)


text \<open>
  The two weaknesses the statement leaves open are real: the first message an end sends is accepted when it is sent
  back to it, and a frame of at most one byte is accepted from anyone (\<open>tiny_frame_unauthenticated\<close>).
\<close>

lemma reflection_accepted:
  assumes "cr_open cr (cr_seal cr m (get_nonce 1) k) (get_nonce 1) k = Some m"
    and "length (cr_seal cr m (get_nonce 1) k) > 1"
  shows "fst (dec cr (snd (enc cr (encrypt_new k) m)) (fst (enc cr (encrypt_new k) m))) = Inr m"
  using assms by (simp add: enc_def dec_def encrypt_new_def Let_def)

subsection \<open>An honest peer is understood\<close>

primrec seals :: "cipher_suite \<Rightarrow> bytes \<Rightarrow> u64 \<Rightarrow> bytes list \<Rightarrow> bytes list" where
  "seals cr k n [] = []"
| "seals cr k n (m # ms) = cr_seal cr m (get_nonce (n + 1)) k # seals cr k (n + 1) ms"

text \<open>What the code relies on of \<^verbatim>\<open>secretbox\<close>: it opens what it sealed, and a seal is sixteen bytes longer.\<close>

definition secretbox_ok :: "cipher_suite \<Rightarrow> bool" where
  "secretbox_ok cr \<longleftrightarrow> (\<forall>m n k. cr_open cr (cr_seal cr m n k) n k = Some m) \<and>
     (\<forall>m n k. length (cr_seal cr m n k) = length m + 16)"

lemma send_all_seals:
  assumes "fs_key s = Some e"
    and "send_all cr s ms out = (Inr stream, s')"
  shows "encode_all (fs_codec s) (seals cr (en_key e) (en_sent e) ms) out = Inr stream"
  using assms
proof (induction ms arbitrary: s e out)
  case (Cons m ms)
  let ?e = "e\<lparr>en_sent := en_sent e + 1\<rparr>"
  obtain out' where "encode (fs_codec s) (cr_seal cr m (get_nonce (en_sent e + 1)) (en_key e)) out = Inr out'"
    and "send_all cr (s\<lparr>fs_key := Some ?e\<rparr>) ms out' = (Inr stream, s')"
    using Cons.prems by (auto simp: send_raw_def enc_def Let_def send_bytes_def split: sum.splits)
  then show ?case using Cons.IH [of "s\<lparr>fs_key := Some ?e\<rparr>" ?e out'] by simp
qed simp

lemma receive_seals:
  assumes "secretbox_ok cr" and "fs_key s = Some e"
  shows "receive cr s (take i (seals cr (en_key e) (en_rcvd e) ms)) =
         (zip (take i (seals cr (en_key e) (en_rcvd e) ms)) (take i ms), None)"
  using assms(2)
proof (induction ms arbitrary: s e i)
  case (Cons m ms)
  let ?e = "e\<lparr>en_rcvd := en_rcvd e + 1\<rparr>"
  have "fs_next cr s (Some (Inr (cr_seal cr m (get_nonce (en_rcvd e + 1)) (en_key e)))) = (Some (Inr m), s\<lparr>fs_key := Some ?e\<rparr>)"
    using assms(1) Cons.prems by (simp add: fs_next_def dec_def secretbox_ok_def)
  then show ?case using Cons.IH [of "s\<lparr>fs_key := Some ?e\<rparr>" ?e "i - 1"] by (cases i) simp_all
qed simp

lemma length_seals [simp]: "length (seals cr k n ms) = length ms"
  by (induction ms arbitrary: n) simp_all

lemma seals_accepted:
  "secretbox_ok cr \<Longrightarrow> list_all (\<lambda>m. length m + 16 \<le> maxlen) ms \<Longrightarrow> maxlen \<le> 0x3FFFFFFF \<Longrightarrow>
   list_all (codec_accepts maxlen) (seals cr k n ms)"
  by (induction ms arbitrary: n) (auto simp: secretbox_ok_def codec_accepts_def)

end
