(* ===== verification/Handshake.thy ===== *)
theory Handshake
  imports Transport
begin

text \<open>
  How a connection gets its key: the controlling side (\<^verbatim>\<open>Client::secure_connection\<close> of \<^verbatim>\<open>client.rs\<close>), the controlled
  side (the head of \<^verbatim>\<open>create_tcp_connection\<close> in \<^verbatim>\<open>server.rs\<close>) and the connection to the rendezvous server
  (\<^verbatim>\<open>secure_tcp_impl\<close> of \<^verbatim>\<open>common.rs\<close>), with the helpers of \<^verbatim>\<open>common.rs\<close>. The outcome of the one receive and the one
  send of each side, the generated keys and the operations of sodiumoxide are arguments.
\<close>

datatype hs_msg =
    SignedId bytes
  | PublicKey bytes bytes
  | NoUnion
  | OtherUnion

datatype rdv_msg = KeyExchange "bytes list" | OtherRdv

text \<open>\<open>Parsed None\<close> is a frame that is no message.\<close>

datatype 'm incoming = TimedOut | Ended | Failed io_error | Parsed "'m option"

record 'm hs_env =
  he_incoming :: "'m incoming"
  he_send :: "handshake_error option"
  he_box_pk :: bytes
  he_box_sk :: bytes
  he_secret :: bytes

definition RS_PUB_KEY :: string where
  "RS_PUB_KEY = ''OeVuKk5nlHiXp+APNn0Y3pC1Iwpwn44JGqrQCsWqmBw=''"

definition SECRETKEYBYTES :: nat where "SECRETKEYBYTES = 64"

subsection \<open>Helpers of common.rs\<close>

definition get_pk :: "bytes \<Rightarrow> bytes option" where
  "get_pk pk = (if length pk = 32 then Some pk else None)"

definition get_rs_pk :: "cipher_suite \<Rightarrow> string \<Rightarrow> bytes option" where
  "get_rs_pk cr str_base64 = (case cr_decode64 cr str_base64 of Some pk \<Rightarrow> get_pk pk | None \<Rightarrow> None)"

definition decode_id_pk :: "cipher_suite \<Rightarrow> bytes \<Rightarrow> bytes \<Rightarrow> handshake_error + string \<times> bytes" where
  "decode_id_pk cr sm key =
     (case cr_verify cr sm key of
        None \<Rightarrow> Inl SignatureMismatch
      | Some m \<Rightarrow>
          (case cr_parse_idpk cr m of
             None \<Rightarrow> Inl MessageFormat
           | Some (ident, pk) \<Rightarrow>
               (case get_pk pk of
                  Some pk \<Rightarrow> Inr (ident, pk)
                | None \<Rightarrow> Inl TheirPkLength)))"

text \<open>The public key to send, the sealed secret and the secret.\<close>

definition create_symmetric_key_msg :: "cipher_suite \<Rightarrow> 'm hs_env \<Rightarrow> bytes \<Rightarrow> bytes \<times> bytes \<times> bytes" where
  "create_symmetric_key_msg cr env their_pk_b =
     (let key = he_secret env;
          nonce = replicate SECRETBOX_NONCEBYTES 0;
          sealed_key = cr_box_seal cr key nonce their_pk_b (he_box_sk env)
      in (he_box_pk env, sealed_key, key))"

subsection \<open>The controlling side\<close>

definition answer ::
  "'m hs_env \<Rightarrow> 'n \<Rightarrow> 'a \<Rightarrow> framed_stream \<Rightarrow> (handshake_error + 'a) \<times> 'n list \<times> framed_stream" where
  "answer env msg r s = (case he_send env of Some e \<Rightarrow> (Inl e, [], s) | None \<Rightarrow> (Inr r, [msg], s))"

definition peer_sign_pk :: "cipher_suite \<Rightarrow> string \<Rightarrow> bytes \<Rightarrow> string \<Rightarrow> bytes option" where
  "peer_sign_pk cr peer_id signed_id_pk key =
     (if signed_id_pk \<noteq> [] then
        (case get_rs_pk cr (if key = [] then RS_PUB_KEY else key) of
           Some rs_pk \<Rightarrow>
             (case decode_id_pk cr signed_id_pk rs_pk of
                Inr (ident, pk) \<Rightarrow> (if ident = peer_id then Some pk else None)
              | Inl _ \<Rightarrow> None)
         | None \<Rightarrow> None)
      else None)"

definition secure_connection ::
  "cipher_suite \<Rightarrow> hs_msg hs_env \<Rightarrow> string \<Rightarrow> bytes \<Rightarrow> string \<Rightarrow> framed_stream
    \<Rightarrow> (handshake_error + bytes option) \<times> hs_msg list \<times> framed_stream" where
  "secure_connection cr env peer_id signed_id_pk key conn =
     (case peer_sign_pk cr peer_id signed_id_pk key of
        None \<Rightarrow> answer env NoUnion None conn
      | Some sign_pk \<Rightarrow>
          (case he_incoming env of
             TimedOut \<Rightarrow> (Inl ElapsedTime, [], conn)
           | Ended \<Rightarrow> (Inl ResetByPeer, [], conn)
           | Failed e \<Rightarrow> (Inl (StreamError e), [], conn)
           | Parsed (Some (SignedId si)) \<Rightarrow>
               (case decode_id_pk cr si sign_pk of
                  Inr (ident, their_pk_b) \<Rightarrow>
                    if ident = peer_id then
                      (let (asymmetric_value, symmetric_value, key) = create_symmetric_key_msg cr env their_pk_b
                       in case answer env (PublicKey asymmetric_value symmetric_value) (Some sign_pk) conn of
                            (Inr r, sent, conn) \<Rightarrow> (Inr r, sent, set_key key conn)
                          | failed \<Rightarrow> failed)
                    else answer env NoUnion (Some sign_pk) conn
                | Inl _ \<Rightarrow> answer env (PublicKey [] []) (Some sign_pk) conn)
           | Parsed _ \<Rightarrow> answer env NoUnion (Some sign_pk) conn))"

subsection \<open>The controlled side\<close>

text \<open>The result also says whether the rendezvous server is to be told the public key again.\<close>

definition server_offer :: "cipher_suite \<Rightarrow> 'm hs_env \<Rightarrow> string \<Rightarrow> bytes \<Rightarrow> hs_msg" where
  "server_offer cr env ident sk = SignedId (cr_sign cr (cr_write_idpk cr ident (he_box_pk env)) sk)"

definition create_tcp_connection ::
  "cipher_suite \<Rightarrow> hs_msg hs_env \<Rightarrow> bool \<Rightarrow> string \<Rightarrow> bytes \<Rightarrow> bytes \<Rightarrow> framed_stream
    \<Rightarrow> (handshake_error + bool) \<times> hs_msg list \<times> framed_stream" where
  "create_tcp_connection cr env secure ident sk pk stream =
     (if secure \<and> length pk = PUBLICKEYBYTES \<and> length sk = SECRETKEYBYTES then
        (case he_send env of
           Some e \<Rightarrow> (Inl e, [], stream)
         | None \<Rightarrow>
             let sent = [server_offer cr env ident sk]
             in case he_incoming env of
                  TimedOut \<Rightarrow> (Inl ElapsedTime, sent, stream)
                | Ended \<Rightarrow> (Inl NoPublicKey, sent, stream)
                | Failed e \<Rightarrow> (Inl (StreamError e), sent, stream)
                | Parsed None \<Rightarrow> (Inl MessageFormat, sent, stream)
                | Parsed (Some (PublicKey asymmetric_value symmetric_value)) \<Rightarrow>
                    if length asymmetric_value = PUBLICKEYBYTES then
                      (case key_decode cr symmetric_value asymmetric_value (he_box_sk env) of
                         Inl e \<Rightarrow> (Inl e, sent, stream)
                       | Inr key \<Rightarrow> (Inr False, sent, set_key key stream))
                    else if asymmetric_value = [] then (Inr True, sent, stream)
                    else (Inl SignKeyLength, sent, stream)
                | Parsed (Some _) \<Rightarrow> (Inr False, sent, stream))
      else (Inr False, [], stream))"

subsection \<open>The connection to the rendezvous server\<close>

definition secure_tcp ::
  "cipher_suite \<Rightarrow> rdv_msg hs_env \<Rightarrow> bool \<Rightarrow> string \<Rightarrow> framed_stream
    \<Rightarrow> (handshake_error + unit) \<times> rdv_msg list \<times> framed_stream" where
  "secure_tcp cr env use_ws key conn =
     (if use_ws then (Inr (), [], conn)
      else case get_rs_pk cr key of
        None \<Rightarrow> (Inl InvalidRsPk, [], conn)
      | Some rs_pk \<Rightarrow>
          (case he_incoming env of
             TimedOut \<Rightarrow> (Inl ElapsedTime, [], conn)
           | Parsed (Some (KeyExchange keys)) \<Rightarrow>
               if length keys \<noteq> 1 then (Inl KeyExchangeMessage, [], conn)
               else (case cr_verify cr (keys ! 0) rs_pk of
                       None \<Rightarrow> (Inl SignatureMismatch, [], conn)
                     | Some their_pk_b \<Rightarrow>
                         (case get_pk their_pk_b of
                            None \<Rightarrow> (Inl TheirPkLength, [], conn)
                          | Some their_pk_b \<Rightarrow>
                              let (asymmetric_value, symmetric_value, key) = create_symmetric_key_msg cr env their_pk_b
                              in case answer env (KeyExchange [asymmetric_value, symmetric_value]) () conn of
                                   (Inr r, sent, conn) \<Rightarrow> (Inr r, sent, set_key key conn)
                                 | failed \<Rightarrow> failed))
           | _ \<Rightarrow> (Inr (), [], conn)))"

subsection \<open>The two sides against each other\<close>

text \<open>
  The controlled side's offer reaches the controlling side, whose answer reaches the controlled side. The result is
  the two streams, if neither side gave up.
\<close>

definition handshake ::
  "cipher_suite \<Rightarrow> hs_msg hs_env \<Rightarrow> hs_msg hs_env \<Rightarrow> string \<Rightarrow> bytes \<Rightarrow> string \<Rightarrow> bytes \<Rightarrow> bytes \<Rightarrow> (framed_stream \<times> framed_stream) option" where
  "handshake cr cenv senv ident signed_id_pk key sk pk =
     (case secure_connection cr (cenv\<lparr>he_incoming := Parsed (Some (server_offer cr senv ident sk))\<rparr>) ident signed_id_pk key framed_new of
        (Inr _, msg # _, client) \<Rightarrow>
          (case create_tcp_connection cr (senv\<lparr>he_incoming := Parsed (Some msg)\<rparr>) True ident sk pk framed_new of
             (Inr _, _, server) \<Rightarrow> Some (client, server)
           | _ \<Rightarrow> None)
      | _ \<Rightarrow> None)"

text \<open>What the code relies on: a signature verifies, a box opens, the serialisation of \<^verbatim>\<open>IdPk\<close> can be read back.\<close>

definition sign_pair :: "cipher_suite \<Rightarrow> bytes \<Rightarrow> bytes \<Rightarrow> bool" where
  "sign_pair cr pk sk \<longleftrightarrow> (\<forall>m. cr_verify cr (cr_sign cr m sk) pk = Some m)"

definition box_pairs :: "cipher_suite \<Rightarrow> bytes \<Rightarrow> bytes \<Rightarrow> bytes \<Rightarrow> bytes \<Rightarrow> bool" where
  "box_pairs cr pk sk pk' sk' \<longleftrightarrow> (\<forall>m n. cr_box_open cr (cr_box_seal cr m n pk sk') n pk' sk = Some m)"

definition idpk_ok :: "cipher_suite \<Rightarrow> bool" where
  "idpk_ok cr \<longleftrightarrow> (\<forall>ident pk. length pk = 32 \<longrightarrow> cr_parse_idpk cr (cr_write_idpk cr ident pk) = Some (ident, pk))"

text \<open>The keys of the parties: the rendezvous server has certified the signing key of \<open>ident\<close>.\<close>

definition parties_ok ::
  "cipher_suite \<Rightarrow> hs_msg hs_env \<Rightarrow> hs_msg hs_env \<Rightarrow> string \<Rightarrow> bytes \<Rightarrow> string \<Rightarrow> bytes \<Rightarrow> bytes \<Rightarrow> bytes \<Rightarrow> bytes \<Rightarrow> bool" where
  "parties_ok cr cenv senv ident signed_id_pk key sk pk rs_pk rs_sk \<longleftrightarrow>
     idpk_ok cr \<and> sign_pair cr rs_pk rs_sk \<and> sign_pair cr pk sk \<and>
     box_pairs cr (he_box_pk senv) (he_box_sk senv) (he_box_pk cenv) (he_box_sk cenv) \<and>
     get_rs_pk cr (if key = [] then RS_PUB_KEY else key) = Some rs_pk \<and>
     signed_id_pk = cr_sign cr (cr_write_idpk cr ident pk) rs_sk \<and> signed_id_pk \<noteq> [] \<and>
     length pk = 32 \<and> length sk = 64 \<and> length (he_box_pk senv) = 32 \<and> length (he_box_pk cenv) = 32 \<and>
     length (he_secret cenv) = 32 \<and> he_send cenv = None \<and> he_send senv = None"

lemma decode_signed:
  "idpk_ok cr \<Longrightarrow> sign_pair cr pk sk \<Longrightarrow> length their = 32 \<Longrightarrow>
   decode_id_pk cr (cr_sign cr (cr_write_idpk cr ident their) sk) pk = Inr (ident, their)"
  by (simp add: decode_id_pk_def sign_pair_def idpk_ok_def get_pk_def)

lemma handshake_same_key:
  assumes "parties_ok cr cenv senv ident signed_id_pk key sk pk rs_pk rs_sk"
  shows "handshake cr cenv senv ident signed_id_pk key sk pk =
         Some (set_key (he_secret cenv) framed_new, set_key (he_secret cenv) framed_new)"
proof -
  have "decode_id_pk cr signed_id_pk rs_pk = Inr (ident, pk)"
    using assms by (simp add: parties_ok_def decode_signed)
  then have "peer_sign_pk cr ident signed_id_pk key = Some pk"
    using assms by (auto simp: peer_sign_pk_def parties_ok_def)
  moreover have "decode_id_pk cr (cr_sign cr (cr_write_idpk cr ident (he_box_pk senv)) sk) pk = Inr (ident, he_box_pk senv)"
    using assms by (simp add: parties_ok_def decode_signed)
  ultimately show ?thesis
    using assms
    by (auto simp: handshake_def secure_connection_def server_offer_def create_symmetric_key_msg_def answer_def Let_def
        create_tcp_connection_def key_decode_def parties_ok_def box_pairs_def PUBLICKEYBYTES_def SECRETKEYBYTES_def SECRETBOX_KEYBYTES_def)
qed

text \<open>Signatures are unforgeable: what verifies under a key was signed (\<open>certified\<close>) by the key's owner.\<close>

definition signatures_bind :: "cipher_suite \<Rightarrow> (bytes \<Rightarrow> bytes \<Rightarrow> bool) \<Rightarrow> bool" where
  "signatures_bind cr certified \<longleftrightarrow> (\<forall>sm k m. cr_verify cr sm k = Some m \<longrightarrow> certified k m)"

lemma decode_certified:
  assumes "signatures_bind cr certified" and "decode_id_pk cr sm k = Inr (ident, pk)"
  shows "\<exists>m. certified k m \<and> cr_parse_idpk cr m = Some (ident, pk)"
  using assms by (fastforce simp: decode_id_pk_def get_pk_def signatures_bind_def split: option.splits if_splits)

subsection \<open>Properties\<close>

text \<open>
  C34. From handshake to session: when the rendezvous server has certified the controlled machine's key, both sides
  come out of the handshake secured; whatever the controlling side then sends, the controlled side decrypts, in
  whatever chunks the bytes arrive and whenever it polls, to a prefix of the messages sent, and it never meets a
  decryption error.
\<close>

theorem secured_session_delivers:
  assumes "parties_ok cr cenv senv ident signed_id_pk key sk pk rs_pk rs_sk" and "secretbox_ok cr"
    and "list_all (\<lambda>m. length m + 16 \<le> maxlen) ms" and "maxlen \<le> 0x3FFFFFFF"
    and "handshake cr cenv senv ident signed_id_pk key sk pk = Some (client, server)"
    and "send_all cr client ms [] = (Inr stream, client')"
    and "(rx_step decode)\<^sup>*\<^sup>* (rx_init (set_max_packet_length maxlen codec_new) stream) t"
  shows "is_secured client \<and> is_secured server \<and>
         snd (receive cr server (rx_out t)) = None \<and>
         prefix (map snd (fst (receive cr server (rx_out t)))) ms"
proof -
  let ?k = "he_secret cenv"
  let ?fs = "seals cr ?k 0 ms"
  have ends: "client = set_key ?k framed_new" "server = set_key ?k framed_new"
    using assms(5) handshake_same_key [OF assms(1)] by auto
  have acc: "list_all (codec_accepts maxlen) ?fs" using assms(2-4) by (rule seals_accepted)
  have "encode_all codec_new ?fs [] = Inr stream"
    using send_all_seals [OF _ assms(6)] ends by (simp add: set_key_def encrypt_new_def framed_new_def)
  then have "codec_stream.wire ?fs = stream"
    using acc by (intro encode_all_stream [where maxlen = maxlen]) (auto simp: codec_accepts_def list_all_iff)
  then have "prefix (rx_out t) ?fs"
    using codec_stream.stream_safe [OF codec_new_idle acc] assms(7) by blast
  then obtain i where i: "rx_out t = take i ?fs" by (metis prefix_def append_eq_conv_conj)
  have "receive cr server (rx_out t) = (zip (take i ?fs) (take i ms), None)"
    using receive_seals [OF assms(2), of server "encrypt_new ?k" i ms] ends
    by (simp add: i set_key_def encrypt_new_def)
  then show ?thesis by (simp add: ends is_secured_def set_key_def map_snd_zip take_is_prefix)
qed

text \<open>The parties of the witnesses.\<close>

definition demo_box :: cipher_suite where
  "demo_box = demo_suite\<lparr>cr_seal := (\<lambda>m n k. replicate 16 0 @ m), cr_open := (\<lambda>c n k. Some (drop 16 c))\<rparr>"

definition demo_hs_peer :: "hs_msg hs_env" where
  "demo_hs_peer = \<lparr>he_incoming = Ended, he_send = None, he_box_pk = replicate 32 3, he_box_sk = replicate 32 4, he_secret = replicate 32 7\<rparr>"

lemma char_byte: "char_of (unat (of_nat (of_char c) :: u8)) = c"
proof -
  have "(of_char c :: nat) < 256" by (rule nat_of_char_less_256)
  then show ?thesis by (simp add: unat_of_nat)
qed

lemma demo_idpk: "cr_parse_idpk demo_suite (cr_write_idpk demo_suite ident pk) = Some (ident, pk)" if "length pk = 32"
  using that by (simp add: demo_suite_def char_byte comp_def)

lemma demo_parties:
  "parties_ok demo_box demo_hs_peer demo_hs_peer ''ab'' (replicate 32 1 @ [97, 98]) [] (replicate 64 2) (replicate 32 1) (replicate 32 0) (replicate 64 9)"
proof -
  have "idpk_ok demo_box" using demo_idpk by (simp add: idpk_ok_def demo_box_def)
  then show ?thesis
    by (simp add: parties_ok_def sign_pair_def box_pairs_def demo_box_def demo_suite_def demo_hs_peer_def get_rs_pk_def get_pk_def)
qed

lemma demo_secretbox: "secretbox_ok demo_box"
  by (simp add: secretbox_ok_def demo_box_def)

definition demo_wire :: bytes where
  "demo_wire = 68 # replicate 16 0 @ [5]"

lemma demo_send: "send_all demo_box demo_secured [[5]] [] = (Inr demo_wire, snd (send_all demo_box demo_secured [[5]] []))"
  by (simp add: send_raw_def demo_secured_def set_key_def framed_new_def enc_def encrypt_new_def demo_box_def send_bytes_def
      encode_def codec_new_def frame_header_def demo_wire_def)

lemma demo_run:
  "(rx_step decode)\<^sup>*\<^sup>* (rx_init run_codec demo_wire)
     \<lparr>rx_codec = run_codec, rx_buf = [], rx_rest = [], rx_out = [replicate 16 0 @ [5]]\<rparr>"
proof (rule converse_rtranclp_into_rtranclp)
  let ?s = "\<lparr>rx_codec = run_codec, rx_buf = demo_wire, rx_rest = [], rx_out = []\<rparr>"
  show "rx_step decode (rx_init run_codec demo_wire) ?s"
    using rx_step.arrive [of "rx_init run_codec demo_wire" demo_wire "[]"] by (simp add: rx_init_def)
  show "(rx_step decode)\<^sup>*\<^sup>* ?s \<lparr>rx_codec = run_codec, rx_buf = [], rx_rest = [], rx_out = [replicate 16 0 @ [5]]\<rparr>"
    using rx_step.emit [of decode ?s]
    by (intro r_into_rtranclp)
       (simp add: demo_wire_def run_codec_def decode_def decode_head_def head_value_def decode_data_def
         set_max_packet_length_def codec_new_def)
qed

theorem secured_session_delivers_witness:
  "is_secured demo_secured \<and> is_secured demo_secured \<and>
   snd (receive demo_box demo_secured [replicate 16 0 @ [5]]) = None \<and>
   prefix (map snd (fst (receive demo_box demo_secured [replicate 16 0 @ [5]]))) [[5]]"
proof -
  have "handshake demo_box demo_hs_peer demo_hs_peer ''ab'' (replicate 32 1 @ [97, 98]) [] (replicate 64 2) (replicate 32 1) =
      Some (demo_secured, demo_secured)"
    unfolding handshake_same_key [OF demo_parties] by (simp add: demo_secured_def demo_hs_peer_def)
  from secured_session_delivers [OF demo_parties demo_secretbox _ _ this demo_send, of 100, OF _ _ demo_run [unfolded run_codec_def]]
  show ?thesis by simp
qed

text \<open>
  C35. Whom a secured connection leads to: if the controlling side comes out of the handshake secured, then the
  rendezvous server's key signed a key for the wanted id, the owner of that key signed a box key for the same id, and
  the secret it now encrypts with left it only sealed to that box key. No other message, however chosen, makes it
  use a key (\<open>certified pk m\<close> says that the owner of \<open>pk\<close> signed \<open>m\<close>; the hypothesis is that signatures are
  unforgeable).
\<close>

theorem secured_peer_authentic:
  assumes "signatures_bind cr certified"
    and "secure_connection cr env peer_id signed_id_pk key s = (r, sent, s')"
    and "\<not> is_secured s" and "is_secured s'"
  shows "\<exists>rs_pk sign_pk box_pk m m'.
           get_rs_pk cr (if key = [] then RS_PUB_KEY else key) = Some rs_pk \<and>
           certified rs_pk m \<and> cr_parse_idpk cr m = Some (peer_id, sign_pk) \<and>
           certified sign_pk m' \<and> cr_parse_idpk cr m' = Some (peer_id, box_pk) \<and>
           r = Inr (Some sign_pk) \<and>
           sent = [PublicKey (he_box_pk env) (cr_box_seal cr (he_secret env) (replicate SECRETBOX_NONCEBYTES 0) box_pk (he_box_sk env))] \<and>
           fs_key s' = Some (encrypt_new (he_secret env))"
proof -
  obtain sign_pk where p: "peer_sign_pk cr peer_id signed_id_pk key = Some sign_pk"
    using assms(2-4) by (auto simp: secure_connection_def answer_def split: option.splits)
  then obtain rs_pk where rs: "get_rs_pk cr (if key = [] then RS_PUB_KEY else key) = Some rs_pk"
      "decode_id_pk cr signed_id_pk rs_pk = Inr (peer_id, sign_pk)"
    by (auto simp: peer_sign_pk_def split: if_splits option.splits sum.splits)
  have "\<exists>si box_pk. decode_id_pk cr si sign_pk = Inr (peer_id, box_pk) \<and> r = Inr (Some sign_pk) \<and> s' = set_key (he_secret env) s \<and>
      sent = [PublicKey (he_box_pk env) (cr_box_seal cr (he_secret env) (replicate SECRETBOX_NONCEBYTES 0) box_pk (he_box_sk env))]"
    using assms(2-4) p
    by (auto simp: secure_connection_def answer_def create_symmetric_key_msg_def Let_def
        split: option.splits incoming.splits hs_msg.splits sum.splits if_splits) blast
  then obtain si box_pk where d: "decode_id_pk cr si sign_pk = Inr (peer_id, box_pk)"
    and out: "r = Inr (Some sign_pk)" "s' = set_key (he_secret env) s"
      "sent = [PublicKey (he_box_pk env) (cr_box_seal cr (he_secret env) (replicate SECRETBOX_NONCEBYTES 0) box_pk (he_box_sk env))]"
    by blast
  show ?thesis
    using decode_certified [OF assms(1) rs(2)] decode_certified [OF assms(1) d] rs(1) out by (auto simp: set_key_def)
qed

lemma demo_client:
  "secure_connection demo_suite (demo_hs_peer\<lparr>he_incoming := Parsed (Some (SignedId (replicate 32 3 @ [97, 98])))\<rparr>) ''ab''
     (replicate 32 1 @ [97, 98]) [] framed_new =
   (Inr (Some (replicate 32 1)), [PublicKey (replicate 32 3) (replicate 32 7)], demo_secured)"
  by (simp add: secure_connection_def peer_sign_pk_def get_rs_pk_def get_pk_def decode_id_pk_def demo_suite_def demo_hs_peer_def
      create_symmetric_key_msg_def answer_def demo_secured_def char_of_def bit_0 Let_def)

theorem secured_peer_authentic_witness:
  "\<exists>rs_pk sign_pk box_pk m m'.
     get_rs_pk demo_suite RS_PUB_KEY = Some rs_pk \<and>
     cr_verify demo_suite m rs_pk = Some m \<and> cr_parse_idpk demo_suite m = Some (''ab'', sign_pk) \<and>
     cr_verify demo_suite m' sign_pk = Some m' \<and> cr_parse_idpk demo_suite m' = Some (''ab'', box_pk) \<and>
     fs_key demo_secured = Some (encrypt_new (replicate 32 7))"
proof -
  have v: "signatures_bind demo_suite (\<lambda>k m. cr_verify demo_suite m k = Some m)"
    by (simp add: signatures_bind_def demo_suite_def)
  have "\<not> is_secured framed_new" "is_secured demo_secured"
    by (simp_all add: is_secured_def framed_new_def demo_secured_def set_key_def)
  from secured_peer_authentic [OF v demo_client this]
  show ?thesis by (simp add: demo_hs_peer_def) blast
qed

end
