(* ===== verification/Login_Failure.thy ===== *)
theory Login_Failure
  imports Prelude
begin

text \<open>
  Rate limiting of login attempts. Two mechanisms are modelled: the process-wide back-off of OS
  credential logins (\<^verbatim>\<open>src/server/login_failure_check.rs\<close>) and the per-address failure tables of
  \<^verbatim>\<open>src/server/connection.rs\<close> (\<^verbatim>\<open>get_ipv6_prefixes\<close>, \<^verbatim>\<open>bump_failure_entry\<close>,
  \<^verbatim>\<open>update_failure_with_scope\<close>, \<^verbatim>\<open>check_failure_ipv6_prefix\<close>, \<^verbatim>\<open>check_failure_with_scope\<close>). The
  clock is an argument; login errors and alarms are returned as a list of effects. Parsing and
  printing of IPv6 addresses (\<^verbatim>\<open>Ipv6Addr::from_str\<close>, \<^verbatim>\<open>to_string\<close>) are arguments of the
  definitions that use them.
\<close>

subsection \<open>Scopes, decisions and the back-off state\<close>

datatype failure_scope = Default | TerminalOsLogin

datatype alarm_audit_type =
    IpWhitelist | ExceedThirtyAttempts | SixAttemptsWithinOneMinute | ExceedIPv6PrefixAttempts
  | TerminalOsLoginBackoff | TerminalOsLoginConcurrency | SessionScopeViolation

record policy_decision =
  pd_allowed :: bool
  pd_login_error :: "string option"
  pd_audit :: "alarm_audit_type option"

record os_failure_state =
  os_total_failures :: int
  os_backoff_until_ms :: "int option"
  os_last_failure_ms :: "int option"

definition os_failure_default :: os_failure_state where
  "os_failure_default = \<lparr>os_total_failures = 0, os_backoff_until_ms = None, os_last_failure_ms = None\<rparr>"

definition TOTAL_IDLE_RESET_MS :: int where "TOTAL_IDLE_RESET_MS = 120 * 60 * 1000"
definition BACKOFF_BASE_SECONDS :: int where "BACKOFF_BASE_SECONDS = 15"
definition BACKOFF_MAX_SECONDS :: int where "BACKOFF_MAX_SECONDS = 30 * 60"

definition is_os_credential_scope :: "failure_scope \<Rightarrow> bool" where
  "is_os_credential_scope scope = (case scope of TerminalOsLogin \<Rightarrow> True | Default \<Rightarrow> False)"

definition backoff_audit_type_for_scope :: "failure_scope \<Rightarrow> alarm_audit_type option" where
  "backoff_audit_type_for_scope scope =
     (case scope of TerminalOsLogin \<Rightarrow> Some TerminalOsLoginBackoff | Default \<Rightarrow> None)"

definition os_credential_login_backoff_seconds :: "int \<Rightarrow> int" where
  "os_credential_login_backoff_seconds total_failures =
     (if total_failures \<le> 2 then 0
      else let e = min (total_failures - 3) 7;
               seconds = BACKOFF_BASE_SECONDS * 2 ^ nat e
           in min seconds BACKOFF_MAX_SECONDS)"

definition normalize_backoff :: "int \<Rightarrow> os_failure_state \<Rightarrow> os_failure_state" where
  "normalize_backoff now_ms st =
     (case os_backoff_until_ms st of
        Some until_ms \<Rightarrow> if until_ms \<le> now_ms then st\<lparr>os_backoff_until_ms := None\<rparr> else st
      | None \<Rightarrow> st)"

definition reset_totals_on_idle :: "int \<Rightarrow> os_failure_state \<Rightarrow> os_failure_state" where
  "reset_totals_on_idle now_ms st =
     (case os_last_failure_ms st of
        Some last_ms \<Rightarrow>
          if sat_i64 (now_ms - last_ms) \<ge> TOTAL_IDLE_RESET_MS then os_failure_default else st
      | None \<Rightarrow> st)"

definition allow_decision :: policy_decision where
  "allow_decision = \<lparr>pd_allowed = True, pd_login_error = None, pd_audit = None\<rparr>"

definition block_decision :: "string \<Rightarrow> alarm_audit_type option \<Rightarrow> policy_decision" where
  "block_decision login_error alarm_type =
     \<lparr>pd_allowed = False, pd_login_error = Some login_error, pd_audit = alarm_type\<rparr>"

definition remaining_seconds :: "int \<Rightarrow> int \<Rightarrow> int" where
  "remaining_seconds until_ms now_ms =
     (let remaining_ms = max (wrap_i64 (until_ms - now_ms)) 0
      in max (wrap_i64 (remaining_ms + 999) div 1000) 1)"

definition evaluate_os_credential_policy ::
  "failure_scope \<Rightarrow> int \<Rightarrow> os_failure_state \<Rightarrow> policy_decision \<times> os_failure_state" where
  "evaluate_os_credential_policy scope now_ms st =
     (if \<not> is_os_credential_scope scope then (allow_decision, st)
      else
        let st = normalize_backoff now_ms (reset_totals_on_idle now_ms st)
        in case os_backoff_until_ms st of
             Some until_ms \<Rightarrow>
               let secs = remaining_seconds until_ms now_ms;
                   seconds_label = (if secs = 1 then ''second'' else ''seconds'')
               in (block_decision
                     (''Please try again in '' @ show_int secs @ '' '' @ seconds_label @ ''.'')
                     (backoff_audit_type_for_scope scope), st)
           | None \<Rightarrow> (allow_decision, st))"

definition record_os_credential_failure :: "failure_scope \<Rightarrow> int \<Rightarrow> os_failure_state \<Rightarrow> os_failure_state" where
  "record_os_credential_failure scope now_ms st =
     (if \<not> is_os_credential_scope scope then st
      else
        let st = normalize_backoff now_ms (reset_totals_on_idle now_ms st);
            st = st\<lparr>os_total_failures := sat_i32 (os_total_failures st + 1)\<rparr>;
            st = st\<lparr>os_last_failure_ms := Some now_ms\<rparr>;
            backoff_seconds = os_credential_login_backoff_seconds (os_total_failures st)
        in if backoff_seconds > 0
           then st\<lparr>os_backoff_until_ms := Some (wrap_i64 (now_ms + backoff_seconds * 1000))\<rparr>
           else st)"

subsection \<open>The per-address tables\<close>

type_synonym failure = "int \<times> int \<times> int"
type_synonym fail_map = "(string, failure) hashmap"

datatype login_effect = LoginError string | Alarm alarm_audit_type

text \<open>Parsing and printing of IPv6 addresses as numbers.\<close>

record ipv6_ops =
  v6_parse :: "string \<Rightarrow> 128 word option"
  v6_show :: "128 word \<Rightarrow> string"

definition mask_u128 :: "128 word \<Rightarrow> nat \<Rightarrow> 128 word" where
  "mask_u128 addr prefix_len =
     addr AND (if prefix_len = 0 \<or> prefix_len > 128 then 0 else push_bit (128 - prefix_len) (NOT 0))"

definition get_ipv6_prefixes :: "ipv6_ops \<Rightarrow> string \<Rightarrow> (string \<times> string \<times> string) option" where
  "get_ipv6_prefixes v6 ip =
     (case v6_parse v6 (trim (takeWhile (\<lambda>c. c \<noteq> CHR ''%'') ip)) of
        None \<Rightarrow> None
      | Some addr \<Rightarrow>
          Some (v6_show v6 (mask_u128 addr 64) @ ''/64'',
                v6_show v6 (mask_u128 addr 56) @ ''/56'',
                v6_show v6 (mask_u128 addr 48) @ ''/48''))"

fun bump_failure_entry :: "failure \<Rightarrow> int \<Rightarrow> failure" where
  "bump_failure_entry (minute, in_minute, tot) time =
     (if minute = time then (minute, wrap_i32 (in_minute + 1), wrap_i32 (tot + 1))
      else (time, 1, wrap_i32 (tot + 1)))"

definition entry :: "fail_map \<Rightarrow> string \<Rightarrow> failure" where
  "entry m k = (case hm_get m k of Some f \<Rightarrow> f | None \<Rightarrow> (0, 0, 0))"

definition bump_key :: "int \<Rightarrow> string \<Rightarrow> fail_map \<Rightarrow> fail_map" where
  "bump_key time k m = hm_insert k (bump_failure_entry (entry m k) time) m"

record login_state =
  ls_tables :: "nat \<Rightarrow> fail_map"
  ls_os :: os_failure_state

text \<open>\<open>now_ms\<close> is what \<^verbatim>\<open>get_time()\<close> answers inside \<open>record_os_credential_failure\<close>.\<close>

definition update_failure_with_scope ::
  "ipv6_ops \<Rightarrow> string \<Rightarrow> int \<Rightarrow> failure \<times> int \<Rightarrow> bool \<Rightarrow> nat \<Rightarrow> failure_scope \<Rightarrow> login_state \<Rightarrow> login_state" where
  "update_failure_with_scope v6 ip now_ms ft remove i scope s =
     (case ft of (failure, time) \<Rightarrow>
      if scope = TerminalOsLogin then
        (if \<not> remove then s\<lparr>ls_os := record_os_credential_failure scope now_ms (ls_os s)\<rparr> else s)
      else let m = ls_tables s i in
        if remove then
          (if fst failure \<noteq> 0 then
             (case get_ipv6_prefixes v6 ip of
                Some (p64, p56, p48) \<Rightarrow>
                  s\<lparr>ls_tables := (ls_tables s)(i := hm_remove ip (hm_remove p48 (hm_remove p56 (hm_remove p64 m))))\<rparr>
              | None \<Rightarrow> s\<lparr>ls_tables := (ls_tables s)(i := hm_remove ip m)\<rparr>)
           else s)
        else
          (case get_ipv6_prefixes v6 ip of
             Some (p64, p56, p48) \<Rightarrow>
               s\<lparr>ls_tables := (ls_tables s)(i :=
                  bump_key time ip (bump_key time p48 (bump_key time p56 (bump_key time p64 m))))\<rparr>
           | None \<Rightarrow> s\<lparr>ls_tables := (ls_tables s)(i := bump_key time ip m)\<rparr>))"

definition check_failure_ipv6_prefix ::
  "fail_map \<Rightarrow> int \<Rightarrow> string \<Rightarrow> int \<Rightarrow> int \<Rightarrow> ((failure \<times> int) \<times> bool \<times> login_effect list) option" where
  "check_failure_ipv6_prefix m time prefix_key prefix_num thresh =
     (let f = entry m prefix_key in
      if snd (snd f) > thresh
      then Some ((f, time), False,
        [LoginError (''Too many wrong attempts for IPv6 prefix /'' @ show_int prefix_num),
         Alarm ExceedIPv6PrefixAttempts])
      else None)"

definition check_direct ::
  "fail_map \<Rightarrow> int \<Rightarrow> string \<Rightarrow> (failure \<times> int) \<times> bool \<times> login_effect list" where
  "check_direct m time ip =
     (let f = entry m ip in
      if snd (snd f) > 30 then
        ((f, time), False, [LoginError ''Too many wrong attempts'', Alarm ExceedThirtyAttempts])
      else if time = fst f \<and> fst (snd f) > 6 then
        ((f, time), False, [LoginError ''Please try 1 minute later'', Alarm SixAttemptsWithinOneMinute])
      else ((f, time), True, []))"

definition minute_of :: "int \<Rightarrow> int" where
  "minute_of now_ms = wrap_i32 (now_ms div 60000)"

definition check_failure_with_scope ::
  "ipv6_ops \<Rightarrow> string \<Rightarrow> int \<Rightarrow> nat \<Rightarrow> failure_scope \<Rightarrow> login_state
    \<Rightarrow> ((failure \<times> int) \<times> bool \<times> login_effect list) \<times> login_state" where
  "check_failure_with_scope v6 ip now_ms i scope s =
     (let time = minute_of now_ms in
      if scope = TerminalOsLogin then
        (case evaluate_os_credential_policy scope now_ms (ls_os s) of
           (d, os) \<Rightarrow>
             ((((0, 0, 0), time), pd_allowed d,
               (if pd_allowed d then []
                else (case pd_login_error d of Some e \<Rightarrow> [LoginError e] | None \<Rightarrow> [])
                  @ (case pd_audit d of Some a \<Rightarrow> [Alarm a] | None \<Rightarrow> []))),
              s\<lparr>ls_os := os\<rparr>))
      else
        let m = ls_tables s i in
        (case get_ipv6_prefixes v6 ip of
           Some (p64, p56, p48) \<Rightarrow>
             (case check_failure_ipv6_prefix m time p64 64 60 of
                Some r \<Rightarrow> r
              | None \<Rightarrow>
                  (case check_failure_ipv6_prefix m time p56 56 80 of
                     Some r \<Rightarrow> r
                   | None \<Rightarrow>
                       (case check_failure_ipv6_prefix m time p48 48 100 of
                          Some r \<Rightarrow> r
                        | None \<Rightarrow> check_direct m time ip)))
         | None \<Rightarrow> check_direct m time ip, s))"

text \<open>
  A wrong password from an address (\<^verbatim>\<open>handle_login\<close>): the attempt is checked, and only if it is let
  through is the guess evaluated, found wrong and recorded.
\<close>

definition wrong_attempt :: "ipv6_ops \<Rightarrow> nat \<Rightarrow> login_state \<Rightarrow> string \<times> int \<Rightarrow> bool \<times> login_state" where
  "wrong_attempt v6 i s a =
     (case a of (ip, now_ms) \<Rightarrow>
      case check_failure_with_scope v6 ip now_ms i Default s of
        ((ft, res, _), s) \<Rightarrow>
          if res then (True, update_failure_with_scope v6 ip now_ms ft False i Default s) else (False, s))"

text \<open>A run of attempts from a state: the attempts whose guess was evaluated.\<close>

fun admitted :: "('s \<Rightarrow> 'a \<Rightarrow> bool \<times> 's) \<Rightarrow> 's \<Rightarrow> 'a list \<Rightarrow> 'a list" where
  "admitted attempt s [] = []"
| "admitted attempt s (a # as) =
     (case attempt s a of (ok, s') \<Rightarrow> (if ok then [a] else []) @ admitted attempt s' as)"

fun run_attempts :: "('s \<Rightarrow> 'a \<Rightarrow> bool \<times> 's) \<Rightarrow> 's \<Rightarrow> 'a list \<Rightarrow> 's" where
  "run_attempts attempt s [] = s"
| "run_attempts attempt s (a # as) = run_attempts attempt (snd (attempt s a)) as"

text \<open>The /64, /56 or /48 key (0, 1, 2) of an address, if it is an IPv6 address.\<close>

definition prefix_key :: "ipv6_ops \<Rightarrow> nat \<Rightarrow> string \<Rightarrow> string option" where
  "prefix_key v6 n ip =
     (case get_ipv6_prefixes v6 ip of
        Some (p64, p56, p48) \<Rightarrow> Some (if n = 0 then p64 else if n = 1 then p56 else p48)
      | None \<Rightarrow> None)"

definition wrong_attempt_in :: "int \<Rightarrow> ipv6_ops \<Rightarrow> nat \<Rightarrow> login_state \<Rightarrow> string \<times> int \<Rightarrow> bool \<times> login_state" where
  "wrong_attempt_in minute v6 i s a =
     (if minute_of (snd a) = minute then wrong_attempt v6 i s a else (False, s))"

text \<open>The keys an attempt is charged to, each with the largest total that still admits it.\<close>

definition charged_keys :: "ipv6_ops \<Rightarrow> string \<times> int \<Rightarrow> (string \<times> int) set" where
  "charged_keys v6 a =
     (case get_ipv6_prefixes v6 (fst a) of
        Some (p64, p56, p48) \<Rightarrow> {(p64, 60), (p56, 80), (p48, 100), (fst a, 30)}
      | None \<Rightarrow> {(fst a, 30)})"

definition entry_total :: "fail_map \<Rightarrow> string \<Rightarrow> int" where
  "entry_total m k = snd (snd (entry m k))"

definition entry_in_minute :: "int \<Rightarrow> fail_map \<Rightarrow> string \<Rightarrow> int" where
  "entry_in_minute minute m k = (if fst (entry m k) = minute then fst (snd (entry m k)) else 0)"

definition table_ok :: "int \<Rightarrow> fail_map \<Rightarrow> bool" where
  "table_ok b m \<longleftrightarrow> (\<forall>k. 0 \<le> fst (snd (entry m k)) \<and> fst (snd (entry m k)) \<le> entry_total m k
     \<and> entry_total m k \<le> b)"

subsection \<open>Quotas\<close>

text \<open>
  The contract of a limiter that charges every admitted attempt to a set of keys and admits it only
  while each key's count is within its threshold: at most threshold plus one attempts pass per key.
\<close>

locale quota =
  fixes inv :: "'s \<Rightarrow> bool"
    and count :: "'s \<Rightarrow> 'k \<Rightarrow> int"
    and attempt :: "'s \<Rightarrow> 'a \<Rightarrow> bool \<times> 's"
    and keys :: "'a \<Rightarrow> ('k \<times> int) set"
  assumes inv_attempt: "inv s \<Longrightarrow> attempt s a = (b, s') \<Longrightarrow> inv s'"
    and count_mono: "inv s \<Longrightarrow> attempt s a = (b, s') \<Longrightarrow> count s k \<le> count s' k"
    and charged: "inv s \<Longrightarrow> attempt s a = (True, s') \<Longrightarrow> (k, thresh) \<in> keys a \<Longrightarrow>
      count s k \<le> thresh \<and> count s k < count s' k"
begin

lemma admitted_bound:
  assumes "inv s"
  shows "count s k + int (length (filter (\<lambda>a. (k, thresh) \<in> keys a) (admitted attempt s as)))
    \<le> max (count s k) (thresh + 1)"
  using assms
proof (induction as arbitrary: s)
  case Nil
  then show ?case by simp
next
  case (Cons a as)
  obtain ok s' where st: "attempt s a = (ok, s')" by (cases "attempt s a")
  have inv': "inv s'" using inv_attempt [OF Cons.prems st] .
  have mono: "count s k \<le> count s' k" using count_mono [OF Cons.prems st] .
  note IH = Cons.IH [OF inv']
  show ?case
  proof (cases "ok \<and> (k, thresh) \<in> keys a")
    case True
    with st have "count s k \<le> thresh" "count s k < count s' k"
      using charged [OF Cons.prems, of a s' k thresh] by auto
    with IH True st show ?thesis by auto
  next
    case False
    with IH mono st show ?thesis by auto
  qed
qed

end

subsection \<open>The address tables implement the quotas\<close>

lemma entry_bump_key:
  "entry (bump_key time k m) k' = (if k' = k then bump_failure_entry (entry m k) time else entry m k')"
  by (simp add: bump_key_def entry_def hm_get_insert)

lemma bump_failure_entry_small:
  assumes "0 \<le> fst (snd f)" "fst (snd f) \<le> snd (snd f)" "snd (snd f) \<le> 1000"
  shows "bump_failure_entry f time =
    (time, if fst f = time then fst (snd f) + 1 else 1, snd (snd f) + 1)"
  using assms by (cases f) (auto simp: i32_MIN_def i32_MAX_def)

lemma bump_key_counts:
  assumes "table_ok b m" and "b \<le> 1000"
  shows "entry_total (bump_key time k m) k' = entry_total m k' + (if k' = k then 1 else 0)"
    and "entry_in_minute time (bump_key time k m) k' = entry_in_minute time m k' + (if k' = k then 1 else 0)"
    and "table_ok (b + 1) (bump_key time k m)"
proof -
  have e: "bump_failure_entry (entry m k) time =
      (time, if fst (entry m k) = time then fst (snd (entry m k)) + 1 else 1, entry_total m k + 1)"
    unfolding entry_total_def using assms
    by (intro bump_failure_entry_small) (auto simp: table_ok_def entry_total_def dest: spec [where x = k])
  show "entry_total (bump_key time k m) k' = entry_total m k' + (if k' = k then 1 else 0)"
    using e by (simp add: entry_total_def entry_bump_key)
  show "entry_in_minute time (bump_key time k m) k' = entry_in_minute time m k' + (if k' = k then 1 else 0)"
    using e by (simp add: entry_in_minute_def entry_bump_key)
  show "table_ok (b + 1) (bump_key time k m)"
    unfolding table_ok_def
  proof (intro allI)
    fix k'
    from assms(1) have "0 \<le> fst (snd (entry m k')) \<and> fst (snd (entry m k')) \<le> entry_total m k'
      \<and> entry_total m k' \<le> b" by (simp add: table_ok_def)
    then show "0 \<le> fst (snd (entry (bump_key time k m) k'))
      \<and> fst (snd (entry (bump_key time k m) k')) \<le> entry_total (bump_key time k m) k'
      \<and> entry_total (bump_key time k m) k' \<le> b + 1"
      using e by (cases "k' = k") (auto simp: entry_total_def entry_bump_key)
  qed
qed

definition bump_all :: "int \<Rightarrow> string list \<Rightarrow> fail_map \<Rightarrow> fail_map" where
  "bump_all time ks m = fold (bump_key time) ks m"

definition attempt_keys :: "ipv6_ops \<Rightarrow> string \<Rightarrow> string list" where
  "attempt_keys v6 ip =
     (case get_ipv6_prefixes v6 ip of Some (p64, p56, p48) \<Rightarrow> [p64, p56, p48, ip] | None \<Rightarrow> [ip])"

lemma bump_all_counts:
  assumes "table_ok b m" and "b + int (length ks) \<le> 1000"
  shows "entry_total (bump_all time ks m) k = entry_total m k + int (count_list ks k)
    \<and> entry_in_minute time (bump_all time ks m) k = entry_in_minute time m k + int (count_list ks k)
    \<and> table_ok (b + int (length ks)) (bump_all time ks m)"
  using assms
proof (induction ks arbitrary: b m)
  case Nil
  then show ?case by (simp add: bump_all_def)
next
  case (Cons x ks)
  have b: "b \<le> 1000" using Cons.prems by simp
  note c = bump_key_counts [OF Cons.prems(1) b, of time x]
  from Cons.IH [OF c(3)] Cons.prems(2) c(1,2) [of k] show ?case
    by (auto simp: bump_all_def ac_simps)
qed

lemma wrong_attempt_cases:
  assumes "wrong_attempt v6 i s (ip, now_ms) = (b, s')"
  obtains (blocked) "\<not> b" "s' = s"
  | (evaluated) "b" "s' = s\<lparr>ls_tables := (ls_tables s)(i :=
        bump_all (minute_of now_ms) (attempt_keys v6 ip) (ls_tables s i))\<rparr>"
      "\<forall>(k, t) \<in> charged_keys v6 (ip, now_ms). entry_total (ls_tables s i) k \<le> t"
      "entry_in_minute (minute_of now_ms) (ls_tables s i) ip \<le> 6"
proof (cases "get_ipv6_prefixes v6 ip")
  case None
  then show ?thesis
    using assms blocked evaluated
    by (auto simp: wrong_attempt_def check_failure_with_scope_def check_direct_def
        update_failure_with_scope_def attempt_keys_def charged_keys_def bump_all_def entry_total_def
        entry_in_minute_def Let_def split: if_splits)
next
  case (Some ps)
  obtain p64 p56 p48 where ps: "ps = (p64, p56, p48)" by (cases ps)
  show ?thesis
    using assms blocked evaluated Some ps
    by (auto simp: wrong_attempt_def check_failure_with_scope_def check_failure_ipv6_prefix_def
        check_direct_def update_failure_with_scope_def attempt_keys_def charged_keys_def bump_all_def
        entry_total_def entry_in_minute_def Let_def split: if_splits)
qed

lemma count_list_attempt_keys:
  "count_list (attempt_keys v6 ip) k \<le> 4"
  "(k, t) \<in> charged_keys v6 (ip, now_ms) \<Longrightarrow> 0 < count_list (attempt_keys v6 ip) k"
  "0 < count_list (attempt_keys v6 ip) k \<Longrightarrow>
     \<forall>(k, t) \<in> charged_keys v6 (ip, now_ms). entry_total m k \<le> t \<Longrightarrow> entry_total m k \<le> 100"
  "length (attempt_keys v6 ip) \<le> 4"
  by (auto simp: attempt_keys_def charged_keys_def split: option.splits if_splits)

lemma attempt_table_ok:
  assumes "table_ok 104 m" and "\<forall>(k, t) \<in> charged_keys v6 (ip, now_ms). entry_total m k \<le> t"
  shows "table_ok 104 (bump_all time (attempt_keys v6 ip) m)"
proof -
  let ?ks = "attempt_keys v6 ip"
  have small: "104 + int (length ?ks) \<le> 1000"
    using count_list_attempt_keys(4) [of v6 ip] by linarith
  note c = bump_all_counts [OF assms(1) small]
  have "entry_total (bump_all time ?ks m) k \<le> 104" for k
  proof (cases "count_list ?ks k = 0")
    case True
    then show ?thesis using c [of time k] assms(1) by (simp add: table_ok_def)
  next
    case False
    then have "entry_total m k \<le> 100" using count_list_attempt_keys(3) assms(2) by blast
    then show ?thesis using c [of time k] count_list_attempt_keys(1) [of v6 ip k] by linarith
  qed
  moreover have "table_ok (104 + int (length ?ks)) (bump_all time ?ks m)" using c by blast
  ultimately show ?thesis unfolding table_ok_def by blast
qed

definition limiter_inv :: "nat \<Rightarrow> login_state \<Rightarrow> bool" where
  "limiter_inv i s \<longleftrightarrow> table_ok 104 (ls_tables s i)"

lemma bump_all_attempt:
  assumes "limiter_inv i s"
  shows "entry_total (bump_all time (attempt_keys v6 ip) (ls_tables s i)) k
      = entry_total (ls_tables s i) k + int (count_list (attempt_keys v6 ip) k)"
    and "entry_in_minute time (bump_all time (attempt_keys v6 ip) (ls_tables s i)) k
      = entry_in_minute time (ls_tables s i) k + int (count_list (attempt_keys v6 ip) k)"
proof -
  have "104 + int (length (attempt_keys v6 ip)) \<le> 1000"
    using count_list_attempt_keys(4) [of v6 ip] by linarith
  from bump_all_counts [OF assms [unfolded limiter_inv_def] this] show
    "entry_total (bump_all time (attempt_keys v6 ip) (ls_tables s i)) k
      = entry_total (ls_tables s i) k + int (count_list (attempt_keys v6 ip) k)"
    "entry_in_minute time (bump_all time (attempt_keys v6 ip) (ls_tables s i)) k
      = entry_in_minute time (ls_tables s i) k + int (count_list (attempt_keys v6 ip) k)" by auto
qed

lemma limiter_inv_attempt:
  assumes "limiter_inv i s" and "wrong_attempt v6 i s a = (b, s')"
  shows "limiter_inv i s'"
proof (cases a)
  case (Pair ip now_ms)
  show ?thesis
    using assms(2) unfolding Pair
  proof (cases rule: wrong_attempt_cases)
    case evaluated
    then show ?thesis
      using assms(1) attempt_table_ok [OF _ evaluated(3)] by (simp add: limiter_inv_def)
  qed (use assms(1) in simp)
qed

interpretation address_quota: quota "limiter_inv i" "\<lambda>s. entry_total (ls_tables s i)"
    "wrong_attempt v6 i" "charged_keys v6" for i v6
proof unfold_locales
  fix s a b s'
  assume "limiter_inv i s" "wrong_attempt v6 i s a = (b, s')"
  then show "limiter_inv i s'" by (rule limiter_inv_attempt)
next
  fix s a b s' k
  assume i: "limiter_inv i s" and a: "wrong_attempt v6 i s a = (b, s')"
  then show "entry_total (ls_tables s i) k \<le> entry_total (ls_tables s' i) k"
    using bump_all_attempt(1) [OF i] by (cases a) (auto elim!: wrong_attempt_cases)
next
  fix s a s' k t
  assume i: "limiter_inv i s" and a: "wrong_attempt v6 i s a = (True, s')" and k: "(k, t) \<in> charged_keys v6 a"
  obtain ip now_ms where a': "a = (ip, now_ms)" by (cases a)
  have "0 < count_list (attempt_keys v6 ip) k"
    using k by (simp add: a' count_list_attempt_keys(2))
  then show "entry_total (ls_tables s i) k \<le> t \<and> entry_total (ls_tables s i) k < entry_total (ls_tables s' i) k"
    using a k bump_all_attempt(1) [OF i] unfolding a' by (auto elim!: wrong_attempt_cases)
qed

interpretation minute_quota: quota "limiter_inv i" "\<lambda>s. entry_in_minute minute (ls_tables s i)"
    "wrong_attempt_in minute v6 i" "\<lambda>a. {(fst a, 6)}" for i v6 minute
proof unfold_locales
  fix s a b s'
  assume "limiter_inv i s" "wrong_attempt_in minute v6 i s a = (b, s')"
  then show "limiter_inv i s'"
    by (auto simp: wrong_attempt_in_def dest: limiter_inv_attempt split: if_splits)
next
  fix s a b s' k
  assume i: "limiter_inv i s" and a: "wrong_attempt_in minute v6 i s a = (b, s')"
  then show "entry_in_minute minute (ls_tables s i) k \<le> entry_in_minute minute (ls_tables s' i) k"
    using bump_all_attempt(2) [OF i]
    by (cases a) (auto simp: wrong_attempt_in_def split: if_splits elim!: wrong_attempt_cases)
next
  fix s a s' k t
  assume i: "limiter_inv i s" and a: "wrong_attempt_in minute v6 i s a = (True, s')" and k: "(k, t) \<in> {(fst a, 6 :: int)}"
  obtain ip now_ms where a': "a = (ip, now_ms)" by (cases a)
  have "0 < count_list (attempt_keys v6 ip) ip"
    by (auto simp: attempt_keys_def split: option.splits)
  then show "entry_in_minute minute (ls_tables s i) k \<le> t \<and>
      entry_in_minute minute (ls_tables s i) k < entry_in_minute minute (ls_tables s' i) k"
    using a k bump_all_attempt(2) [OF i] unfolding a'
    by (auto simp: wrong_attempt_in_def split: if_splits elim!: wrong_attempt_cases)
qed

subsection \<open>The OS credential back-off\<close>

lemma backoff_seconds_bounds:
  "0 \<le> os_credential_login_backoff_seconds n \<and> os_credential_login_backoff_seconds n \<le> 1800"
  by (simp add: os_credential_login_backoff_seconds_def BACKOFF_BASE_SECONDS_def BACKOFF_MAX_SECONDS_def)

lemma backoff_seconds_pos: "0 < os_credential_login_backoff_seconds n \<longleftrightarrow> 2 < n"
  by (simp add: os_credential_login_backoff_seconds_def BACKOFF_BASE_SECONDS_def BACKOFF_MAX_SECONDS_def)

lemma backoff_seconds_mono: "m \<le> n \<Longrightarrow> os_credential_login_backoff_seconds m \<le> os_credential_login_backoff_seconds n"
proof (cases "m \<le> 2")
  case True
  then show ?thesis using backoff_seconds_bounds [of n] by (simp add: os_credential_login_backoff_seconds_def)
next
  case False
  assume "m \<le> n"
  with False have "nat (min (m - 3) 7) \<le> nat (min (n - 3) 7)" by simp
  then have "15 * (2 :: int) ^ nat (min (m - 3) 7) \<le> 15 * 2 ^ nat (min (n - 3) 7)" by simp
  then have "min (15 * (2 :: int) ^ nat (min (m - 3) 7)) 1800 \<le> min (15 * 2 ^ nat (min (n - 3) 7)) 1800"
    by (rule min.mono) simp
  with False \<open>m \<le> n\<close> show ?thesis
    by (simp add: os_credential_login_backoff_seconds_def BACKOFF_BASE_SECONDS_def BACKOFF_MAX_SECONDS_def)
qed

text \<open>Clock readings for which the arithmetic of the back-off cannot overflow.\<close>

definition sane_ms :: "int \<Rightarrow> bool" where
  "sane_ms t \<longleftrightarrow> 0 \<le> t \<and> t \<le> 2 ^ 62"

text \<open>The state after a recorded failure, when it ends in a back-off.\<close>

lemma record_failure_backoff:
  assumes "st' = record_os_credential_failure TerminalOsLogin t st" and "sane_ms t"
    and "2 < os_total_failures st'"
  shows "os_backoff_until_ms st' =
      Some (t + os_credential_login_backoff_seconds (os_total_failures st') * 1000)
    \<and> os_last_failure_ms st' = Some t"
proof -
  have "wrap_i64 (t + os_credential_login_backoff_seconds n * 1000)
      = t + os_credential_login_backoff_seconds n * 1000" for n
    using assms(2) backoff_seconds_bounds [of n]
    by (intro wrap_i64_id) (auto simp: sane_ms_def i64_MIN_def i64_MAX_def)
  with assms backoff_seconds_pos show ?thesis
    by (auto simp: record_os_credential_failure_def is_os_credential_scope_def Let_def split: if_splits)
qed

subsection \<open>Properties\<close>


text \<open>An address parser for the witnesses: one network, addresses told apart by their first character.\<close>

definition demo_v6 :: ipv6_ops where
  "demo_v6 = \<lparr>v6_parse = (\<lambda>s. if s = [] then None else Some (of_nat (of_char (hd s)))),
     v6_show = (\<lambda>w. show_nat (unat w))\<rparr>"

definition demo_login :: login_state where
  "demo_login = \<lparr>ls_tables = (\<lambda>_. []), ls_os = os_failure_default\<rparr>"


lemma admitted_in_minute:
  assumes "\<forall>a \<in> set as. minute_of (snd a) = t"
  shows "admitted (wrong_attempt_in t v6 i) s as = admitted (wrong_attempt v6 i) s as"
  using assms by (induction as arbitrary: s) (auto simp: wrong_attempt_in_def)

lemma limiter_inv_run: "limiter_inv i s \<Longrightarrow> limiter_inv i (run_attempts (wrong_attempt v6 i) s as)"
  by (induction as arbitrary: s) (simp_all, metis limiter_inv_attempt surjective_pairing)

text \<open>
  Guess rate per address: after any history of wrong attempts, within one clock minute at most
  seven guesses from one address are evaluated.
\<close>

theorem guesses_per_minute_bounded:
  assumes "ls_tables s0 i = []" and "s = run_attempts (wrong_attempt v6 i) s0 history"
    and "\<forall>a \<in> set as. minute_of (snd a) = t"
  shows "length (filter (\<lambda>a. fst a = ip) (admitted (wrong_attempt v6 i) s as)) \<le> 7"
proof -
  have "limiter_inv i s0"
    using assms(1) by (auto simp: limiter_inv_def table_ok_def entry_total_def entry_def)
  then have inv: "limiter_inv i s" using assms(2) by (simp add: limiter_inv_run)
  then have nn: "0 \<le> entry_in_minute t (ls_tables s i) ip"
    by (simp add: entry_in_minute_def limiter_inv_def table_ok_def)
  have eq: "filter (\<lambda>a. (ip, 6) \<in> {(fst a, 6 :: int)}) xs = filter (\<lambda>a. fst a = ip) xs" for xs :: "(string \<times> int) list"
    by (rule filter_cong) auto
  show ?thesis
    using minute_quota.admitted_bound [OF inv, where k = ip and thresh = 6 and ?v6.0 = v6 and as = as and minute = t] nn
    unfolding eq admitted_in_minute [OF assms(3)] by linarith
qed

theorem guesses_per_minute_bounded_witness:
  "length (filter (\<lambda>a. fst a = ''a'') (admitted (wrong_attempt demo_v6 0)
     (run_attempts (wrong_attempt demo_v6 0) demo_login [(''a'', 0)]) (replicate 20 (''a'', 61000)))) \<le> 7"
  by (rule guesses_per_minute_bounded
        [where t = "minute_of 61000" and ?s0.0 = demo_login and history = "[(''a'', 0)]"])
     (simp_all add: demo_login_def)

text \<open>
  Exactness of the OS credential back-off: after a failure recorded at \<open>t\<close> that brings the
  total to \<open>n > 2\<close>, attempts are refused, with the back-off alarm and an error naming the seconds
  left rounded up, exactly until \<open>t\<close> plus 15, 30, 60, ... seconds (doubling with each failure, at
  most 30 minutes); the two-hour idle reset never shortens a back-off.
\<close>

theorem os_backoff_exact:
  assumes "st' = record_os_credential_failure TerminalOsLogin t st" and "n = os_total_failures st'"
    and "2 < n" and "sane_ms t" and "sane_ms now_ms" and "t \<le> now_ms"
    and "d = evaluate_os_credential_policy TerminalOsLogin now_ms st'"
    and "until_ms = t + min (15 * 2 ^ nat (min (n - 3) 7)) 1800 * 1000"
  shows "(pd_allowed (fst d) \<longleftrightarrow> until_ms \<le> now_ms) \<and>
    (\<not> pd_allowed (fst d) \<longrightarrow>
      (\<exists>secs label. pd_login_error (fst d) = Some (''Please try again in '' @ show_int secs @ '' '' @ label @ ''.'')
        \<and> until_ms - now_ms \<le> secs * 1000 \<and> (secs - 1) * 1000 < until_ms - now_ms)
      \<and> pd_audit (fst d) = Some TerminalOsLoginBackoff)"
proof -
  have u: "os_backoff_until_ms st' = Some until_ms" "os_last_failure_ms st' = Some t"
    using record_failure_backoff [OF assms(1,4)] assms(2,3,8)
    by (auto simp: os_credential_login_backoff_seconds_def BACKOFF_BASE_SECONDS_def BACKOFF_MAX_SECONDS_def)
  have b: "until_ms \<le> t + 1800000" "t < until_ms" using assms(8) by (auto simp: min_def)
  have s: "sat_i64 (now_ms - t) = now_ms - t"
    using assms(4,5) by (intro sat_i64_id) (auto simp: sane_ms_def i64_MIN_def i64_MAX_def)
  show ?thesis
  proof (cases "until_ms \<le> now_ms")
    case True
    then show ?thesis
      using u s unfolding assms(7)
      by (auto simp: evaluate_os_credential_policy_def is_os_credential_scope_def reset_totals_on_idle_def
          normalize_backoff_def os_failure_default_def allow_decision_def Let_def)
  next
    case False
    have w: "wrap_i64 (until_ms - now_ms) = until_ms - now_ms" "wrap_i64 (until_ms - now_ms + 999) = until_ms - now_ms + 999"
      using b False assms(4,5,6) by (auto simp: sane_ms_def i64_MIN_def i64_MAX_def)
    have "1 \<le> (until_ms - now_ms + 999) div 1000" using False by simp
    then have r: "remaining_seconds until_ms now_ms = (until_ms - now_ms + 999) div 1000"
      using False w by (simp add: remaining_seconds_def max_def Let_def)
    have q: "(until_ms - now_ms + 999) div 1000 * 1000 \<le> until_ms - now_ms + 999"
      "until_ms - now_ms + 999 < (until_ms - now_ms + 999) div 1000 * 1000 + 1000"
      using div_mult_mod_eq [of "until_ms - now_ms + 999" 1000]
        pos_mod_bound [of 1000 "until_ms - now_ms + 999"] pos_mod_sign [of 1000 "until_ms - now_ms + 999"]
      by simp_all
    have c: "until_ms - now_ms \<le> remaining_seconds until_ms now_ms * 1000" unfolding r using q(2) by simp
    have c': "(remaining_seconds until_ms now_ms - 1) * 1000 < until_ms - now_ms"
      unfolding r left_diff_distrib using q(1) by simp
    have "now_ms - t < 7200000" using False b by simp
    then show ?thesis
      using False u s c c' unfolding assms(7)
      by (auto simp: evaluate_os_credential_policy_def is_os_credential_scope_def reset_totals_on_idle_def
          normalize_backoff_def TOTAL_IDLE_RESET_MS_def block_decision_def backoff_audit_type_for_scope_def Let_def)
  qed
qed

definition demo_os :: os_failure_state where
  "demo_os = record_os_credential_failure TerminalOsLogin 3000
     (record_os_credential_failure TerminalOsLogin 2000
        (record_os_credential_failure TerminalOsLogin 1000 os_failure_default))"

lemma demo_os_total: "os_total_failures demo_os = 3"
  by (simp add: demo_os_def record_os_credential_failure_def is_os_credential_scope_def reset_totals_on_idle_def
      normalize_backoff_def os_failure_default_def os_credential_login_backoff_seconds_def TOTAL_IDLE_RESET_MS_def
      BACKOFF_BASE_SECONDS_def BACKOFF_MAX_SECONDS_def Let_def
      i32_MIN_def i32_MAX_def i64_MIN_def i64_MAX_def sat_i64_def sat_i32_def)

theorem os_backoff_exact_witness:
  "\<not> pd_allowed (fst (evaluate_os_credential_policy TerminalOsLogin 17999 demo_os))
   \<and> pd_allowed (fst (evaluate_os_credential_policy TerminalOsLogin 18000 demo_os))"
proof -
  have sane: "sane_ms 3000" "sane_ms 17999" "sane_ms 18000" by (simp_all add: sane_ms_def)
  note x = os_backoff_exact [OF demo_os_def demo_os_total [symmetric] _ sane(1) _ _ refl refl]
  from x [OF _ sane(2)] have "\<not> pd_allowed (fst (evaluate_os_credential_policy TerminalOsLogin 17999 demo_os))"
    by simp
  moreover from x [OF _ sane(3)] have "pd_allowed (fst (evaluate_os_credential_policy TerminalOsLogin 18000 demo_os))"
    by simp
  ultimately show ?thesis ..
qed

end
