(* ===== verification/Secrets.thy ===== *)
theory Secrets
  imports Prelude
begin

text \<open>
  Stored secrets: \<^verbatim>\<open>libs/hbb_common/src/password_security.rs\<close> (encryption of stored strings, password
  policy options) and \<^verbatim>\<open>libs/hbb_common/src/config/permanent_password.rs\<close> (the hashed permanent
  password). A Rust string is its UTF-8 byte sequence. libsodium's secretbox and base64, SHA-256 and
  the machine's identity are arguments; their contract is stated where a theorem needs it.
\<close>

subsection \<open>UTF-8\<close>

definition lit :: "string \<Rightarrow> bytes" where
  "lit s = map of_char s"

definition cont :: "u8 \<Rightarrow> bool" where
  "cont b \<longleftrightarrow> b AND 0xC0 = 0x80"

definition byte_at :: "bytes \<Rightarrow> nat \<Rightarrow> u8" where
  "byte_at bs i = (if i < length bs then bs ! i else 0)"

definition second_of_3 :: "u8 \<Rightarrow> u8 \<Rightarrow> bool" where
  "second_of_3 b c \<longleftrightarrow> (b = 0xE0 \<and> 0xA0 \<le> c \<and> c \<le> 0xBF) \<or> (0xE1 \<le> b \<and> b \<le> 0xEC \<and> 0x80 \<le> c \<and> c \<le> 0xBF)
     \<or> (b = 0xED \<and> 0x80 \<le> c \<and> c \<le> 0x9F) \<or> (0xEE \<le> b \<and> b \<le> 0xEF \<and> 0x80 \<le> c \<and> c \<le> 0xBF)"

definition second_of_4 :: "u8 \<Rightarrow> u8 \<Rightarrow> bool" where
  "second_of_4 b c \<longleftrightarrow> (b = 0xF0 \<and> 0x90 \<le> c \<and> c \<le> 0xBF) \<or> (0xF1 \<le> b \<and> b \<le> 0xF3 \<and> 0x80 \<le> c \<and> c \<le> 0xBF)
     \<or> (b = 0xF4 \<and> 0x80 \<le> c \<and> c \<le> 0x8F)"

text \<open>The next character: how many bytes the decoder consumes and whether they are well formed.\<close>

definition utf8_scan :: "bytes \<Rightarrow> nat \<times> bool" where
  "utf8_scan bs =
     (let b = byte_at bs 0 in
      if b < 128 then (1, True)
      else if 0xC2 \<le> b \<and> b \<le> 0xDF then (if cont (byte_at bs 1) then (2, True) else (1, False))
      else if 0xE0 \<le> b \<and> b \<le> 0xEF then
        (if second_of_3 b (byte_at bs 1) then (if cont (byte_at bs 2) then (3, True) else (2, False)) else (1, False))
      else if 0xF0 \<le> b \<and> b \<le> 0xF4 then
        (if second_of_4 b (byte_at bs 1) then
           (if cont (byte_at bs 2) then (if cont (byte_at bs 3) then (4, True) else (3, False)) else (2, False))
         else (1, False))
      else (1, False))"

lemma utf8_scan_pos: "0 < fst (utf8_scan bs)"
  by (simp add: utf8_scan_def Let_def)

function from_utf8_lossy :: "bytes \<Rightarrow> bytes" where
  "from_utf8_lossy bs =
     (if bs = [] then []
      else (if snd (utf8_scan bs) then take (fst (utf8_scan bs)) bs else [0xEF, 0xBF, 0xBD])
             @ from_utf8_lossy (drop (fst (utf8_scan bs)) bs))"
  by pat_completeness auto
termination
  by (relation "measure length") (use utf8_scan_pos in \<open>auto intro: diff_less\<close>)

declare from_utf8_lossy.simps [simp del]

function utf8_valid :: "bytes \<Rightarrow> bool" where
  "utf8_valid bs = (if bs = [] then True else snd (utf8_scan bs) \<and> utf8_valid (drop (fst (utf8_scan bs)) bs))"
  by pat_completeness auto
termination
  by (relation "measure length") (use utf8_scan_pos in \<open>auto intro: diff_less\<close>)

declare utf8_valid.simps [simp del]

lemma lossy_valid: "utf8_valid bs \<Longrightarrow> from_utf8_lossy bs = bs"
proof (induction bs rule: from_utf8_lossy.induct)
  case (1 bs)
  show ?case
  proof (cases "bs = []")
    case True
    then show ?thesis by (simp add: from_utf8_lossy.simps)
  next
    case False
    with "1.prems" have "snd (utf8_scan bs)" "utf8_valid (drop (fst (utf8_scan bs)) bs)"
      by (auto simp: utf8_valid.simps [of bs])
    with "1.IH" [OF False] False show ?thesis by (subst from_utf8_lossy.simps) simp
  qed
qed

definition char_count :: "bytes \<Rightarrow> nat" where
  "char_count bs = length (filter (\<lambda>b. \<not> cont b) bs)"

subsection \<open>Primitives\<close>

definition KEYBYTES :: nat where "KEYBYTES = 32"
definition NONCEBYTES :: nat where "NONCEBYTES = 24"
definition MACBYTES :: nat where "MACBYTES = 16"

record crypto =
  cy_seal :: "bytes \<Rightarrow> bytes \<Rightarrow> bytes \<Rightarrow> bytes"
  cy_open :: "bytes \<Rightarrow> bytes \<Rightarrow> bytes \<Rightarrow> bytes option"
  cy_b64_encode :: "bytes \<Rightarrow> bytes"
  cy_b64_decode :: "bytes \<Rightarrow> bytes option"
  cy_sha256 :: "bytes \<Rightarrow> bytes"
  cy_uuid :: bytes
  cy_pk :: "bytes option"
  cy_mobile :: bool

text \<open>The contract of the primitives.\<close>

definition crypto_ok :: "crypto \<Rightarrow> bool" where
  "crypto_ok cy \<longleftrightarrow>
     (\<forall>m n k. length n = NONCEBYTES \<longrightarrow> length k = KEYBYTES \<longrightarrow>
        cy_open cy (cy_seal cy m n k) n k = Some m \<and> length (cy_seal cy m n k) = length m + MACBYTES)
     \<and> (\<forall>x. cy_b64_decode cy (cy_b64_encode cy x) = Some x)
     \<and> (\<forall>x. length (cy_sha256 cy x) = 32)
     \<and> (\<forall>x. list_all (\<lambda>b. b < 128) (cy_b64_encode cy x) \<and> length x \<le> length (cy_b64_encode cy x)
              \<and> length (cy_b64_encode cy x) \<le> 2 * length x + 4)"

subsection \<open>Password policy\<close>

datatype verification_method = OnlyUseTemporaryPassword | OnlyUsePermanentPassword | UseBothPasswords

datatype approve_mode = ApproveBoth | ApprovePassword | ApproveClick

definition option2bool :: "string \<Rightarrow> string \<Rightarrow> bool" where
  "option2bool option value =
     (if prefix ''enable-'' option then value \<noteq> ''N''
      else if prefix ''allow-'' option \<or> option = ''stop-service'' \<or> option = ''direct-server''
              \<or> option = ''force-always-relay'' then value = ''Y''
      else value \<noteq> ''N'')"

definition verification_method_of :: "(string \<Rightarrow> string) \<Rightarrow> verification_method" where
  "verification_method_of opt =
     (if opt ''verification-method'' = ''use-temporary-password'' then OnlyUseTemporaryPassword
      else if opt ''verification-method'' = ''use-permanent-password'' then OnlyUsePermanentPassword
      else UseBothPasswords)"

definition temporary_password_length :: "(string \<Rightarrow> string) \<Rightarrow> nat" where
  "temporary_password_length opt =
     (if opt ''temporary-password-length'' = ''8'' then 8
      else if opt ''temporary-password-length'' = ''10'' then 10 else 6)"

definition temporary_enabled :: "(string \<Rightarrow> string) \<Rightarrow> bool" where
  "temporary_enabled opt \<longleftrightarrow> verification_method_of opt \<noteq> OnlyUsePermanentPassword"

definition permanent_enabled :: "(string \<Rightarrow> string) \<Rightarrow> bool" where
  "permanent_enabled opt \<longleftrightarrow> verification_method_of opt \<noteq> OnlyUseTemporaryPassword"

definition has_valid_password :: "(string \<Rightarrow> string) \<Rightarrow> bytes \<Rightarrow> bool \<Rightarrow> bool" where
  "has_valid_password opt temporary_password has_permanent_password \<longleftrightarrow>
     (temporary_enabled opt \<and> temporary_password \<noteq> []) \<or> (permanent_enabled opt \<and> has_permanent_password)"

definition approve_mode_of :: "(string \<Rightarrow> string) \<Rightarrow> approve_mode" where
  "approve_mode_of opt =
     (if opt ''approve-mode'' = ''password'' then ApprovePassword
      else if opt ''approve-mode'' = ''click'' then ApproveClick else ApproveBoth)"

definition hide_cm :: "(string \<Rightarrow> string) \<Rightarrow> bool" where
  "hide_cm opt \<longleftrightarrow> approve_mode_of opt = ApprovePassword \<and> verification_method_of opt = OnlyUsePermanentPassword
     \<and> option2bool ''allow-hide-cm'' (opt ''allow-hide-cm'')"

text \<open>A random password: one index per character, from the random numbers drawn.\<close>

definition get_auto_password_with_chars :: "nat list \<Rightarrow> char list \<Rightarrow> string" where
  "get_auto_password_with_chars rands chars = map (\<lambda>r. chars ! (r mod length chars)) rands"

subsection \<open>Encryption of stored values\<close>

definition VERSION_LEN :: nat where "VERSION_LEN = 2"
definition FORMAT_V1 :: u8 where "FORMAT_V1 = 1"

definition is_encrypted :: "crypto \<Rightarrow> bytes \<Rightarrow> bool" where
  "is_encrypted cy v =
     (if length v \<le> VERSION_LEN \<or> \<not> prefix (lit ''00'') v then False
      else case cy_b64_decode cy (drop VERSION_LEN v) of
        Some decoded \<Rightarrow> length decoded \<ge> MACBYTES
      | None \<Rightarrow> False)"

definition open_secretbox_payload :: "crypto \<Rightarrow> bytes \<Rightarrow> bytes \<Rightarrow> bytes option" where
  "open_secretbox_payload cy data key =
     (let legacy = cy_open cy data (replicate NONCEBYTES 0) key in
      if data \<noteq> [] \<and> hd data = FORMAT_V1 \<and> length data \<ge> 1 + NONCEBYTES + MACBYTES
      then (case cy_open cy (drop (1 + NONCEBYTES) data) (take NONCEBYTES (drop 1 data)) key of
              Some decrypted \<Rightarrow> Some decrypted
            | None \<Rightarrow> legacy)
      else legacy)"

text \<open>\<^verbatim>\<open>Vec::resize\<close> to the key length.\<close>

definition keybuf :: "bytes \<Rightarrow> bytes" where
  "keybuf k = take KEYBYTES k @ replicate (KEYBYTES - length k) 0"

definition symmetric_encrypt :: "crypto \<Rightarrow> bytes \<Rightarrow> bytes \<Rightarrow> bytes" where
  "symmetric_encrypt cy nonce data = FORMAT_V1 # nonce @ cy_seal cy data nonce (keybuf (cy_uuid cy))"

definition symmetric_decrypt :: "crypto \<Rightarrow> bytes \<Rightarrow> bytes option" where
  "symmetric_decrypt cy data =
     (case open_secretbox_payload cy data (keybuf (cy_uuid cy)) of
        Some v \<Rightarrow> Some v
      | None \<Rightarrow>
          if cy_mobile cy then None
          else (case cy_pk cy of
                  Some pk \<Rightarrow> if pk \<noteq> cy_uuid cy then open_secretbox_payload cy data (keybuf pk) else None
                | None \<Rightarrow> None))"

definition encrypt :: "crypto \<Rightarrow> bytes \<Rightarrow> bytes \<Rightarrow> bytes option" where
  "encrypt cy nonce v = (if v \<noteq> [] then Some (cy_b64_encode cy (symmetric_encrypt cy nonce v)) else None)"

definition decrypt :: "crypto \<Rightarrow> bytes \<Rightarrow> bytes option" where
  "decrypt cy v = (if v \<noteq> [] then Option.bind (cy_b64_decode cy v) (symmetric_decrypt cy) else None)"

definition encrypt_str_or_original :: "crypto \<Rightarrow> bytes \<Rightarrow> bytes \<Rightarrow> bytes \<Rightarrow> nat \<Rightarrow> bytes" where
  "encrypt_str_or_original cy nonce s version max_len =
     (if is_encrypted cy s then s
      else if char_count s > max_len then []
      else if version = lit ''00'' then
        (case encrypt cy nonce s of Some e \<Rightarrow> version @ e | None \<Rightarrow> s)
      else s)"

definition decrypt_str_or_original :: "crypto \<Rightarrow> bytes \<Rightarrow> bytes \<Rightarrow> bytes \<times> bool \<times> bool" where
  "decrypt_str_or_original cy s current_version =
     (case (if length s > VERSION_LEN \<and> prefix (lit ''00'') s then decrypt cy (drop VERSION_LEN s) else None) of
        Some v \<Rightarrow> (from_utf8_lossy v, True, lit ''00'' \<noteq> current_version)
      | None \<Rightarrow> (s, False, s \<noteq> [] \<and> \<not> is_encrypted cy s))"

definition encrypt_vec_or_original :: "crypto \<Rightarrow> bytes \<Rightarrow> bytes \<Rightarrow> bytes \<Rightarrow> nat \<Rightarrow> bytes" where
  "encrypt_vec_or_original cy nonce v version max_len =
     (if is_encrypted cy v then v
      else if length v > max_len then []
      else if version = lit ''00'' then
        (case encrypt cy nonce v of Some e \<Rightarrow> version @ e | None \<Rightarrow> v)
      else v)"

definition decrypt_vec_or_original :: "crypto \<Rightarrow> bytes \<Rightarrow> bytes \<Rightarrow> bytes \<times> bool \<times> bool" where
  "decrypt_vec_or_original cy v current_version =
     (case (if length v > VERSION_LEN \<and> from_utf8_lossy (take VERSION_LEN v) = lit ''00''
            then decrypt cy (drop VERSION_LEN v) else None) of
        Some d \<Rightarrow> (d, True, lit ''00'' \<noteq> current_version)
      | None \<Rightarrow> (v, False, v \<noteq> [] \<and> \<not> is_encrypted cy v))"

subsection \<open>The permanent password\<close>

definition PASSWORD_ENC_VERSION :: bytes where "PASSWORD_ENC_VERSION = lit ''00''"
definition PERMANENT_PASSWORD_ENC_VERSION :: bytes where "PERMANENT_PASSWORD_ENC_VERSION = lit ''01''"
definition PERMANENT_PASSWORD_HASH_PREFIX :: bytes where "PERMANENT_PASSWORD_HASH_PREFIX = lit ''00''"
definition HBBS_PRESET_PASSWORD_HASH_PREFIX :: bytes where "HBBS_PRESET_PASSWORD_HASH_PREFIX = lit ''00''"
definition PERMANENT_PASSWORD_H1_LEN :: nat where "PERMANENT_PASSWORD_H1_LEN = 32"
definition ENCRYPT_MAX_LEN :: nat where "ENCRYPT_MAX_LEN = 128"

definition compute_permanent_password_h1 :: "crypto \<Rightarrow> bytes \<Rightarrow> bytes \<Rightarrow> bytes" where
  "compute_permanent_password_h1 cy password salt =
     take PERMANENT_PASSWORD_H1_LEN (cy_sha256 cy (password @ salt))"

definition encode_permanent_password_storage_from_h1 :: "crypto \<Rightarrow> bytes \<Rightarrow> bytes" where
  "encode_permanent_password_storage_from_h1 cy h1 = PERMANENT_PASSWORD_HASH_PREFIX @ cy_b64_encode cy h1"

definition encrypt_permanent_password_storage :: "crypto \<Rightarrow> bytes \<Rightarrow> bytes \<Rightarrow> bytes option" where
  "encrypt_permanent_password_storage cy nonce storage =
     (if char_count storage > ENCRYPT_MAX_LEN then None
      else Some (PERMANENT_PASSWORD_ENC_VERSION @ cy_b64_encode cy (symmetric_encrypt cy nonce storage)))"

definition encode_permanent_password_encrypted_storage_from_h1 :: "crypto \<Rightarrow> bytes \<Rightarrow> bytes \<Rightarrow> bytes option" where
  "encode_permanent_password_encrypted_storage_from_h1 cy nonce h1 =
     encrypt_permanent_password_storage cy nonce (encode_permanent_password_storage_from_h1 cy h1)"

definition decode_password_h1_after_prefix :: "crypto \<Rightarrow> bytes \<Rightarrow> bytes \<Rightarrow> bytes option" where
  "decode_password_h1_after_prefix cy storage pre =
     (if prefix pre storage then
        (case cy_b64_decode cy (drop (length pre) storage) of
           Some v \<Rightarrow> if length v \<noteq> PERMANENT_PASSWORD_H1_LEN then None else Some v
         | None \<Rightarrow> None)
      else None)"

definition decode_permanent_password_h1_from_hashed_storage :: "crypto \<Rightarrow> bytes \<Rightarrow> bytes option" where
  "decode_permanent_password_h1_from_hashed_storage cy storage =
     decode_password_h1_after_prefix cy storage PERMANENT_PASSWORD_HASH_PREFIX"

definition decode_preset_password_h1_from_storage :: "crypto \<Rightarrow> bytes \<Rightarrow> bytes option" where
  "decode_preset_password_h1_from_storage cy storage =
     decode_password_h1_after_prefix cy storage HBBS_PRESET_PASSWORD_HASH_PREFIX"

definition decrypt_permanent_password_str_or_original :: "crypto \<Rightarrow> bytes \<Rightarrow> bytes \<times> bool \<times> bool" where
  "decrypt_permanent_password_str_or_original cy storage =
     (case (if length storage > VERSION_LEN \<and> prefix PERMANENT_PASSWORD_ENC_VERSION storage
            then Option.bind (cy_b64_decode cy (drop VERSION_LEN storage)) (symmetric_decrypt cy) else None) of
        Some v \<Rightarrow> (from_utf8_lossy v, True, False)
      | None \<Rightarrow> (storage, False, storage \<noteq> []))"

definition decode_permanent_password_h1_from_storage :: "crypto \<Rightarrow> bytes \<Rightarrow> bytes option" where
  "decode_permanent_password_h1_from_storage cy storage =
     (if prefix PERMANENT_PASSWORD_ENC_VERSION storage then
        (case decrypt_permanent_password_str_or_original cy storage of
           (hashed_storage, decrypted, _) \<Rightarrow>
             if \<not> decrypted then None else decode_permanent_password_h1_from_hashed_storage cy hashed_storage)
      else None)"

definition local_permanent_password_storage_is_usable_for_auth :: "crypto \<Rightarrow> bytes \<Rightarrow> bytes \<Rightarrow> bool" where
  "local_permanent_password_storage_is_usable_for_auth cy storage salt =
     (if storage = [] then False
      else if decode_permanent_password_h1_from_storage cy storage \<noteq> None then salt \<noteq> []
      else if prefix PERMANENT_PASSWORD_ENC_VERSION storage
              \<and> fst (snd (decrypt_permanent_password_str_or_original cy storage)) then False
      else (case decrypt_str_or_original cy storage PASSWORD_ENC_VERSION of
              (_, decrypted, looks_like_plaintext) \<Rightarrow>
                \<not> (prefix PASSWORD_ENC_VERSION storage \<and> \<not> decrypted \<and> \<not> looks_like_plaintext)))"

definition preset_permanent_password_storage_is_usable_for_auth :: "crypto \<Rightarrow> bytes \<Rightarrow> bytes \<Rightarrow> bool" where
  "preset_permanent_password_storage_is_usable_for_auth cy storage salt =
     (if storage = [] then False
      else if salt = [] then True
      else decode_preset_password_h1_from_storage cy storage \<noteq> None)"

definition preset_permanent_password_storage_matches_plain :: "crypto \<Rightarrow> bytes \<Rightarrow> bytes \<Rightarrow> bytes \<Rightarrow> bool" where
  "preset_permanent_password_storage_matches_plain cy storage salt input =
     (if storage = [] \<or> input = [] then False
      else if salt = [] then storage = input
      else case decode_preset_password_h1_from_storage cy storage of
        None \<Rightarrow> False
      | Some stored_h1 \<Rightarrow> compute_permanent_password_h1 cy input salt = stored_h1)"

definition password_is_empty_or_not_hashed :: "crypto \<Rightarrow> bytes \<Rightarrow> bool" where
  "password_is_empty_or_not_hashed cy storage =
     (if storage = [] then True
      else if decode_permanent_password_h1_from_storage cy storage \<noteq> None then False
      else if prefix PERMANENT_PASSWORD_ENC_VERSION storage then False
      else (case decrypt_str_or_original cy storage PASSWORD_ENC_VERSION of
              (_, decrypted, looks_like_plaintext) \<Rightarrow> decrypted \<or> looks_like_plaintext))"

subsection \<open>Round trips\<close>

lemma ascii_valid: "list_all (\<lambda>b. b < 128) bs \<Longrightarrow> utf8_valid bs"
proof (induction bs)
  case (Cons b bs)
  then have "utf8_scan (b # bs) = (1, True)" by (simp add: utf8_scan_def byte_at_def)
  with Cons show ?case by (subst utf8_valid.simps) simp
qed (simp add: utf8_valid.simps)

lemma length_lit [simp]: "length (lit s) = length s"
  by (simp add: lit_def)

lemma keybuf_length [simp]: "length (keybuf k) = KEYBYTES"
  by (simp add: keybuf_def)

lemma symmetric_roundtrip:
  assumes "crypto_ok cy" and "length nonce = NONCEBYTES"
  shows "symmetric_decrypt cy (symmetric_encrypt cy nonce m) = Some m"
    and "length (symmetric_encrypt cy nonce m) = 1 + NONCEBYTES + MACBYTES + length m"
proof -
  let ?c = "cy_seal cy m nonce (keybuf (cy_uuid cy))"
  have c: "cy_open cy ?c nonce (keybuf (cy_uuid cy)) = Some m" "length ?c = length m + MACBYTES"
    using assms by (simp_all add: crypto_ok_def)
  then show "length (symmetric_encrypt cy nonce m) = 1 + NONCEBYTES + MACBYTES + length m"
    using assms(2) by (simp add: symmetric_encrypt_def)
  have "open_secretbox_payload cy (symmetric_encrypt cy nonce m) (keybuf (cy_uuid cy)) = Some m"
    using c assms(2) by (simp add: open_secretbox_payload_def symmetric_encrypt_def Let_def)
  then show "symmetric_decrypt cy (symmetric_encrypt cy nonce m) = Some m" by (simp add: symmetric_decrypt_def)
qed

lemma b64_nonempty: "crypto_ok cy \<Longrightarrow> x \<noteq> [] \<Longrightarrow> cy_b64_encode cy x \<noteq> []"
  unfolding crypto_ok_def by (metis le_zero_eq length_0_conv)

text \<open>
  C17. A stored string comes back. Encrypting a non-empty string that is not too long and not already
  an encrypted value, and decrypting the result, gives the string, reports success and asks for no
  re-encryption; and the result is recognised as encrypted, so encrypting it again leaves it alone.
  The primitives are assumed to keep their contract (\<open>crypto_ok\<close>).
\<close>

theorem encrypted_string_roundtrip:
  assumes "crypto_ok cy" and "length nonce = NONCEBYTES" and "s \<noteq> []"
    and "utf8_valid s" and "\<not> is_encrypted cy s" and "char_count s \<le> max_len"
  shows "let e = encrypt_str_or_original cy nonce s (lit ''00'') max_len
    in decrypt_str_or_original cy e (lit ''00'') = (s, True, False) \<and> is_encrypted cy e
       \<and> encrypt_str_or_original cy nonce' e (lit ''00'') max_len = e"
proof -
  let ?x = "symmetric_encrypt cy nonce s"
  let ?b = "cy_b64_encode cy ?x"
  have e: "encrypt_str_or_original cy nonce s (lit ''00'') max_len = lit ''00'' @ ?b"
    using assms by (simp add: encrypt_str_or_original_def encrypt_def)
  have "?x \<noteq> []" by (simp add: symmetric_encrypt_def)
  from b64_nonempty [OF assms(1) this] have b: "?b \<noteq> []" .
  have d: "cy_b64_decode cy ?b = Some ?x" using assms(1) by (simp add: crypto_ok_def)
  have "decrypt_str_or_original cy (lit ''00'' @ ?b) (lit ''00'') = (s, True, False)"
    using b d symmetric_roundtrip(1) [OF assms(1,2), of s] lossy_valid [OF assms(4)]
    by (simp add: decrypt_str_or_original_def decrypt_def VERSION_LEN_def)
  moreover have "is_encrypted cy (lit ''00'' @ ?b)"
    using b d symmetric_roundtrip(2) [OF assms(1,2), of s] by (simp add: is_encrypted_def VERSION_LEN_def)
  ultimately show ?thesis by (simp add: e encrypt_str_or_original_def [of cy nonce' "lit ''00'' @ ?b"])
qed

text \<open>A toy instance of the primitives that keeps the contract, for the witnesses.\<close>

definition hex_encode :: "bytes \<Rightarrow> bytes" where
  "hex_encode bs = concat (map (\<lambda>b. [drop_bit 4 b, b AND 15]) bs)"

fun hex_decode :: "bytes \<Rightarrow> bytes" where
  "hex_decode (a # b # bs) = (push_bit 4 a OR b) # hex_decode bs"
| "hex_decode _ = []"

definition demo_crypto :: crypto where
  "demo_crypto = \<lparr>cy_seal = \<lambda>m n k. replicate 16 0 @ m, cy_open = \<lambda>c n k. Some (drop 16 c),
     cy_b64_encode = hex_encode, cy_b64_decode = \<lambda>x. Some (hex_decode x), cy_sha256 = \<lambda>x. take 32 (x @ replicate 32 0),
     cy_uuid = [1], cy_pk = None, cy_mobile = True\<rparr>"

lemma nibbles: "push_bit 4 (drop_bit 4 b) OR (b AND 15) = (b :: u8)"
proof -
  have m: "(15 :: u8) = mask 4" by (simp add: mask_eq_exp_minus_1)
  show ?thesis unfolding m by (rule bit_eqI) (auto simp: bit_simps)
qed

lemma hex_roundtrip: "hex_decode (hex_encode bs) = bs"
  by (induction bs) (simp_all add: hex_encode_def nibbles)

lemma hex_ascii: "list_all (\<lambda>b. b < 128) (hex_encode bs)"
proof -
  have "drop_bit 4 b < 128 \<and> b AND 15 < 128" for b :: u8
  proof
    show "drop_bit 4 b < 128"
      using unsigned_less [of b, where ?'a = nat] by (simp add: word_less_nat_alt unat_drop_bit_eq drop_bit_nat_def)
    have "b AND 15 \<le> 15" by (rule word_and_le1)
    then show "b AND 15 < 128" by (rule order_le_less_trans) simp
  qed
  then show ?thesis by (induction bs) (simp_all add: hex_encode_def)
qed

lemma hex_length: "length (hex_encode bs) = 2 * length bs"
  by (induction bs) (simp_all add: hex_encode_def)

lemma demo_crypto_ok: "crypto_ok demo_crypto"
  by (auto simp: crypto_ok_def demo_crypto_def MACBYTES_def hex_roundtrip hex_ascii hex_length min_def)

theorem encrypted_string_roundtrip_witness:
  "decrypt_str_or_original demo_crypto
     (encrypt_str_or_original demo_crypto (replicate 24 7) (lit ''secret'') (lit ''00'') 128) (lit ''00'') =
     (lit ''secret'', True, False)"
proof -
  have "utf8_valid (lit ''secret'')" by (rule ascii_valid) (simp add: lit_def)
  moreover have "\<not> is_encrypted demo_crypto (lit ''secret'')" by (simp add: is_encrypted_def lit_def VERSION_LEN_def)
  moreover have "char_count (lit ''secret'') \<le> 128" by (simp add: char_count_def lit_def cont_def)
  moreover have "lit ''secret'' \<noteq> []" by (simp add: lit_def)
  ultimately show ?thesis
    using encrypted_string_roundtrip [OF demo_crypto_ok, of "replicate 24 7" "lit ''secret''" 128 "[]"]
    by (simp add: NONCEBYTES_def Let_def)
qed

text \<open>
  C18. The permanent password is stored so that it can be checked. The storage made from the hash of a
  password and salt decodes to that hash; with a salt it can be used for logging in and without one
  it cannot; it counts as hashed, so the salt is not replaced under it; and it is never taken for a
  preset password, whatever is typed.
\<close>

theorem permanent_password_storage:
  assumes "crypto_ok cy" and "length nonce = NONCEBYTES"
    and "h1 = compute_permanent_password_h1 cy password salt"
  shows "\<exists>st. encode_permanent_password_encrypted_storage_from_h1 cy nonce h1 = Some st
    \<and> decode_permanent_password_h1_from_storage cy st = Some h1
    \<and> local_permanent_password_storage_is_usable_for_auth cy st salt' = (salt' \<noteq> [])
    \<and> \<not> password_is_empty_or_not_hashed cy st
    \<and> (s \<noteq> [] \<longrightarrow> \<not> preset_permanent_password_storage_matches_plain cy st s input)"
proof -
  let ?inner = "encode_permanent_password_storage_from_h1 cy h1"
  let ?st = "PERMANENT_PASSWORD_ENC_VERSION @ cy_b64_encode cy (symmetric_encrypt cy nonce ?inner)"
  note cdefs = PERMANENT_PASSWORD_ENC_VERSION_def PERMANENT_PASSWORD_HASH_PREFIX_def HBBS_PRESET_PASSWORD_HASH_PREFIX_def
  have h1: "length h1 = 32" using assms(1) by (simp add: assms(3) compute_permanent_password_h1_def crypto_ok_def PERMANENT_PASSWORD_H1_LEN_def)
  have b: "cy_b64_decode cy (cy_b64_encode cy x) = Some x" for x using assms(1) by (simp add: crypto_ok_def)
  have b64: "list_all (\<lambda>b. b < 128) (cy_b64_encode cy h1)" "length (cy_b64_encode cy h1) \<le> 68"
  proof -
    have "list_all (\<lambda>b. b < 128) (cy_b64_encode cy h1) \<and> length (cy_b64_encode cy h1) \<le> 2 * length h1 + 4"
      using assms(1) by (simp add: crypto_ok_def)
    then show "list_all (\<lambda>b. b < 128) (cy_b64_encode cy h1)" "length (cy_b64_encode cy h1) \<le> 68" using h1 by simp_all
  qed
  have ascii: "list_all (\<lambda>b. b < 128) ?inner"
    using b64(1) by (simp add: encode_permanent_password_storage_from_h1_def cdefs lit_def)
  have "char_count ?inner \<le> length ?inner" by (simp add: char_count_def)
  also have "\<dots> \<le> ENCRYPT_MAX_LEN"
    using b64(2) by (simp add: encode_permanent_password_storage_from_h1_def cdefs ENCRYPT_MAX_LEN_def)
  finally have st: "encode_permanent_password_encrypted_storage_from_h1 cy nonce h1 = Some ?st"
    by (simp add: encode_permanent_password_encrypted_storage_from_h1_def encrypt_permanent_password_storage_def)
  have ne: "length ?st > VERSION_LEN"
    using b64_nonempty [OF assms(1), of "symmetric_encrypt cy nonce ?inner"] by (simp add: cdefs VERSION_LEN_def symmetric_encrypt_def)
  have dec: "decrypt_permanent_password_str_or_original cy ?st = (?inner, True, False)"
    using ne b symmetric_roundtrip(1) [OF assms(1,2)] lossy_valid [OF ascii_valid [OF ascii]]
    by (simp add: decrypt_permanent_password_str_or_original_def cdefs VERSION_LEN_def)
  have h: "decode_permanent_password_h1_from_storage cy ?st = Some h1"
  proof -
    have "decode_permanent_password_h1_from_hashed_storage cy ?inner = Some h1"
      using b h1 by (simp add: decode_permanent_password_h1_from_hashed_storage_def
          decode_password_h1_after_prefix_def encode_permanent_password_storage_from_h1_def PERMANENT_PASSWORD_H1_LEN_def)
    then show ?thesis by (simp add: decode_permanent_password_h1_from_storage_def dec)
  qed
  have "decode_preset_password_h1_from_storage cy ?st = None"
    by (simp add: decode_preset_password_h1_from_storage_def decode_password_h1_after_prefix_def cdefs lit_def)
  then have "s \<noteq> [] \<longrightarrow> \<not> preset_permanent_password_storage_matches_plain cy ?st s input"
    by (simp add: preset_permanent_password_storage_matches_plain_def)
  moreover have "?st \<noteq> []" by (simp add: cdefs lit_def)
  ultimately show ?thesis
    using st h by (auto simp: local_permanent_password_storage_is_usable_for_auth_def password_is_empty_or_not_hashed_def)
qed

theorem permanent_password_storage_witness:
  "\<exists>st. encode_permanent_password_encrypted_storage_from_h1 demo_crypto (replicate 24 7)
      (compute_permanent_password_h1 demo_crypto (lit ''pw'') (lit ''salt'')) = Some st
    \<and> local_permanent_password_storage_is_usable_for_auth demo_crypto st (lit ''salt'')"
proof -
  have "length (replicate 24 (7 :: u8)) = NONCEBYTES" by (simp add: NONCEBYTES_def)
  from permanent_password_storage [OF demo_crypto_ok this refl, of "lit ''pw''" "lit ''salt''" "lit ''salt''" "[]" "[]"]
  show ?thesis by (auto simp: lit_def)
qed

end
