(* ===== verification/Login.thy ===== *)
theory Login
  imports Login_Failure Secrets
begin

text \<open>
  Authorisation of a connection (\<^verbatim>\<open>src/server/connection.rs\<close> in the mobile build, the target of this
  repository): the login request with password, recent session or two-factor code, the temporary
  password and its rotation, trusted devices, and what makes a connection authorised. Configuration,
  the TOTP check, the platform and the network are arguments; the failure tables are those of
  \<open>Login_Failure\<close>, the password storage that of \<open>Secrets\<close>.
\<close>

subsection \<open>Version numbers\<close>

definition is_digit :: "char \<Rightarrow> bool" where
  "is_digit c \<longleftrightarrow> 48 \<le> (of_char c :: nat) \<and> (of_char c :: nat) \<le> 57"

definition digits_value :: "string \<Rightarrow> int" where
  "digits_value ds = foldl (\<lambda>n c. n * 10 + int (of_char c - 48)) 0 ds"

text \<open>\<^verbatim>\<open>parse::<i64>()\<close>: an optional sign, digits, no overflow.\<close>

definition parse_i64 :: "string \<Rightarrow> int option" where
  "parse_i64 s =
     (let (neg, ds) = (case s of c # r \<Rightarrow> if c = CHR ''-'' then (True, r) else if c = CHR ''+'' then (False, r) else (False, s)
                       | [] \<Rightarrow> (False, s));
          v = (if neg then - digits_value ds else digits_value ds)
      in if ds = [] \<or> \<not> list_all is_digit ds \<or> v < i64_MIN \<or> v > i64_MAX then None else Some v)"

fun split_at :: "char \<Rightarrow> string \<Rightarrow> string list" where
  "split_at c [] = [[]]"
| "split_at c (x # xs) =
     (if x = c then [] # split_at c xs
      else (case split_at c xs of [] \<Rightarrow> [[x]] | s # ss \<Rightarrow> (x # s) # ss))"

definition part_value :: "string \<Rightarrow> int" where
  "part_value s = (case parse_i64 s of Some v \<Rightarrow> v | None \<Rightarrow> 0)"

text \<open>The number and the last part after reading the dotted parts.\<close>

definition dotted :: "string list \<Rightarrow> int \<times> int" where
  "dotted parts = foldl (\<lambda>(n, last) x. (wrap_i64 (wrap_i64 (n * 1000) + part_value x), part_value x)) (0, 0) parts"

definition get_version_number :: "string \<Rightarrow> int" where
  "get_version_number v =
     (case split_at (CHR ''-'') v of
        [] \<Rightarrow> 0
      | first # rest \<Rightarrow>
          let (n, last) = dotted (split_at (CHR ''.'') first);
              n = wrap_i64 (wrap_i64 (n - last) + wrap_i64 (last * 10))
          in case rest of [] \<Rightarrow> n | r # _ \<Rightarrow> wrap_i64 (n + part_value r))"

subsection \<open>State\<close>

datatype login_union = PlainLogin | FileTransferLogin string bool | ViewCameraLogin | TerminalLogin string | PortForwardLogin string int

record login_request =
  lr_username :: string
  lr_password :: bytes
  lr_my_id :: string
  lr_my_name :: string
  lr_my_platform :: string
  lr_session_id :: nat
  lr_hwid :: bytes
  lr_version :: string
  lr_union :: login_union

datatype primary_auth = AuthNone | TemporaryPassword | PermanentPassword | Click | SwitchSides

datatype two_factor = TfNone | Totp | TrustedDeviceTf

datatype auth_conn_type = Remote | FileTransferConn | PortForwardConn | ViewCameraConn | TerminalConn

record conn =
  cn_ip :: string
  cn_salt :: bytes
  cn_challenge :: bytes
  cn_authorized :: bool
  cn_lr :: login_request
  cn_require_2fa :: bool
  cn_from_switch :: bool
  cn_file_transfer :: "(string \<times> bool) option"
  cn_view_camera :: bool
  cn_terminal :: bool
  cn_terminal_service_id :: string
  cn_port_forward_address :: string
  cn_port_forward_socket :: bool
  cn_auth_type :: "auth_conn_type option"
  cn_primary_auth :: primary_auth
  cn_two_factor :: two_factor

type_synonym session_key = "string \<times> string \<times> nat"

record session =
  se_random_password :: bytes
  se_tfa :: bool
  se_last_recv_time :: nat

record trusted_device =
  de_hwid :: bytes
  de_time :: int
  de_id :: string
  de_name :: string
  de_platform :: string

text \<open>State shared by all connections.\<close>

record shared =
  sh_sessions :: "(session_key, session) hashmap"
  sh_temporary_password :: bytes
  sh_tp_password :: bytes
  sh_tp_failures :: int
  sh_failures :: login_state
  sh_trusted_devices :: "trusted_device list"

text \<open>
  Configuration and surroundings: options, this machine's id, the stored passwords with their salts,
  the primitives, and at this moment the time, the next random password, the verdict on a TOTP code
  (\<^const>\<open>None\<close> for an error) and whether a forwarding target can be reached.
\<close>

record login_env =
  le_opt :: "string \<Rightarrow> string"
  le_builtin :: "string \<Rightarrow> string"
  le_control :: "string \<Rightarrow> bool option"
  le_id :: string
  le_direct_ip :: "string \<Rightarrow> bool"
  le_privacy_on :: bool
  le_prelogin :: bool
  le_local :: "bytes \<times> bytes"
  le_preset :: "bytes \<times> bytes"
  le_crypto :: crypto
  le_v6 :: ipv6_ops
  le_now_ms :: int
  le_instant :: nat
  le_fresh_password :: bytes
  le_totp :: "string \<Rightarrow> bool option"
  le_connects :: "string \<Rightarrow> bool"

datatype login_out = OutError string | OutCm bool | OutEffect login_effect

subsection \<open>Passwords\<close>

definition session_key :: "conn \<Rightarrow> session_key" where
  "session_key c = (lr_my_id (cn_lr c), lr_my_name (cn_lr c), lr_session_id (cn_lr c))"

definition verify_h1 :: "crypto \<Rightarrow> conn \<Rightarrow> bytes \<Rightarrow> bool" where
  "verify_h1 cy c h1 \<longleftrightarrow> cy_sha256 cy (h1 @ cn_challenge c) = lr_password (cn_lr c)"

definition validate_password_plain :: "crypto \<Rightarrow> conn \<Rightarrow> bytes \<Rightarrow> bool" where
  "validate_password_plain cy c password \<longleftrightarrow>
     password \<noteq> [] \<and> verify_h1 cy c (cy_sha256 cy (password @ cn_salt c))"

definition validate_password_storage :: "crypto \<Rightarrow> conn \<Rightarrow> bytes \<Rightarrow> bool" where
  "validate_password_storage cy c storage =
     (if storage = [] then False
      else case decode_permanent_password_h1_from_storage cy storage of
        Some h1 \<Rightarrow> verify_h1 cy c h1
      | None \<Rightarrow> validate_password_plain cy c storage)"

definition validate_preset_password_storage :: "crypto \<Rightarrow> conn \<Rightarrow> bytes \<Rightarrow> bytes \<Rightarrow> bool" where
  "validate_preset_password_storage cy c storage salt =
     (if salt = [] then validate_password_plain cy c storage
      else case decode_preset_password_h1_from_storage cy storage of
        None \<Rightarrow> False | Some h1 \<Rightarrow> verify_h1 cy c h1)"

definition MAX_CONSECUTIVE_FAILURES :: int where "MAX_CONSECUTIVE_FAILURES = 10"

definition check_update_temporary_password :: "login_env \<Rightarrow> bool \<Rightarrow> shared \<Rightarrow> shared" where
  "check_update_temporary_password env success sh =
     (if \<not> temporary_enabled (le_opt env) then sh
      else if sh_temporary_password sh = [] then sh
      else
        let sh = (if sh_tp_password sh \<noteq> sh_temporary_password sh
                  then sh\<lparr>sh_tp_password := sh_temporary_password sh, sh_tp_failures := 0\<rparr> else sh)
        in if success then sh\<lparr>sh_tp_failures := 0\<rparr>
           else
             let sh = sh\<lparr>sh_tp_failures := sh_tp_failures sh + 1\<rparr>
             in if sh_tp_failures sh < MAX_CONSECUTIVE_FAILURES then sh
                else sh\<lparr>sh_temporary_password := le_fresh_password env, sh_tp_password := le_fresh_password env,
                       sh_tp_failures := 0\<rparr>)"

definition update_or_insert_session :: "login_env \<Rightarrow> session_key \<Rightarrow> bytes option \<Rightarrow> bool option \<Rightarrow> shared \<Rightarrow> shared" where
  "update_or_insert_session env k password tfa sh =
     (case hm_get (sh_sessions sh) k of
        Some s \<Rightarrow>
          let s = (case password of Some p \<Rightarrow> s\<lparr>se_random_password := p\<rparr> | None \<Rightarrow> s);
              s = (case tfa of Some t \<Rightarrow> s\<lparr>se_tfa := t\<rparr> | None \<Rightarrow> s)
          in sh\<lparr>sh_sessions := hm_insert k s (sh_sessions sh)\<rparr>
      | None \<Rightarrow>
          sh\<lparr>sh_sessions := hm_insert k
               \<lparr>se_random_password = (case password of Some p \<Rightarrow> p | None \<Rightarrow> []),
                se_tfa = (case tfa of Some t \<Rightarrow> t | None \<Rightarrow> False),
                se_last_recv_time = le_instant env\<rparr> (sh_sessions sh)\<rparr>)"

definition set_session_2fa :: "login_env \<Rightarrow> session_key \<Rightarrow> shared \<Rightarrow> shared" where
  "set_session_2fa env k sh =
     (case hm_get (sh_sessions sh) k of
        Some s \<Rightarrow> sh\<lparr>sh_sessions := hm_insert k (s\<lparr>se_tfa := True\<rparr>) (sh_sessions sh)\<rparr>
      | None \<Rightarrow>
          sh\<lparr>sh_sessions := hm_insert k
               \<lparr>se_random_password = [], se_tfa = True, se_last_recv_time = le_instant env\<rparr> (sh_sessions sh)\<rparr>)"

definition validate_password :: "login_env \<Rightarrow> bool \<Rightarrow> conn \<Rightarrow> shared \<Rightarrow> bool \<times> conn \<times> shared" where
  "validate_password env allow_permanent c sh =
     (let cy = le_crypto env; opt = le_opt env in
      if temporary_enabled opt \<and> validate_password_plain cy c (sh_temporary_password sh) then
        (True, c\<lparr>cn_primary_auth := TemporaryPassword\<rparr>,
         check_update_temporary_password env True
           (update_or_insert_session env (session_key c) (Some (sh_temporary_password sh)) (Some False) sh))
      else if permanent_enabled opt \<or> allow_permanent then
        (let (storage, salt) = le_local env in
         if storage \<noteq> [] then
           (if local_permanent_password_storage_is_usable_for_auth cy storage salt \<and> validate_password_storage cy c storage
            then (True, c\<lparr>cn_primary_auth := PermanentPassword\<rparr>, sh) else (False, c, sh))
         else
           (let (hard, salt) = le_preset env in
            if preset_permanent_password_storage_is_usable_for_auth cy hard salt \<and> validate_preset_password_storage cy c hard salt
            then (True, c\<lparr>cn_primary_auth := PermanentPassword\<rparr>, sh) else (False, c, sh)))
      else (False, c, sh))"

definition SESSION_TIMEOUT_MS :: nat where "SESSION_TIMEOUT_MS = 30 * 1000"

definition is_recent_session :: "login_env \<Rightarrow> bool \<Rightarrow> conn \<Rightarrow> shared \<Rightarrow> bool \<times> conn \<times> shared" where
  "is_recent_session env tfa c sh =
     (let sh = sh\<lparr>sh_sessions := filter (\<lambda>(k, s). le_instant env - se_last_recv_time s < SESSION_TIMEOUT_MS) (sh_sessions sh)\<rparr>
      in case hm_get (sh_sessions sh) (session_key c) of
           Some s \<Rightarrow>
             if lr_password (cn_lr c) \<noteq> [] \<and> (tfa \<and> se_tfa s
                  \<or> \<not> tfa \<and> validate_password_plain (le_crypto env) c (se_random_password s))
             then (True, if tfa then c\<lparr>cn_two_factor := Totp\<rparr> else c\<lparr>cn_primary_auth := TemporaryPassword\<rparr>, sh)
             else (False, c, sh)
         | None \<Rightarrow> (False, c, sh))"

definition permission :: "login_env \<Rightarrow> string \<Rightarrow> bool" where
  "permission env option =
     (case le_control env option of Some enabled \<Rightarrow> enabled | None \<Rightarrow> option2bool option (le_opt env option))"

definition enable_trusted_devices :: "login_env \<Rightarrow> bool" where
  "enable_trusted_devices env = option2bool ''enable-trusted-devices'' (le_opt env ''enable-trusted-devices'')"

definition outdate :: "int \<Rightarrow> trusted_device \<Rightarrow> bool" where
  "outdate now d \<longleftrightarrow> wrap_i64 (de_time d + 90 * 24 * 60 * 60 * 1000) < now"

definition add_trusted_device :: "int \<Rightarrow> trusted_device \<Rightarrow> trusted_device list \<Rightarrow> trusted_device list" where
  "add_trusted_device now d ds = filter (\<lambda>d. \<not> outdate now d) (filter (\<lambda>x. de_hwid x \<noteq> de_hwid d) ds @ [d])"

definition reset_session_scope_for_login :: "conn \<Rightarrow> conn" where
  "reset_session_scope_for_login c =
     c\<lparr>cn_file_transfer := None, cn_view_camera := False, cn_terminal := False, cn_port_forward_address := []\<rparr>"

definition trusted_match :: "login_env \<Rightarrow> login_request \<Rightarrow> shared \<Rightarrow> bool" where
  "trusted_match env lr sh =
     (case find (\<lambda>d. de_hwid d = lr_hwid lr) (sh_trusted_devices sh) of
        Some d \<Rightarrow> \<not> outdate (le_now_ms env) d \<and> de_id d = lr_my_id lr \<and> de_name d = lr_my_name lr
                  \<and> de_platform d = lr_my_platform lr
      | None \<Rightarrow> False)"

definition handle_login_request_without_validation :: "login_env \<Rightarrow> login_request \<Rightarrow> shared \<Rightarrow> conn \<Rightarrow> conn" where
  "handle_login_request_without_validation env lr sh c =
     (let c = c\<lparr>cn_lr := lr\<rparr>
      in if cn_require_2fa c \<and> lr_hwid lr \<noteq> [] \<and> enable_trusted_devices env \<and> trusted_match env lr sh
         then c\<lparr>cn_two_factor := TrustedDeviceTf, cn_require_2fa := False\<rparr> else c)"

subsection \<open>Authorisation\<close>

definition normalize_port_forward_target :: "string \<Rightarrow> int \<Rightarrow> string \<times> bool" where
  "normalize_port_forward_target host port =
     (let rdp = (host = ''RDP'' \<and> port = 0);
          (host, port) = (if rdp then (''localhost'', 3389) else (host, port));
          host = (if host = [] then ''localhost'' else host)
      in (host @ '':'' @ show_int port, rdp))"

definition connect_port_forward_if_needed :: "login_env \<Rightarrow> conn \<Rightarrow> bool \<times> conn \<times> login_out list" where
  "connect_port_forward_if_needed env c =
     (if cn_port_forward_socket c then (True, c, [])
      else case lr_union (cn_lr c) of
        PortForwardLogin host port \<Rightarrow>
          let (addr, rdp) = normalize_port_forward_target host port;
              c = c\<lparr>cn_port_forward_address := addr\<rparr>
          in if le_connects env addr then (True, c\<lparr>cn_port_forward_socket := True\<rparr>, [])
             else (False, c, [OutError (''Failed to access remote '' @ (if rdp then ''RDP'' else addr)
                                        @ ''. Please make sure it is reachable/open.'')])
      | _ \<Rightarrow> (True, c, []))"

definition auth_type_of :: "conn \<Rightarrow> auth_conn_type" where
  "auth_type_of c =
     (if cn_file_transfer c \<noteq> None then FileTransferConn
      else if cn_port_forward_socket c then PortForwardConn
      else if cn_view_camera c then ViewCameraConn
      else if cn_terminal c then TerminalConn
      else Remote)"

definition normalize_conn_audit_auth_fields :: "conn \<Rightarrow> conn" where
  "normalize_conn_audit_auth_fields c =
     (if cn_primary_auth c = Click \<or> cn_primary_auth c = SwitchSides then c\<lparr>cn_two_factor := TfNone\<rparr> else c)"

definition send_logon_response_and_keep_alive ::
  "login_env \<Rightarrow> conn \<Rightarrow> shared \<Rightarrow> bool \<times> conn \<times> shared \<times> login_out list" where
  "send_logon_response_and_keep_alive env c sh =
     (if cn_authorized c then (True, c, sh, [])
      else
        let (recent, c1, sh1) = (if cn_require_2fa c then is_recent_session env True c sh else (False, c, sh))
        in if cn_require_2fa c \<and> \<not> recent \<and> \<not> cn_from_switch c
           then (True, c1, sh1, [OutError ''2FA Required''])
           else
             (case connect_port_forward_if_needed env c1 of
                (False, c2, out) \<Rightarrow> (False, c2, sh1, out)
              | (True, c2, out) \<Rightarrow>
                  (True, normalize_conn_audit_auth_fields
                           (c2\<lparr>cn_authorized := True, cn_auth_type := Some (auth_type_of c2)\<rparr>), sh1, out)))"

text \<open>The scope a login request asks for, or the refusal.\<close>

definition login_scope :: "login_env \<Rightarrow> login_request \<Rightarrow> conn \<Rightarrow> string + conn" where
  "login_scope env lr c =
     (case lr_union lr of
        FileTransferLogin dir hidden \<Rightarrow>
          if permission env ''enable-file-transfer'' then Inr (c\<lparr>cn_file_transfer := Some (dir, hidden)\<rparr>)
          else Inl ''No permission of file transfer''
      | ViewCameraLogin \<Rightarrow>
          if permission env ''enable-camera'' then Inr (c\<lparr>cn_view_camera := True\<rparr>)
          else Inl ''No permission of viewing camera''
      | TerminalLogin service \<Rightarrow>
          if permission env ''enable-terminal'' then Inr (c\<lparr>cn_terminal := True, cn_terminal_service_id := service\<rparr>)
          else Inl ''No permission of terminal''
      | PortForwardLogin host port \<Rightarrow>
          if permission env ''enable-tunnel''
          then Inr (c\<lparr>cn_port_forward_address := fst (normalize_port_forward_target host port)\<rparr>)
          else Inl ''No permission of IP tunneling''
      | PlainLogin \<Rightarrow>
          if le_privacy_on env then Inl ''Someone turns on privacy mode, exit'' else Inr c)"

definition has_permanent_password :: "login_env \<Rightarrow> bool" where
  "has_permanent_password env =
     (if fst (le_local env) \<noteq> []
      then local_permanent_password_storage_is_usable_for_auth (le_crypto env) (fst (le_local env)) (snd (le_local env))
      else preset_permanent_password_storage_is_usable_for_auth (le_crypto env) (fst (le_preset env)) (snd (le_preset env)))"

definition check_failure :: "login_env \<Rightarrow> nat \<Rightarrow> conn \<Rightarrow> shared \<Rightarrow> (failure \<times> int) \<times> bool \<times> shared \<times> login_out list" where
  "check_failure env i c sh =
     (case check_failure_with_scope (le_v6 env) (cn_ip c) (le_now_ms env) i Default (sh_failures sh) of
        ((ft, res, eff), fs) \<Rightarrow> (ft, res, sh\<lparr>sh_failures := fs\<rparr>, map OutEffect eff))"

definition update_failure :: "login_env \<Rightarrow> failure \<times> int \<Rightarrow> bool \<Rightarrow> nat \<Rightarrow> conn \<Rightarrow> shared \<Rightarrow> shared" where
  "update_failure env ft remove i c sh =
     sh\<lparr>sh_failures := update_failure_with_scope (le_v6 env) (cn_ip c) (le_now_ms env) ft remove i Default (sh_failures sh)\<rparr>"

text \<open>The logon response, and the login message to the connection manager that follows it.\<close>

definition respond :: "login_env \<Rightarrow> conn \<Rightarrow> shared \<Rightarrow> login_out list \<Rightarrow> bool \<times> conn \<times> shared \<times> login_out list" where
  "respond env c sh out =
     (case send_logon_response_and_keep_alive env c sh of
        (False, c, sh, ou) \<Rightarrow> (False, c, sh, out @ ou)
      | (True, c, sh, ou) \<Rightarrow> (True, c, sh, out @ ou @ [OutCm (cn_authorized c)]))"

definition check_password_login :: "login_env \<Rightarrow> bool \<Rightarrow> conn \<Rightarrow> shared \<Rightarrow> bool \<times> conn \<times> shared \<times> login_out list" where
  "check_password_login env allow c sh =
     (case check_failure env 0 c sh of
        (_, False, sh, out) \<Rightarrow> (True, c, sh, out)
      | (ft, True, sh, out) \<Rightarrow>
          (case validate_password env allow c sh of
             (False, c, sh) \<Rightarrow>
               (True, c, check_update_temporary_password env False (update_failure env ft False 0 c sh),
                out @ [OutError ''Wrong Password'', OutCm False])
           | (True, c, sh) \<Rightarrow> respond env c (update_failure env ft True 0 c sh) out))"

definition on_login_request :: "login_env \<Rightarrow> login_request \<Rightarrow> conn \<Rightarrow> shared \<Rightarrow> bool \<times> conn \<times> shared \<times> login_out list" where
  "on_login_request env lr c sh =
     (if cn_authorized c then (True, c, sh, [])
      else
        let c = handle_login_request_without_validation env lr sh c;
            c = reset_session_scope_for_login c
        in case login_scope env lr c of
             Inl e \<Rightarrow> (False, c, sh, [OutError e])
           | Inr c \<Rightarrow>
               if \<not> le_direct_ip env (lr_username lr) \<and> lr_username lr \<noteq> le_id env
               then (False, c, sh, [OutError ''Offline''])
               else
                 let mode = approve_mode_of (le_opt env);
                     allow = (le_builtin env ''allow-logon-screen-password'' = ''Y'' \<and> le_prelogin env)
                 in if (mode = ApproveClick \<and> \<not> allow)
                       \<or> (mode = ApproveBoth \<and> \<not> has_valid_password (le_opt env) (sh_temporary_password sh) (has_permanent_password env))
                    then (True, c, sh, OutCm False # (if get_version_number (lr_version lr) \<ge> get_version_number ''1.2.0''
                                                      then [OutError ''No Password Access''] else []))
                    else
                      (case is_recent_session env False c sh of
                         (True, c, sh) \<Rightarrow> respond env c sh []
                       | (False, c, sh) \<Rightarrow>
                           if lr_password lr = [] then (True, c, sh, [OutCm False])
                           else check_password_login env allow c sh))"

definition on_auth_2fa :: "login_env \<Rightarrow> string \<Rightarrow> bytes \<Rightarrow> conn \<Rightarrow> shared \<Rightarrow> bool \<times> conn \<times> shared \<times> login_out list" where
  "on_auth_2fa env code hwid c sh =
     (case check_failure env 1 c sh of
        (_, False, sh, out) \<Rightarrow> (True, c, sh, out)
      | (ft, True, sh, out) \<Rightarrow>
          if \<not> cn_require_2fa c then (True, c, sh, out)
          else case le_totp env code of
            None \<Rightarrow> (True, c, sh, out)
          | Some False \<Rightarrow> (True, c, update_failure env ft False 1 c sh, out @ [OutError ''Wrong 2FA Code''])
          | Some True \<Rightarrow>
              let sh = update_failure env ft True 1 c sh;
                  c = c\<lparr>cn_require_2fa := False, cn_two_factor := Totp\<rparr>;
                  sh = set_session_2fa env (session_key c) sh
              in case respond env c sh out of
                   (False, c, sh, out) \<Rightarrow> (False, c, sh, out)
                 | (True, c, sh, out) \<Rightarrow>
                     (True, c,
                      if hwid \<noteq> [] \<and> enable_trusted_devices env
                      then sh\<lparr>sh_trusted_devices := add_trusted_device (le_now_ms env)
                             \<lparr>de_hwid = hwid, de_time = le_now_ms env, de_id = lr_my_id (cn_lr c),
                              de_name = lr_my_name (cn_lr c), de_platform = lr_my_platform (cn_lr c)\<rparr> (sh_trusted_devices sh)\<rparr>
                      else sh, out))"

text \<open>The local user accepts the connection in the connection manager.\<close>

definition on_authorize :: "login_env \<Rightarrow> conn \<Rightarrow> shared \<Rightarrow> bool \<times> conn \<times> shared \<times> login_out list" where
  "on_authorize env c sh =
     send_logon_response_and_keep_alive env (c\<lparr>cn_primary_auth := Click, cn_require_2fa := False\<rparr>) sh"

subsection \<open>What makes a connection authorised\<close>

datatype login_event = LoginEv login_request | Auth2faEv string bytes | AuthorizeEv

fun login_step :: "login_env \<Rightarrow> login_event \<Rightarrow> conn \<Rightarrow> shared \<Rightarrow> bool \<times> conn \<times> shared \<times> login_out list" where
  "login_step env (LoginEv lr) c sh = on_login_request env lr c sh"
| "login_step env (Auth2faEv code hwid) c sh = on_auth_2fa env code hwid c sh"
| "login_step env AuthorizeEv c sh = on_authorize env c sh"

text \<open>A connection as \<^verbatim>\<open>Connection::start\<close> creates it, and a sequence of events until one closes it.\<close>

definition default_lr :: login_request where
  "default_lr = \<lparr>lr_username = [], lr_password = [], lr_my_id = [], lr_my_name = [], lr_my_platform = [], lr_session_id = 0,
     lr_hwid = [], lr_version = [], lr_union = PlainLogin\<rparr>"

definition new_conn :: "string \<Rightarrow> bytes \<Rightarrow> bytes \<Rightarrow> bool \<Rightarrow> conn" where
  "new_conn ip salt challenge require_2fa =
     \<lparr>cn_ip = ip, cn_salt = salt, cn_challenge = challenge, cn_authorized = False, cn_lr = default_lr,
      cn_require_2fa = require_2fa, cn_from_switch = False, cn_file_transfer = None, cn_view_camera = False,
      cn_terminal = False, cn_terminal_service_id = [], cn_port_forward_address = [], cn_port_forward_socket = False,
      cn_auth_type = None, cn_primary_auth = AuthNone, cn_two_factor = TfNone\<rparr>"

fun login_run :: "(login_env \<times> login_event) list \<Rightarrow> conn \<Rightarrow> shared \<Rightarrow> bool \<times> conn \<times> shared" where
  "login_run [] c sh = (True, c, sh)"
| "login_run ((env, ev) # evs) c sh =
     (case login_step env ev c sh of
        (False, c, sh, _) \<Rightarrow> (False, c, sh)
      | (True, c, sh, _) \<Rightarrow> login_run evs c sh)"

definition live_session :: "login_env \<Rightarrow> shared \<Rightarrow> session_key \<Rightarrow> session \<Rightarrow> bool" where
  "live_session env sh k s \<longleftrightarrow> (k, s) \<in> set (sh_sessions sh) \<and> le_instant env - se_last_recv_time s < SESSION_TIMEOUT_MS"

text \<open>The first hashes \<open>sha(password, salt)\<close> this machine accepts for a session key at this moment.\<close>

definition accepted_h1 :: "login_env \<Rightarrow> conn \<Rightarrow> shared \<Rightarrow> session_key \<Rightarrow> bytes set" where
  "accepted_h1 env c sh k =
     (let cy = le_crypto env; h = (\<lambda>pw. cy_sha256 cy (pw @ cn_salt c));
          logon = (le_builtin env ''allow-logon-screen-password'' = ''Y'' \<and> le_prelogin env) in
      {h1. temporary_enabled (le_opt env) \<and> sh_temporary_password sh \<noteq> [] \<and> h1 = h (sh_temporary_password sh)}
      \<union> {h1. \<exists>s. live_session env sh k s \<and> se_random_password s \<noteq> [] \<and> h1 = h (se_random_password s)}
      \<union> {h1. (permanent_enabled (le_opt env) \<or> logon) \<and> fst (le_local env) \<noteq> []
            \<and> local_permanent_password_storage_is_usable_for_auth cy (fst (le_local env)) (snd (le_local env))
            \<and> h1 = (case decode_permanent_password_h1_from_storage cy (fst (le_local env)) of Some x \<Rightarrow> x | None \<Rightarrow> h (fst (le_local env)))}
      \<union> {h1. (permanent_enabled (le_opt env) \<or> logon) \<and> fst (le_local env) = [] \<and> fst (le_preset env) \<noteq> []
            \<and> (if snd (le_preset env) = [] then h1 = h (fst (le_preset env))
                else decode_preset_password_h1_from_storage cy (fst (le_preset env)) = Some h1)})"

lemma filter_map_of: "map_of (filter P xs) k = Some v \<Longrightarrow> (k, v) \<in> set xs \<and> P (k, v)"
  by (drule map_of_SomeD) simp

lemma is_recent_session_cases:
  assumes "is_recent_session env tfa c sh = (r, c', sh')"
  shows "cn_authorized c' = cn_authorized c \<and> cn_require_2fa c' = cn_require_2fa c \<and> cn_lr c' = cn_lr c
    \<and> cn_from_switch c' = cn_from_switch c \<and> cn_salt c' = cn_salt c \<and> cn_challenge c' = cn_challenge c
    \<and> set (sh_sessions sh') \<subseteq> set (sh_sessions sh) \<and> sh_temporary_password sh' = sh_temporary_password sh
    \<and> (r \<longrightarrow> (\<exists>s. live_session env sh (session_key c) s \<and> (tfa \<longrightarrow> se_tfa s)
         \<and> (\<not> tfa \<longrightarrow> validate_password_plain (le_crypto env) c (se_random_password s))))"
  using assms
  by (auto simp: is_recent_session_def live_session_def Let_def dest!: filter_map_of split: option.splits if_splits)

text \<open>The second factor: not required, or a live session that has passed it.\<close>

lemma logon_authorizes:
  assumes "send_logon_response_and_keep_alive env c sh = (k, c', sh', out)" and "\<not> cn_authorized c"
    and "cn_authorized c'" and "\<not> cn_from_switch c"
  shows "cn_require_2fa c \<longrightarrow> (\<exists>s. live_session env sh (session_key c) s \<and> se_tfa s)"
proof -
  obtain r c1 sh1 where r: "is_recent_session env True c sh = (r, c1, sh1)" by (cases "is_recent_session env True c sh")
  from is_recent_session_cases [OF r] assms r show ?thesis
    by (auto simp: send_logon_response_and_keep_alive_def Let_def split: if_splits)
qed

lemma respond_authorizes:
  assumes "respond env c sh o1 = (k, c', sh', out)" and "\<not> cn_authorized c" and "cn_authorized c'" and "\<not> cn_from_switch c"
  shows "cn_require_2fa c \<longrightarrow> (\<exists>s. live_session env sh (session_key c) s \<and> se_tfa s)"
proof -
  obtain k1 c1 sh1 o2 where s: "send_logon_response_and_keep_alive env c sh = (k1, c1, sh1, o2)"
    by (cases "send_logon_response_and_keep_alive env c sh")
  with assms(1) have "c' = c1" by (auto simp: respond_def split: bool.splits)
  with logon_authorizes [OF s] assms show ?thesis by simp
qed

lemma validate_password_frame:
  assumes "validate_password env allow c sh = (r, c', sh')"
  shows "cn_authorized c' = cn_authorized c \<and> cn_require_2fa c' = cn_require_2fa c \<and> cn_lr c' = cn_lr c
    \<and> cn_from_switch c' = cn_from_switch c"
  using assms by (auto simp: validate_password_def Let_def split: if_splits prod.splits)

lemma validate_password_accepts:
  assumes "validate_password env allow c sh = (True, c', sh')"
    and "allow = (le_builtin env ''allow-logon-screen-password'' = ''Y'' \<and> le_prelogin env)"
  shows "\<exists>h1 \<in> accepted_h1 env c sh k. cy_sha256 (le_crypto env) (h1 @ cn_challenge c) = lr_password (cn_lr c)"
proof -
  let ?cy = "le_crypto env"
  obtain ls lt where l: "le_local env = (ls, lt)" by (cases "le_local env")
  obtain ps pt where p: "le_preset env = (ps, pt)" by (cases "le_preset env")
  consider (temp) "temporary_enabled (le_opt env)" "validate_password_plain ?cy c (sh_temporary_password sh)"
    | (perm) "permanent_enabled (le_opt env) \<or> allow" "ls \<noteq> []"
        "local_permanent_password_storage_is_usable_for_auth ?cy ls lt" "validate_password_storage ?cy c ls"
    | (preset) "permanent_enabled (le_opt env) \<or> allow" "ls = []"
        "preset_permanent_password_storage_is_usable_for_auth ?cy ps pt" "validate_preset_password_storage ?cy c ps pt"
    using assms(1) l p by (auto simp: validate_password_def Let_def split: if_splits)
  then show ?thesis
  proof cases
    case temp
    then show ?thesis
      by (intro bexI [of _ "cy_sha256 ?cy (sh_temporary_password sh @ cn_salt c)"])
        (auto simp: validate_password_plain_def verify_h1_def accepted_h1_def Let_def)
  next
    case perm
    then show ?thesis
      by (intro bexI [of _ "case decode_permanent_password_h1_from_storage ?cy ls of Some x \<Rightarrow> x | None \<Rightarrow> cy_sha256 ?cy (ls @ cn_salt c)"])
        (auto simp: validate_password_storage_def validate_password_plain_def verify_h1_def accepted_h1_def Let_def l assms(2)
          split: option.splits)
  next
    case preset
    then have ne: "ps \<noteq> []" by (auto simp: preset_permanent_password_storage_is_usable_for_auth_def)
    show ?thesis
    proof (cases "pt = []")
      case True
      with preset ne show ?thesis
        by (intro bexI [of _ "cy_sha256 ?cy (ps @ cn_salt c)"])
          (auto simp: validate_preset_password_storage_def validate_password_plain_def verify_h1_def accepted_h1_def Let_def l p assms(2))
    next
      case False
      with preset obtain h1 where "decode_preset_password_h1_from_storage ?cy ps = Some h1" "verify_h1 ?cy c h1"
        by (auto simp: validate_preset_password_storage_def split: option.splits)
      with preset ne False show ?thesis
        by (intro bexI [of _ h1]) (auto simp: verify_h1_def accepted_h1_def Let_def l p assms(2))
    qed
  qed
qed

lemma accepted_h1_mono:
  assumes "cn_salt c' = cn_salt c" and "sh_temporary_password sh' = sh_temporary_password sh"
    and "set (sh_sessions sh') \<subseteq> set (sh_sessions sh)"
  shows "accepted_h1 env c' sh' k \<subseteq> accepted_h1 env c sh k"
  using assms by (auto simp: accepted_h1_def Let_def live_session_def)

lemma check_failure_frame:
  "check_failure env i c sh = (ft, res, sh', out) \<Longrightarrow>
     sh_sessions sh' = sh_sessions sh \<and> sh_temporary_password sh' = sh_temporary_password sh"
  by (auto simp: check_failure_def split: prod.splits)

lemma update_failure_sessions [simp]: "sh_sessions (update_failure env ft r i c sh) = sh_sessions sh"
  by (simp add: update_failure_def)

lemma check_update_sessions [simp]: "sh_sessions (check_update_temporary_password env b sh) = sh_sessions sh"
  by (simp add: check_update_temporary_password_def Let_def)

text \<open>A password check grants no second factor that was not there before.\<close>

lemma validate_password_tfa:
  assumes "validate_password env allow c sh = (r, c', sh')" and "live_session env sh' k s" and "se_tfa s"
  shows "live_session env sh k s"
proof (cases "temporary_enabled (le_opt env) \<and> validate_password_plain (le_crypto env) c (sh_temporary_password sh)")
  case True
  with assms(1) have "sh_sessions sh' = sh_sessions (update_or_insert_session env (session_key c)
      (Some (sh_temporary_password sh)) (Some False) sh)"
    by (auto simp: validate_password_def Let_def)
  with assms(2,3) show ?thesis
    by (auto simp: live_session_def update_or_insert_session_def Let_def dest!: hm_set_insert split: option.splits)
next
  case False
  obtain ls lt ps pt where "le_local env = (ls, lt)" "le_preset env = (ps, pt)" by (metis surj_pair)
  with assms(1) False have "sh' = sh" by (simp add: validate_password_def Let_def split: if_splits)
  with assms(2) show ?thesis by simp
qed

lemma login_scope_frame:
  "login_scope env lr c = Inr c' \<Longrightarrow>
     cn_authorized c' = cn_authorized c \<and> cn_from_switch c' = cn_from_switch c \<and> cn_salt c' = cn_salt c
     \<and> cn_challenge c' = cn_challenge c \<and> cn_lr c' = cn_lr c \<and> cn_require_2fa c' = cn_require_2fa c"
  by (auto simp: login_scope_def split: login_union.splits if_splits)

lemma check_password_authorizes:
  assumes "check_password_login env allow c sh = (k, c', sh', out)" and "\<not> cn_authorized c" and "cn_authorized c'"
    and "\<not> cn_from_switch c" and "allow = (le_builtin env ''allow-logon-screen-password'' = ''Y'' \<and> le_prelogin env)"
  shows "(\<exists>h1 \<in> accepted_h1 env c sh key. cy_sha256 (le_crypto env) (h1 @ cn_challenge c) = lr_password (cn_lr c))
    \<and> (cn_require_2fa c \<longrightarrow> (\<exists>s. live_session env sh (session_key c) s \<and> se_tfa s))"
proof -
  obtain ft res sh1 o1 where f: "check_failure env 0 c sh = (ft, res, sh1, o1)" by (cases "check_failure env 0 c sh")
  obtain r c2 sh2 where v: "validate_password env allow c sh1 = (r, c2, sh2)" by (cases "validate_password env allow c sh1")
  note fr = validate_password_frame [OF v] and ff = check_failure_frame [OF f]
  have res: res using assms(1-3) f by (cases res) (auto simp: check_password_login_def)
  have r: r using assms(1-3) f v fr res by (cases r) (auto simp: check_password_login_def)
  have "respond env c2 (update_failure env ft True 0 c2 sh2) o1 = (k, c', sh', out)"
    using assms(1) f v res r by (simp add: check_password_login_def)
  from respond_authorizes [OF this] fr assms(2-4)
  have tfa: "cn_require_2fa c \<longrightarrow> (\<exists>s. live_session env sh2 (session_key c) s \<and> se_tfa s)"
    by (auto simp: session_key_def live_session_def)
  have "accepted_h1 env c sh1 key \<subseteq> accepted_h1 env c sh key" by (rule accepted_h1_mono) (use ff in auto)
  moreover have "\<exists>h1 \<in> accepted_h1 env c sh1 key. cy_sha256 (le_crypto env) (h1 @ cn_challenge c) = lr_password (cn_lr c)"
    by (rule validate_password_accepts [OF _ assms(5)]) (use v r in simp)
  moreover have "live_session env sh1 x s = live_session env sh x s" for x s using ff by (simp add: live_session_def)
  moreover have "cn_require_2fa c \<longrightarrow> (\<exists>s. live_session env sh1 (session_key c) s \<and> se_tfa s)"
    using tfa by (auto dest: validate_password_tfa [OF v])
  ultimately show ?thesis by (metis (no_types, lifting) subsetD)
qed


lemma is_recent_login_authorizes:
  assumes "is_recent_session env False c sh = (True, c1, sh1)" and "respond env c1 sh1 o1 = (k, c', sh', out)"
    and "\<not> cn_authorized c" and "cn_authorized c'" and "\<not> cn_from_switch c"
  shows "(\<exists>h1 \<in> accepted_h1 env c sh (session_key c). cy_sha256 (le_crypto env) (h1 @ cn_challenge c) = lr_password (cn_lr c))
    \<and> (cn_require_2fa c \<longrightarrow> (\<exists>s. live_session env sh (session_key c) s \<and> se_tfa s))"
proof -
  note fr = is_recent_session_cases [OF assms(1)]
  then obtain s where s: "live_session env sh (session_key c) s" "validate_password_plain (le_crypto env) c (se_random_password s)"
    by auto
  then have "cy_sha256 (le_crypto env) (se_random_password s @ cn_salt c) \<in> accepted_h1 env c sh (session_key c)"
    by (auto simp: accepted_h1_def Let_def validate_password_plain_def)
  moreover have "cy_sha256 (le_crypto env) (cy_sha256 (le_crypto env) (se_random_password s @ cn_salt c) @ cn_challenge c)
      = lr_password (cn_lr c)"
    using s(2) by (simp add: validate_password_plain_def verify_h1_def)
  moreover have "cn_require_2fa c1 \<longrightarrow> (\<exists>s. live_session env sh1 (session_key c1) s \<and> se_tfa s)"
    by (rule respond_authorizes [OF assms(2)]) (use fr assms in simp_all)
  then have "cn_require_2fa c \<longrightarrow> (\<exists>s. live_session env sh (session_key c) s \<and> se_tfa s)"
    using fr by (auto simp: session_key_def live_session_def)
  ultimately show ?thesis by blast
qed

lemma on_login_request_cases:
  assumes "on_login_request env lr c sh = (k, c', sh', out)" and "\<not> cn_authorized c"
    and "login_scope env lr (reset_session_scope_for_login (handle_login_request_without_validation env lr sh c)) = Inr c1"
    and "is_recent_session env False c1 sh = (r, c2, sh2)" and "cn_authorized c'" and "\<not> cn_authorized c1" and "\<not> cn_authorized c2"
  obtains (recent) "r" "respond env c2 sh2 [] = (k, c', sh', out)"
    | (pw) "\<not> r" "check_password_login env (le_builtin env ''allow-logon-screen-password'' = ''Y'' \<and> le_prelogin env) c2 sh2
        = (k, c', sh', out)"
proof -
  from assms(1) have "on_login_request env lr c sh = (k, c', sh', out)" .
  note eq = this [unfolded on_login_request_def Let_def assms(3,4) sum.case prod.case]
  show thesis
  proof (cases r)
    case True
    with eq assms(2,5,6) show thesis by (auto split: if_split_asm intro: recent)
  next
    case False
    with eq assms(2,5-7) show thesis by (auto split: if_split_asm intro: pw)
  qed
qed

lemma login_request_authorizes:
  assumes "on_login_request env lr c sh = (k, c', sh', out)" and "\<not> cn_authorized c" and "cn_authorized c'"
    and "\<not> cn_from_switch c"
  shows "(\<exists>h1 \<in> accepted_h1 env c sh (lr_my_id lr, lr_my_name lr, lr_session_id lr).
            cy_sha256 (le_crypto env) (h1 @ cn_challenge c) = lr_password lr)
    \<and> (cn_require_2fa c \<longrightarrow> lr_hwid lr \<noteq> [] \<and> enable_trusted_devices env \<and> trusted_match env lr sh
         \<or> (\<exists>s. live_session env sh (lr_my_id lr, lr_my_name lr, lr_session_id lr) s \<and> se_tfa s))"
proof -
  let ?c0 = "reset_session_scope_for_login (handle_login_request_without_validation env lr sh c)"
  let ?allow = "le_builtin env ''allow-logon-screen-password'' = ''Y'' \<and> le_prelogin env"
  have c0: "\<not> cn_authorized ?c0" "\<not> cn_from_switch ?c0" "cn_salt ?c0 = cn_salt c" "cn_challenge ?c0 = cn_challenge c"
    "cn_lr ?c0 = lr"
    "cn_require_2fa ?c0 = (cn_require_2fa c \<and> \<not> (lr_hwid lr \<noteq> [] \<and> enable_trusted_devices env \<and> trusted_match env lr sh))"
    using assms(2,4) by (auto simp: reset_session_scope_for_login_def handle_login_request_without_validation_def Let_def)
  obtain c1 where c1: "login_scope env lr ?c0 = Inr c1"
    using assms c0 by (cases "login_scope env lr ?c0") (auto simp: on_login_request_def)
  note fr = login_scope_frame [OF c1]
  have key: "session_key c1 = (lr_my_id lr, lr_my_name lr, lr_session_id lr)" using fr c0 by (simp add: session_key_def)
  have acc: "accepted_h1 env c1 sh k = accepted_h1 env c sh k" for k using fr c0 by (simp add: accepted_h1_def)
  obtain r c2 sh2 where r: "is_recent_session env False c1 sh = (r, c2, sh2)" by (cases "is_recent_session env False c1 sh")
  note rf = is_recent_session_cases [OF r]
  consider (recent) "r" "respond env c2 sh2 [] = (k, c', sh', out)"
    | (pw) "\<not> r" "check_password_login env ?allow c2 sh2 = (k, c', sh', out)"
  proof -
    have na: "\<not> cn_authorized c1" "\<not> cn_authorized c2" using fr c0 rf by simp_all
    show ?thesis
      by (rule on_login_request_cases [OF assms(1,2) c1 r assms(3) na]) (auto intro: that)
  qed
  then show ?thesis
  proof cases
    case recent
    have "is_recent_session env False c1 sh = (True, c2, sh2)" using r recent(1) by simp
    from is_recent_login_authorizes [OF this recent(2)] show ?thesis using assms(3) fr c0 key acc by auto
  next
    case pw
    have e: "cn_challenge c2 = cn_challenge c" "cn_lr c2 = lr" "cn_require_2fa c2 = cn_require_2fa ?c0" "session_key c2 = session_key c1"
      using fr c0 rf by (simp_all add: session_key_def)
    from check_password_authorizes [OF pw(2), of "session_key c1"] have
      A: "\<exists>h1 \<in> accepted_h1 env c2 sh2 (session_key c1). cy_sha256 (le_crypto env) (h1 @ cn_challenge c2) = lr_password (cn_lr c2)"
      and B: "cn_require_2fa c2 \<longrightarrow> (\<exists>s. live_session env sh2 (session_key c2) s \<and> se_tfa s)"
      using assms(3) fr c0 rf by simp_all
    have S: "accepted_h1 env c2 sh2 (session_key c1) \<subseteq> accepted_h1 env c1 sh (session_key c1)"
      by (rule accepted_h1_mono) (use rf in simp_all)
    have L: "live_session env sh2 (session_key c1) s \<Longrightarrow> live_session env sh (session_key c1) s" for s
      using rf by (auto simp: live_session_def session_key_def)
    have "\<exists>h1 \<in> accepted_h1 env c sh (session_key c1). cy_sha256 (le_crypto env) (h1 @ cn_challenge c) = lr_password lr"
      using A S unfolding e acc by blast
    moreover have "cn_require_2fa ?c0 \<longrightarrow> (\<exists>s. live_session env sh (session_key c1) s \<and> se_tfa s)"
      using B L unfolding e by blast
    ultimately show ?thesis unfolding key c0(6) by blast
  qed
qed



text \<open>The temporary password and the failures counted against it.\<close>

definition counted_failures :: "shared \<Rightarrow> int" where
  "counted_failures sh = (if sh_tp_password sh = sh_temporary_password sh then sh_tp_failures sh else 0)"

definition failed_checks :: "login_env list \<Rightarrow> shared \<Rightarrow> shared" where
  "failed_checks envs sh = fold (\<lambda>env. check_update_temporary_password env False) envs sh"

lemma failed_check_step:
  assumes "temporary_enabled (le_opt env)" and "sh_temporary_password sh \<noteq> []"
  shows "check_update_temporary_password env False sh =
    (if counted_failures sh + 1 < MAX_CONSECUTIVE_FAILURES
     then sh\<lparr>sh_tp_password := sh_temporary_password sh, sh_tp_failures := counted_failures sh + 1\<rparr>
     else sh\<lparr>sh_temporary_password := le_fresh_password env, sh_tp_password := le_fresh_password env, sh_tp_failures := 0\<rparr>)"
  using assms by (simp add: check_update_temporary_password_def counted_failures_def Let_def)

lemma failed_checks_count:
  assumes "\<forall>env \<in> set envs. temporary_enabled (le_opt env)" and "sh_temporary_password sh \<noteq> []"
    and "counted_failures sh + int (length envs) < MAX_CONSECUTIVE_FAILURES" and "envs \<noteq> []"
  shows "failed_checks envs sh =
    sh\<lparr>sh_tp_password := sh_temporary_password sh, sh_tp_failures := counted_failures sh + int (length envs)\<rparr>"
  using assms
proof (induction envs arbitrary: sh)
  case (Cons e es)
  let ?sh1 = "sh\<lparr>sh_tp_password := sh_temporary_password sh, sh_tp_failures := counted_failures sh + 1\<rparr>"
  have step: "failed_checks (e # es) sh = failed_checks es ?sh1"
    using Cons.prems failed_check_step [of e sh] by (simp add: failed_checks_def)
  have c1: "counted_failures ?sh1 = counted_failures sh + 1" by (simp add: counted_failures_def)
  show ?case
  proof (cases "es = []")
    case True
    with step show ?thesis by (simp add: failed_checks_def)
  next
    case False
    with Cons.IH [of ?sh1] Cons.prems c1 step show ?thesis by (simp add: ac_simps)
  qed
qed simp


text \<open>
  C20. The temporary password cannot be guessed at for long: with the temporary password enabled and set, and \<open>f\<close>
  failures counted against its present value, the next \<open>9 - f\<close> wrong attempts, whichever connection they come from,
  are only counted and leave it as it is; the one after them, the tenth in a row, replaces it by the next random
  password and restarts the count, with nothing else of the shared state changed.
\<close>

theorem temporary_password_rotates:
  assumes "\<forall>env \<in> set (envs @ [final]). temporary_enabled (le_opt env)" and "sh_temporary_password sh \<noteq> []"
    and "counted_failures sh + int (length envs) = 9"
  shows "sh_temporary_password (failed_checks envs sh) = sh_temporary_password sh
    \<and> counted_failures (failed_checks envs sh) = 9
    \<and> failed_checks (envs @ [final]) sh
        = sh\<lparr>sh_temporary_password := le_fresh_password final, sh_tp_password := le_fresh_password final, sh_tp_failures := 0\<rparr>"
proof (cases "envs = []")
  case True
  with assms show ?thesis
    by (simp add: failed_checks_def failed_check_step MAX_CONSECUTIVE_FAILURES_def)
next
  case False
  let ?sh1 = "sh\<lparr>sh_tp_password := sh_temporary_password sh, sh_tp_failures := 9\<rparr>"
  have eq: "failed_checks envs sh = ?sh1"
    using failed_checks_count [of envs sh] assms False by (simp add: MAX_CONSECUTIVE_FAILURES_def)
  have c9: "counted_failures ?sh1 = 9" by (simp add: counted_failures_def)
  have "failed_checks (envs @ [final]) sh = check_update_temporary_password final False (failed_checks envs sh)"
    by (simp add: failed_checks_def)
  also have "\<dots> = check_update_temporary_password final False ?sh1" by (simp only: eq)
  also have "\<dots> = sh\<lparr>sh_temporary_password := le_fresh_password final, sh_tp_password := le_fresh_password final, sh_tp_failures := 0\<rparr>"
    using failed_check_step [of final ?sh1] assms(1,2) c9 by (simp add: MAX_CONSECUTIVE_FAILURES_def)
  finally show ?thesis using eq c9 by simp
qed

text \<open>A configuration with the temporary password only.\<close>

definition demo_env :: login_env where
  "demo_env = \<lparr>le_opt = (\<lambda>x. if x = ''verification-method'' then ''use-temporary-password'' else []),
     le_builtin = (\<lambda>_. []), le_control = (\<lambda>_. None), le_id = ''123456789'', le_direct_ip = (\<lambda>_. False),
     le_privacy_on = False, le_prelogin = False, le_local = ([], []), le_preset = ([], []), le_crypto = demo_crypto,
     le_v6 = demo_v6, le_now_ms = 0, le_instant = 0, le_fresh_password = lit ''zx81qk'',
     le_totp = (\<lambda>code. Some (code = ''123456'')), le_connects = (\<lambda>_. True)\<rparr>"

definition demo_shared :: shared where
  "demo_shared = \<lparr>sh_sessions = [], sh_temporary_password = lit ''ab12cd'', sh_tp_password = lit ''ab12cd'', sh_tp_failures = 8,
     sh_failures = demo_login, sh_trusted_devices = []\<rparr>"

theorem temporary_password_rotates_witness:
  "sh_temporary_password (failed_checks [demo_env, demo_env] demo_shared) = lit ''zx81qk''"
proof -
  have en: "temporary_enabled (le_opt demo_env)" by code_simp
  have pw: "sh_temporary_password demo_shared \<noteq> []" by code_simp
  have ct: "counted_failures demo_shared = 8" by code_simp
  have fr: "le_fresh_password demo_env = lit ''zx81qk''" by (simp add: demo_env_def)
  from temporary_password_rotates [of "[demo_env]" demo_env demo_shared] en pw ct fr show ?thesis by simp
qed

text \<open>
  C21. A correct TOTP code alone authorises: a connection that requires a second factor and has sent no login request at
  all (so no password, no id and no scope) is authorised for remote control by an \<open>Auth2fa\<close> message with the right code,
  as long as the code limiter admits the attempt; no password is ever checked, and the sender's device is enrolled as
  trusted if it names one.
\<close>

theorem totp_alone_authorises:
  assumes "le_totp env code = Some True"
    and "fst (snd (check_failure env 1 (new_conn ip salt challenge True) sh))"
  shows "case on_auth_2fa env code hwid (new_conn ip salt challenge True) sh of
      (keep, c, sh', out) \<Rightarrow> keep \<and> cn_authorized c \<and> cn_auth_type c = Some Remote \<and> cn_primary_auth c = AuthNone
        \<and> (hwid \<noteq> [] \<and> enable_trusted_devices env \<and> 0 \<le> le_now_ms env \<and> le_now_ms env < 2 ^ 62
             \<longrightarrow> (\<exists>d \<in> set (sh_trusted_devices sh'). de_hwid d = hwid \<and> de_id d = []))"
proof -
  obtain ft sh1 o1 where f: "check_failure env 1 (new_conn ip salt challenge True) sh = (ft, True, sh1, o1)"
    using assms(2) by (cases "check_failure env 1 (new_conn ip salt challenge True) sh") auto
  let ?d = "\<lparr>de_hwid = hwid, de_time = le_now_ms env, de_id = [], de_name = [], de_platform = []\<rparr>"
  have "?d \<in> set (add_trusted_device (le_now_ms env) ?d ds)" if "0 \<le> le_now_ms env" "le_now_ms env < 2 ^ 62" for ds
    using that by (simp add: add_trusted_device_def outdate_def i64_MIN_def i64_MAX_def)
  then have enrol: "\<exists>d \<in> set (add_trusted_device (le_now_ms env) ?d ds). de_hwid d = hwid \<and> de_id d = []"
    if "0 \<le> le_now_ms env" "le_now_ms env < 2 ^ 62" for ds
    using that by (intro bexI [of _ ?d]) simp_all
  from f assms(1) enrol show ?thesis
    by (simp add: on_auth_2fa_def respond_def send_logon_response_and_keep_alive_def connect_port_forward_if_needed_def
        new_conn_def default_lr_def auth_type_of_def normalize_conn_audit_auth_fields_def Let_def)
qed

theorem totp_alone_authorises_witness:
  "case on_auth_2fa demo_env ''123456'' [] (new_conn ''10.0.0.7'' [] [] True) demo_shared of
     (keep, c, sh', out) \<Rightarrow> keep \<and> cn_authorized c"
proof -
  have a: "le_totp demo_env ''123456'' = Some True" by (simp add: demo_env_def)
  have b: "fst (snd (check_failure demo_env 1 (new_conn ''10.0.0.7'' [] [] True) demo_shared))" by code_simp
  from totp_alone_authorises [OF a b, of "[]"] show ?thesis by (auto split: prod.splits)
qed


definition demo_lr :: login_request where
  "demo_lr = \<lparr>lr_username = ''123456789'',
     lr_password = cy_sha256 demo_crypto (cy_sha256 demo_crypto (lit ''ab12cd'' @ lit ''s'') @ lit ''c''),
     lr_my_id = ''987'', lr_my_name = ''peer'', lr_my_platform = ''Linux'', lr_session_id = 7, lr_hwid = [],
     lr_version = ''1.4.0'', lr_union = FileTransferLogin ''/home'' True\<rparr>"

lemma demo_login:
  "case login_run [(demo_env, LoginEv demo_lr)] (new_conn ''10.0.0.7'' (lit ''s'') (lit ''c'') False) demo_shared of
     (k, c, _) \<Rightarrow> k \<and> cn_authorized c \<and> cn_auth_type c = Some FileTransferConn \<and> cn_file_transfer c \<noteq> None \<and> \<not> cn_port_forward_socket c"
  by code_simp


subsection \<open>The scope of an authorised connection\<close>

text \<open>
  Every scope recorded so far, and the one the last login request asks for, has its permission, and
  the camera and the terminal are never both recorded.
\<close>

definition scope_permitted :: "(string \<Rightarrow> bool) \<Rightarrow> conn \<Rightarrow> bool" where
  "scope_permitted p c \<longleftrightarrow>
     (cn_file_transfer c \<noteq> None \<longrightarrow> p ''enable-file-transfer'')
     \<and> (cn_view_camera c \<longrightarrow> p ''enable-camera'')
     \<and> (cn_terminal c \<longrightarrow> p ''enable-terminal'')
     \<and> (cn_port_forward_socket c \<longrightarrow> p ''enable-tunnel'')
     \<and> (\<forall>host port. lr_union (cn_lr c) = PortForwardLogin host port \<longrightarrow> p ''enable-tunnel'')
     \<and> (cn_authorized c \<longrightarrow> cn_auth_type c = Some (auth_type_of c))
     \<and> \<not> (cn_view_camera c \<and> cn_terminal c)"

definition auth_permitted :: "(string \<Rightarrow> bool) \<Rightarrow> auth_conn_type \<Rightarrow> bool" where
  "auth_permitted p t =
     (case t of Remote \<Rightarrow> True | FileTransferConn \<Rightarrow> p ''enable-file-transfer'' | PortForwardConn \<Rightarrow> p ''enable-tunnel''
      | ViewCameraConn \<Rightarrow> p ''enable-camera'' | TerminalConn \<Rightarrow> p ''enable-terminal'')"

definition same_scope :: "conn \<Rightarrow> conn \<Rightarrow> bool" where
  "same_scope c c' \<longleftrightarrow> cn_file_transfer c' = cn_file_transfer c \<and> cn_view_camera c' = cn_view_camera c
     \<and> cn_terminal c' = cn_terminal c \<and> cn_port_forward_socket c' = cn_port_forward_socket c \<and> cn_lr c' = cn_lr c
     \<and> cn_authorized c' = cn_authorized c \<and> cn_auth_type c' = cn_auth_type c"

lemma same_scope_permitted: "same_scope c c' \<Longrightarrow> scope_permitted p c \<Longrightarrow> scope_permitted p c'"
  by (simp add: same_scope_def scope_permitted_def auth_type_of_def)

lemma is_recent_session_scope: "is_recent_session env tfa c sh = (r, c', sh') \<Longrightarrow> same_scope c c'"
  by (auto simp: is_recent_session_def same_scope_def Let_def split: option.splits if_splits)

lemma validate_password_scope:
  assumes "validate_password env allow c sh = (r, c', sh')" shows "same_scope c c'"
proof -
  obtain ls lt ps pt where "le_local env = (ls, lt)" "le_preset env = (ps, pt)" by (metis surj_pair)
  with assms show ?thesis by (auto simp: validate_password_def same_scope_def Let_def split: if_splits)
qed

lemma connect_cases:
  "connect_port_forward_if_needed env c = (r, c', out) \<Longrightarrow>
     c' = c \<or> (\<exists>a. c' = c\<lparr>cn_port_forward_address := a\<rparr>)
     \<or> (\<exists>a host port. lr_union (cn_lr c) = PortForwardLogin host port
          \<and> c' = c\<lparr>cn_port_forward_address := a, cn_port_forward_socket := True\<rparr>)"
  by (cases "lr_union (cn_lr c)") (auto simp: connect_port_forward_if_needed_def Let_def split: if_split_asm prod.split_asm)

lemma connect_permitted:
  "connect_port_forward_if_needed env c = (r, c', out) \<Longrightarrow> scope_permitted p c \<Longrightarrow> \<not> cn_authorized c \<Longrightarrow>
     scope_permitted p c' \<and> \<not> cn_authorized c'"
  by (drule connect_cases) (elim disjE exE conjE; simp add: scope_permitted_def)

lemma authorised_permitted:
  "scope_permitted p c \<Longrightarrow>
     scope_permitted p (normalize_conn_audit_auth_fields (c\<lparr>cn_authorized := True, cn_auth_type := Some (auth_type_of c)\<rparr>))"
  by (simp add: scope_permitted_def normalize_conn_audit_auth_fields_def auth_type_of_def)

lemma logon_permitted:
  assumes "send_logon_response_and_keep_alive env c sh = (k, c', sh', out)" and "scope_permitted p c"
  shows "scope_permitted p c'"
proof (cases "cn_authorized c")
  case True
  with assms show ?thesis by (simp add: send_logon_response_and_keep_alive_def)
next
  case False
  obtain r c1 sh1 where r: "(if cn_require_2fa c then is_recent_session env True c sh else (False, c, sh)) = (r, c1, sh1)"
    by (cases "if cn_require_2fa c then is_recent_session env True c sh else (False, c, sh)")
  then have "same_scope c c1" by (auto simp: same_scope_def dest: is_recent_session_scope split: if_splits)
  with assms(2) False have c1: "scope_permitted p c1" "\<not> cn_authorized c1"
    by (auto intro: same_scope_permitted simp: same_scope_def)
  obtain r2 c2 o2 where f: "connect_port_forward_if_needed env c1 = (r2, c2, o2)" by (cases "connect_port_forward_if_needed env c1")
  note c2 = connect_permitted [OF f c1]
  have "c' = c1 \<or> c' = c2 \<or> c' = normalize_conn_audit_auth_fields (c2\<lparr>cn_authorized := True, cn_auth_type := Some (auth_type_of c2)\<rparr>)"
    using assms(1) False r f by (auto simp: send_logon_response_and_keep_alive_def split: if_split_asm bool.splits)
  with c1 c2 authorised_permitted show ?thesis by metis
qed

lemma respond_permitted:
  assumes "respond env c sh o1 = (k, c', sh', out)" and "scope_permitted p c" shows "scope_permitted p c'"
proof -
  obtain k1 c1 sh1 o2 where s: "send_logon_response_and_keep_alive env c sh = (k1, c1, sh1, o2)"
    by (cases "send_logon_response_and_keep_alive env c sh")
  with assms(1) have "c' = c1" by (auto simp: respond_def split: bool.splits)
  with logon_permitted [OF s assms(2)] show ?thesis by simp
qed

lemma check_password_permitted:
  assumes "check_password_login env allow c sh = (k, c', sh', out)" and "scope_permitted p c"
  shows "scope_permitted p c'"
proof -
  obtain ft res sh1 o1 where f: "check_failure env 0 c sh = (ft, res, sh1, o1)" by (cases "check_failure env 0 c sh")
  obtain r c2 sh2 where v: "validate_password env allow c sh1 = (r, c2, sh2)" by (cases "validate_password env allow c sh1")
  note c2 = same_scope_permitted [OF validate_password_scope [OF v] assms(2)]
  have "c' = c \<or> c' = c2 \<or> respond env c2 (update_failure env ft True 0 c2 sh2) o1 = (k, c', sh', out)"
    using assms(1) f v by (cases res; cases r) (simp_all add: check_password_login_def)
  with assms(2) c2 respond_permitted show ?thesis by blast
qed

lemma login_scope_permitted:
  assumes "login_scope env lr c = Inr c'" and "cn_lr c = lr" and "scope_permitted (permission env) (c\<lparr>cn_lr := default_lr\<rparr>)"
    and "\<not> cn_authorized c" and "\<not> cn_view_camera c" and "\<not> cn_terminal c"
  shows "scope_permitted (permission env) c'"
  using assms by (cases "lr_union lr") (auto simp: login_scope_def scope_permitted_def split: if_splits)

lemma reset_permitted:
  assumes "scope_permitted p c" and "\<not> cn_authorized c"
  shows "scope_permitted p ((reset_session_scope_for_login (handle_login_request_without_validation env lr sh c))\<lparr>cn_lr := default_lr\<rparr>)
    \<and> \<not> cn_authorized (reset_session_scope_for_login (handle_login_request_without_validation env lr sh c))
    \<and> cn_lr (reset_session_scope_for_login (handle_login_request_without_validation env lr sh c)) = lr
    \<and> \<not> cn_view_camera (reset_session_scope_for_login (handle_login_request_without_validation env lr sh c))
    \<and> \<not> cn_terminal (reset_session_scope_for_login (handle_login_request_without_validation env lr sh c))"
  using assms
  by (simp add: scope_permitted_def reset_session_scope_for_login_def handle_login_request_without_validation_def Let_def default_lr_def)

lemma on_login_request_permitted:
  assumes "on_login_request env lr c sh = (True, c', sh', out)" and "scope_permitted (permission env) c"
  shows "scope_permitted (permission env) c'"
proof (cases "cn_authorized c")
  case True
  with assms show ?thesis by (simp add: on_login_request_def)
next
  case False
  let ?c0 = "reset_session_scope_for_login (handle_login_request_without_validation env lr sh c)"
  note c0 = reset_permitted [OF assms(2) False, of env lr sh]
  obtain c1 where c1: "login_scope env lr ?c0 = Inr c1"
    using assms False by (cases "login_scope env lr ?c0") (auto simp: on_login_request_def)
  have p1: "scope_permitted (permission env) c1" by (rule login_scope_permitted [OF c1]) (use c0 in simp_all)
  obtain r c2 sh2 where r: "is_recent_session env False c1 sh = (r, c2, sh2)" by (cases "is_recent_session env False c1 sh")
  note p2 = same_scope_permitted [OF is_recent_session_scope [OF r] p1]
  note eq = assms(1) [unfolded on_login_request_def Let_def c1 r sum.case prod.case]
  have "c' = c1 \<or> c' = c2 \<or> (\<exists>o1. respond env c2 sh2 o1 = (True, c', sh', out))
    \<or> (\<exists>allow. check_password_login env allow c2 sh2 = (True, c', sh', out))"
    using eq False by (cases r) (auto split: if_split_asm)
  then show ?thesis using p1 p2 respond_permitted check_password_permitted by blast
qed


lemma on_auth_2fa_permitted:
  assumes "on_auth_2fa env code hwid c sh = (k, c', sh', out)" and "scope_permitted p c"
  shows "scope_permitted p c'"
proof -
  let ?c1 = "c\<lparr>cn_require_2fa := False, cn_two_factor := Totp\<rparr>"
  obtain ft res sh1 o1 where f: "check_failure env 1 c sh = (ft, res, sh1, o1)" by (cases "check_failure env 1 c sh")
  have p1: "scope_permitted p ?c1" using assms(2) by (simp add: scope_permitted_def auth_type_of_def)
  let ?sh2 = "set_session_2fa env (session_key ?c1) (update_failure env ft True 1 c sh1)"
  obtain k2 c2 sh3 o2 where r: "respond env ?c1 ?sh2 o1 = (k2, c2, sh3, o2)" by (cases "respond env ?c1 ?sh2 o1")
  note p2 = respond_permitted [OF r p1]
  note eq = assms(1) [unfolded on_auth_2fa_def f prod.case Let_def r]
  have "c' = c \<or> c' = c2"
  proof (cases "res \<and> cn_require_2fa c \<and> le_totp env code = Some True")
    case True
    with eq have "(case k2 of True \<Rightarrow> True | False \<Rightarrow> True) \<and> c' = c2" by (cases k2) simp_all
    then show ?thesis by simp
  next
    case False
    with eq show ?thesis by (cases res; cases "cn_require_2fa c"; cases "le_totp env code") (auto split: bool.splits)
  qed
  with assms(2) p2 show ?thesis by auto
qed

lemma login_step_permitted:
  assumes "login_step env ev c sh = (True, c', sh', out)" and "scope_permitted (permission env) c"
  shows "scope_permitted (permission env) c'"
proof (cases ev)
  case (LoginEv lr)
  with assms show ?thesis by (auto intro: on_login_request_permitted)
next
  case (Auth2faEv code hwid)
  with assms show ?thesis by (auto intro: on_auth_2fa_permitted)
next
  case AuthorizeEv
  have "scope_permitted (permission env) (c\<lparr>cn_primary_auth := Click, cn_require_2fa := False\<rparr>)"
    using assms(2) by (simp add: scope_permitted_def auth_type_of_def)
  with AuthorizeEv assms(1) show ?thesis by (auto simp: on_authorize_def intro: logon_permitted)
qed

lemma login_run_permitted:
  assumes "\<forall>(env, ev) \<in> set evs. permission env = p" and "scope_permitted p c" and "login_run evs c sh = (True, c', sh')"
  shows "scope_permitted p c'"
  using assms
proof (induction evs arbitrary: c sh)
  case (Cons a evs)
  obtain env ev where a: "a = (env, ev)" by (cases a)
  obtain k c1 sh1 o1 where st: "login_step env ev c sh = (k, c1, sh1, o1)" by (cases "login_step env ev c sh")
  have k: k using Cons.prems(3) a st by (cases k) simp_all
  have p: "permission env = p" using Cons.prems(1) a by simp
  have "scope_permitted p c1" using login_step_permitted [of env ev c sh c1 sh1 o1] st k p Cons.prems(2) by simp
  with Cons.IH [of c1 sh1] Cons.prems a st k show ?case by simp
qed simp

text \<open>
  C22. No scope without its permission: whatever sequence of login requests, two-factor codes and local consents a new
  connection goes through, if it stays open and ends up authorised then the kind of session it was authorised for
  (file transfer, port forwarding, camera, terminal) is one the permissions in force allow, even when an earlier
  request asked for another scope.
\<close>

theorem authorised_scope_permitted:
  assumes "\<forall>(env, ev) \<in> set evs. permission env = p"
    and "login_run evs (new_conn ip salt challenge tfa) sh = (True, c, sh')" and "cn_authorized c"
  shows "\<exists>t. cn_auth_type c = Some t \<and> t = auth_type_of c \<and> auth_permitted p t"
proof -
  have "scope_permitted p (new_conn ip salt challenge tfa)" by (simp add: scope_permitted_def new_conn_def default_lr_def)
  from login_run_permitted [OF assms(1) this assms(2)] assms(3) show ?thesis
    by (auto simp: scope_permitted_def auth_permitted_def auth_type_of_def split: if_splits)
qed

theorem authorised_scope_permitted_witness:
  "auth_permitted (permission demo_env) FileTransferConn"
proof -
  let ?c = "new_conn ''10.0.0.7'' (lit ''s'') (lit ''c'') False"
  let ?evs = "[(demo_env, LoginEv demo_lr)]"
  obtain k c sh where r: "login_run ?evs ?c demo_shared = (k, c, sh)" by (cases "login_run ?evs ?c demo_shared")
  have k: k and a: "cn_authorized c" and t: "cn_auth_type c = Some FileTransferConn"
    using demo_login unfolding r by simp_all
  have r': "login_run ?evs ?c demo_shared = (True, c, sh)" using r k by simp
  from authorised_scope_permitted [OF _ r' a, of "permission demo_env"] t show ?thesis by auto
qed

end
