(* ===== verification/Param_Sets.thy ===== *)
theory Param_Sets
  imports Prelude
begin

text \<open>
  Parameter-set extraction for the hardware decoders
  (\<^verbatim>\<open>libs/scrap/src/common/mediacodec.rs\<close>, \<^verbatim>\<open>is_param_nal\<close> and \<^verbatim>\<open>extract_param_sets\<close>):
  an Annex-B buffer is scanned for start codes and the VPS/SPS/PPS units are copied out with their
  start codes. Slices and indices are checked, as in Rust; the lemmas show that the scan never
  panics and computes exactly the parameter units of the grammar-directed split \<open>nals\<close>.
\<close>

definition is_param_nal :: "bytes \<Rightarrow> bool \<Rightarrow> bool" where
  "is_param_nal nal hevc =
     (if length nal < 2 then False
      else if hevc then drop_bit 1 (nal ! 0 AND 0x7E) \<in> {32, 33, 34}
      else nal ! 0 AND 0x1F \<in> {7, 8})"

text \<open>The \<^verbatim>\<open>while i + 3 <= n\<close> loop: the offsets at which a start code begins.\<close>

function scan_starts :: "bytes \<Rightarrow> nat \<Rightarrow> nat list \<Rightarrow> nat list" where
  "scan_starts d i starts =
     (if i + 3 \<le> length d then
        if d ! i = 0 \<and> d ! (i + 1) = 0 then
          if d ! (i + 2) = 1 then scan_starts d (i + 3) (starts @ [i])
          else if i + 4 \<le> length d \<and> d ! (i + 2) = 0 \<and> d ! (i + 3) = 1
          then scan_starts d (i + 4) (starts @ [i])
          else scan_starts d (i + 1) starts
        else scan_starts d (i + 1) starts
      else starts)"
  by pat_completeness auto
termination
  by (relation "measure (\<lambda>(d, i, starts). length d - i)") auto

declare scan_starts.simps [simp del]

text \<open>The \<^verbatim>\<open>for (k, &s) in starts.iter().enumerate()\<close> loop; \<open>e\<close> is the next start or the end.\<close>

fun collect_params :: "bytes \<Rightarrow> bool \<Rightarrow> nat list \<Rightarrow> bytes \<Rightarrow> bytes rust" where
  "collect_params d hevc [] csd = Ret csd"
| "collect_params d hevc (s # starts) csd =
     (let e = (case starts of [] \<Rightarrow> length d | s' # _ \<Rightarrow> s') in
      rust_bind (index_at d (s + 2)) (\<lambda>b.
      let hdr = (if b = 1 then 3 else 4) in
      rust_bind (slice d (s + hdr) e) (\<lambda>nal.
      if is_param_nal nal hevc
      then rust_bind (slice d s e) (\<lambda>unit. collect_params d hevc starts (csd @ unit))
      else collect_params d hevc starts csd)))"

definition extract_param_sets :: "bytes \<Rightarrow> bool \<Rightarrow> bytes option rust" where
  "extract_param_sets d hevc =
     (let starts = scan_starts d 0 [] in
      if starts = [] then Ret None
      else rust_bind (collect_params d hevc starts []) (\<lambda>csd.
        Ret (if csd = [] then None else Some csd)))"

subsection \<open>Reference: the split of an Annex-B buffer\<close>

text \<open>
  The bytes before the first start code, and then each unit as its start code and its body. The
  shorter start code is tried first, from left to right.
\<close>

fun nals :: "bytes \<Rightarrow> bytes \<times> (bytes \<times> bytes) list" where
  "nals [] = ([], [])"
| "nals (x # xs) =
     (if take 3 (x # xs) = [0, 0, 1] then ([], ([0, 0, 1], fst (nals (drop 2 xs))) # snd (nals (drop 2 xs)))
      else if take 4 (x # xs) = [0, 0, 0, 1]
      then ([], ([0, 0, 0, 1], fst (nals (drop 3 xs))) # snd (nals (drop 3 xs)))
      else (x # fst (nals xs), snd (nals xs)))"

declare nals.simps(2) [simp del]

definition unit_bytes :: "bytes \<times> bytes \<Rightarrow> bytes" where
  "unit_bytes u = fst u @ snd u"

definition param_units :: "bool \<Rightarrow> (bytes \<times> bytes) list \<Rightarrow> bytes" where
  "param_units hevc us = concat (map unit_bytes (filter (\<lambda>u. is_param_nal (snd u) hevc) us))"

text \<open>Where the units of a split start, the first one at \<open>o\<close>.\<close>

fun offsets :: "nat \<Rightarrow> (bytes \<times> bytes) list \<Rightarrow> nat list" where
  "offsets off [] = []"
| "offsets off (u # us) = off # offsets (off + length (unit_bytes u)) us"

definition start_code :: "bytes \<Rightarrow> bool" where
  "start_code sc \<longleftrightarrow> sc = [0, 0, 1] \<or> sc = [0, 0, 0, 1]"

subsection \<open>The split is lossless\<close>

lemma nals_lossless: "fst (nals d) @ concat (map unit_bytes (snd (nals d))) = d"
proof (induction d rule: nals.induct)
  case 1
  then show ?case by simp
next
  case (2 x xs)
  have t: "take 3 (x # xs) = [0, 0, 1] \<Longrightarrow> x # xs = [0, 0, 1] @ drop 2 xs"
    using append_take_drop_id [of 3 "x # xs"] by simp
  have q: "take 4 (x # xs) = [0, 0, 0, 1] \<Longrightarrow> x # xs = [0, 0, 0, 1] @ drop 3 xs"
    using append_take_drop_id [of 4 "x # xs"] by simp
  show ?case
    using 2 t q by (simp add: nals.simps unit_bytes_def)
qed

lemma nals_start_codes: "u \<in> set (snd (nals d)) \<Longrightarrow> start_code (fst u)"
  by (induction d rule: nals.induct) (auto simp: nals.simps start_code_def split: if_splits)

subsection \<open>The scan finds the units' offsets\<close>

lemma take_Suc_drop:
  "take (Suc n) (drop i d) = (if i < length d then d ! i # take n (drop (Suc i) d) else [])"
  by (simp add: Cons_nth_drop_Suc [symmetric])

lemma take3_drop_iff:
  "take 3 (drop i d) = [a, b, c] \<longleftrightarrow> i + 3 \<le> length d \<and> d ! i = a \<and> d ! (i + 1) = b \<and> d ! (i + 2) = c"
  by (auto simp: eval_nat_numeral take_Suc_drop split: if_splits)

lemma take4_drop_iff:
  "take 4 (drop i d) = [a, b, c, e] \<longleftrightarrow>
     i + 4 \<le> length d \<and> d ! i = a \<and> d ! (i + 1) = b \<and> d ! (i + 2) = c \<and> d ! (i + 3) = e"
  by (auto simp: eval_nat_numeral take_Suc_drop split: if_splits)

lemma nals_drop:
  assumes "i < length d"
  shows "nals (drop i d) =
     (if i + 3 \<le> length d \<and> d ! i = 0 \<and> d ! (i + 1) = 0 \<and> d ! (i + 2) = 1
      then ([], ([0, 0, 1], fst (nals (drop (i + 3) d))) # snd (nals (drop (i + 3) d)))
      else if i + 4 \<le> length d \<and> d ! i = 0 \<and> d ! (i + 1) = 0 \<and> d ! (i + 2) = 0 \<and> d ! (i + 3) = 1
      then ([], ([0, 0, 0, 1], fst (nals (drop (i + 4) d))) # snd (nals (drop (i + 4) d)))
      else (d ! i # fst (nals (drop (i + 1) d)), snd (nals (drop (i + 1) d))))"
proof -
  have c: "drop i d = d ! i # drop (Suc i) d"
    using assms by (simp add: Cons_nth_drop_Suc)
  have n: "nals (drop i d) =
     (if take 3 (drop i d) = [0, 0, 1]
      then ([], ([0, 0, 1], fst (nals (drop (i + 3) d))) # snd (nals (drop (i + 3) d)))
      else if take 4 (drop i d) = [0, 0, 0, 1]
      then ([], ([0, 0, 0, 1], fst (nals (drop (i + 4) d))) # snd (nals (drop (i + 4) d)))
      else (d ! i # fst (nals (drop (i + 1) d)), snd (nals (drop (i + 1) d))))"
    unfolding c nals.simps drop_drop by (simp add: eval_nat_numeral)
  show ?thesis unfolding n take3_drop_iff take4_drop_iff ..
qed

lemma nals_short: "length d < 3 \<Longrightarrow> snd (nals d) = []"
  by (induction d rule: nals.induct) (auto simp: nals.simps dest: arg_cong [where f = length])

lemma scan_starts_offsets:
  "i \<le> length d \<Longrightarrow> scan_starts d i starts =
     starts @ offsets (i + length (fst (nals (drop i d)))) (snd (nals (drop i d)))"
proof (induction d i starts rule: scan_starts.induct)
  case (1 d i starts)
  show ?case
  proof (cases "i + 3 \<le> length d")
    case False
    then have "snd (nals (drop i d)) = []" by (intro nals_short) auto
    then show ?thesis using False by (subst scan_starts.simps) simp
  next
    case True
    then have "i < length d" by simp
    note nd = nals_drop [OF this]
    show ?thesis
      unfolding nd by (subst scan_starts.simps) (use 1 True in \<open>auto simp: unit_bytes_def eval_nat_numeral\<close>)
  qed
qed

subsection \<open>The copy loop collects the parameter units\<close>

lemma collect_params_units:
  assumes "list_all (\<lambda>u. start_code (fst u)) us"
    and "d = pre @ concat (map unit_bytes us)"
  shows "collect_params d hevc (offsets (length pre) us) csd = Ret (csd @ param_units hevc us)"
  using assms
proof (induction us arbitrary: pre csd)
  case Nil
  then show ?case by (simp add: param_units_def)
next
  case (Cons u us)
  obtain sc body where u: "u = (sc, body)" by (cases u)
  let ?rest = "concat (map unit_bytes us)"
  let ?e = "length pre + length sc + length body"
  have sc: "start_code sc" using Cons.prems u by simp
  have d: "d = pre @ sc @ body @ ?rest" using Cons.prems(2) by (simp add: u unit_bytes_def [of "(sc, body)"])
  have e: "(case offsets ?e us of [] \<Rightarrow> length d | s' # _ \<Rightarrow> s') = ?e"
    using d by (cases us) auto
  have ix: "index_at d (length pre + 2) = Ret (sc ! 2)"
    using sc by (auto simp: d start_code_def index_at_def nth_append)
  have hdr: "(if sc ! 2 = 1 then 3 else 4) = length sc"
    using sc by (auto simp: start_code_def)
  have nal: "slice d (length pre + length sc) ?e = Ret body"
    by (simp add: d slice_def)
  have whole: "slice d (length pre) ?e = Ret (sc @ body)"
    by (simp add: d slice_def)
  have IH: "collect_params d hevc (offsets ?e us) csd' = Ret (csd' @ param_units hevc us)" for csd'
    using Cons.IH [of "pre @ sc @ body" csd'] Cons.prems d u by (simp add: add.assoc)
  have off: "offsets (length pre) (u # us) = length pre # offsets ?e us"
    by (simp add: u unit_bytes_def add.assoc)
  show ?case
    unfolding off collect_params.simps e ix Let_def rust_bind.simps hdr nal whole IH
    by (simp add: u param_units_def unit_bytes_def)
qed

lemma extract_param_sets_units:
  "extract_param_sets d hevc =
     Ret (let csd = param_units hevc (snd (nals d)) in if csd = [] then None else Some csd)"
proof -
  have s: "scan_starts d 0 [] = offsets (length (fst (nals d))) (snd (nals d))"
    using scan_starts_offsets [of 0 d "[]"] by simp
  have "list_all (\<lambda>u. start_code (fst u)) (snd (nals d))"
    by (auto simp: list_all_iff intro: nals_start_codes)
  then have "collect_params d hevc (scan_starts d 0 []) [] = Ret (param_units hevc (snd (nals d)))"
    unfolding s by (subst collect_params_units) (auto simp: nals_lossless)
  then show ?thesis
    by (cases "snd (nals d)") (auto simp: extract_param_sets_def s Let_def param_units_def)
qed

subsection \<open>Properties\<close>


end
