(* ===== verification/Goke_Bridge.thy ===== *)
theory Goke_Bridge
  imports Param_Sets
begin

text \<open>
  The client of the GK6323 decoder daemon (\<^verbatim>\<open>libs/scrap/src/common/goke.rs\<close>): the sending half
  (\<^verbatim>\<open>GokeDecoder::new/send/decode/drop\<close>) writes a hello and then length-framed access units to a
  Unix socket; the receiving half (\<^verbatim>\<open>render_loop\<close>) reads decoded RGBA frames and copies them row
  by row into the locked surface buffer.

  The socket is a record of the bytes accepted so far and the point at which the peer stops
  accepting (\<^verbatim>\<open>write_all\<close> fails there after a partial write). The results of the
  \<^verbatim>\<open>ANativeWindow_*\<close> calls are arguments, one \<open>frame_env\<close> per frame; an access outside the
  surface's memory is \<^const>\<open>Panic\<close>, standing for the undefined behaviour of the unsafe copy.
\<close>

subsection \<open>Socket\<close>

record socket =
  sk_out :: bytes
  sk_limit :: "nat option"
  sk_shutdown :: bool

definition write_all :: "socket \<Rightarrow> bytes \<Rightarrow> (io_error + unit) \<times> socket" where
  "write_all s d =
     (case sk_limit s of
        None \<Rightarrow> (Inr (), s\<lparr>sk_out := sk_out s @ d\<rparr>)
      | Some k \<Rightarrow>
          if length (sk_out s) + length d \<le> k then (Inr (), s\<lparr>sk_out := sk_out s @ d\<rparr>)
          else (Inl (OtherIo ''broken pipe''), s\<lparr>sk_out := take k (sk_out s @ d)\<rparr>))"

subsection \<open>Sending half\<close>

datatype codec_format = VP8 | VP9 | AV1 | H264 | H265 | Unknown

definition HELLO :: u32 where "HELLO = 0x474b4849"
definition INPUT :: u32 where "INPUT = 0x474b494e"
definition OUTPUT :: u32 where "OUTPUT = 0x47524631"
definition MAX_RGBA :: nat where "MAX_RGBA = 4096 * 2304 * 4"

record goke_decoder =
  gd_stream :: socket
  gd_worker :: bool
  gd_csd_sent :: bool
  gd_hevc :: bool

text \<open>What \<^verbatim>\<open>GokeDecoder::new\<close> finds: the surface pointer and the results of the system calls.\<close>

record goke_env =
  ge_window :: nat
  ge_connect :: "socket option"
  ge_clone_ok :: bool
  ge_spawn_ok :: bool

definition goke_codec_id :: "codec_format \<Rightarrow> u32 option" where
  "goke_codec_id codec = (case codec of H264 \<Rightarrow> Some 4 | H265 \<Rightarrow> Some 36 | _ \<Rightarrow> None)"

definition goke_new :: "goke_env \<Rightarrow> codec_format \<Rightarrow> goke_decoder option" where
  "goke_new env codec =
     (case goke_codec_id codec of
        None \<Rightarrow> None
      | Some codec_id \<Rightarrow>
          if ge_window env = 0 then None
          else case ge_connect env of
            None \<Rightarrow> None
          | Some stream \<Rightarrow>
              (case write_all stream (u32_to_le_bytes HELLO) of
                 (Inl _, _) \<Rightarrow> None
               | (Inr _, stream) \<Rightarrow>
                   (case write_all stream (u32_to_le_bytes codec_id) of
                      (Inl _, _) \<Rightarrow> None
                    | (Inr _, stream) \<Rightarrow>
                        if \<not> ge_clone_ok env then None
                        else if \<not> ge_spawn_ok env then None
                        else Some \<lparr>gd_stream = stream, gd_worker = True, gd_csd_sent = False,
                                   gd_hevc = (codec_id = 36)\<rparr>)))"

definition send :: "goke_decoder \<Rightarrow> bytes \<Rightarrow> (io_error + unit) \<times> goke_decoder" where
  "send g dat =
     (if 2 ^ 32 \<le> length dat then (Inl (OtherIo ''out of range integral type conversion attempted''), g)
      else case write_all (gd_stream g) (u32_to_le_bytes INPUT) of
        (Inl e, s) \<Rightarrow> (Inl e, g\<lparr>gd_stream := s\<rparr>)
      | (Inr _, s) \<Rightarrow>
          (case write_all s (u32_to_le_bytes (of_nat (length dat))) of
             (Inl e, s) \<Rightarrow> (Inl e, g\<lparr>gd_stream := s\<rparr>)
           | (Inr _, s) \<Rightarrow>
               (case write_all s dat of
                  (Inl e, s) \<Rightarrow> (Inl e, g\<lparr>gd_stream := s\<rparr>)
                | (Inr _, s) \<Rightarrow> (Inr (), g\<lparr>gd_stream := s\<rparr>))))"

definition goke_decode :: "goke_decoder \<Rightarrow> bytes \<Rightarrow> ((io_error + bool) \<times> goke_decoder) rust" where
  "goke_decode g dat =
     (let rest = (\<lambda>g. case send g dat of (Inl e, g) \<Rightarrow> (Inl e, g) | (Inr _, g) \<Rightarrow> (Inr True, g)) in
      if \<not> gd_csd_sent g then
        rust_bind (extract_param_sets dat (gd_hevc g)) (\<lambda>csd.
          case csd of
            Some csd \<Rightarrow>
              (case send g csd of
                 (Inl e, g) \<Rightarrow> Ret (Inl e, g)
               | (Inr _, g) \<Rightarrow> Ret (rest (g\<lparr>gd_csd_sent := True\<rparr>)))
          | None \<Rightarrow> Ret (rest (g\<lparr>gd_csd_sent := True\<rparr>)))
      else Ret (rest g))"

definition goke_drop :: "goke_decoder \<Rightarrow> goke_decoder" where
  "goke_drop g = g\<lparr>gd_stream := (gd_stream g)\<lparr>sk_shutdown := True\<rparr>, gd_worker := False\<rparr>"

text \<open>A session: \<open>decode\<close> called on each access unit in turn, stopping at the first error.\<close>

fun goke_session :: "goke_decoder \<Rightarrow> bytes list \<Rightarrow> ((io_error + unit) \<times> goke_decoder) rust" where
  "goke_session g [] = Ret (Inr (), g)"
| "goke_session g (d # ds) =
     rust_bind (goke_decode g d) (\<lambda>r. case r of
       (Inl e, g) \<Rightarrow> Ret (Inl e, g)
     | (Inr _, g) \<Rightarrow> goke_session g ds)"

subsection \<open>Receiving half\<close>

record native_window_buffer =
  nb_height :: int
  nb_stride :: int
  nb_bits :: "bytes option"

text \<open>What the four window calls answer for one frame (0 is success).\<close>

record frame_env =
  fe_set_geometry :: int
  fe_lock :: int
  fe_buffer :: native_window_buffer
  fe_unlock :: int

datatype win_event = Acquire | SetGeometry u32 u32 | Lock | Post bytes | UnlockUnchanged | Release

definition header_words :: "bytes \<Rightarrow> u32 \<times> u32 \<times> u32 \<times> u32" where
  "header_words h =
     (u32_from_le_bytes (take 4 h), u32_from_le_bytes (take 4 (drop 4 h)),
      u32_from_le_bytes (take 4 (drop 8 h)), u32_from_le_bytes (take 4 (drop 12 h)))"

definition bad_header :: "u32 \<Rightarrow> u32 \<Rightarrow> u32 \<Rightarrow> u32 \<Rightarrow> bool" where
  "bad_header magic width height len \<longleftrightarrow>
     magic \<noteq> OUTPUT \<or> width = 0 \<or> height = 0 \<or> width > 4096 \<or> height > 2304
     \<or> unat len \<noteq> unat width * unat height * 4 \<or> unat len > MAX_RGBA"

text \<open>
  \<^verbatim>\<open>ptr::copy_nonoverlapping(src, dst, n)\<close> at the given offsets; outside either buffer it is
  undefined behaviour.
\<close>

definition copy_at :: "bytes \<Rightarrow> nat \<Rightarrow> bytes \<Rightarrow> nat \<Rightarrow> nat \<Rightarrow> bytes rust" where
  "copy_at src so dst dof n =
     (if so + n \<le> length src \<and> dof + n \<le> length dst
      then Ret (take dof dst @ take n (drop so src) @ drop (dof + n) dst)
      else Panic)"

text \<open>\<^verbatim>\<open>for row in 0..height\<close>, from row \<open>row\<close> with \<open>k\<close> rows to go.\<close>

fun copy_rows :: "bytes \<Rightarrow> nat \<Rightarrow> nat \<Rightarrow> nat \<Rightarrow> nat \<Rightarrow> bytes \<Rightarrow> bytes rust" where
  "copy_rows pixels width stride row 0 dst = Ret dst"
| "copy_rows pixels width stride row (Suc k) dst =
     rust_bind (copy_at pixels (row * width * 4) dst (row * stride * 4) (width * 4))
       (copy_rows pixels width stride (Suc row) k)"

text \<open>
  One turn of the loop after the header and the pixels have been read: the new size and the window
  events, and whether the loop goes on.
\<close>

definition present_frame ::
  "frame_env \<Rightarrow> u32 \<times> u32 \<Rightarrow> u32 \<Rightarrow> u32 \<Rightarrow> bytes \<Rightarrow> (bool \<times> (u32 \<times> u32) \<times> win_event list) rust" where
  "present_frame env sz width height pixels =
     (if sz \<noteq> (width, height) \<and> fe_set_geometry env \<noteq> 0
      then Ret (False, sz, [SetGeometry width height])
      else
        let geo = (if sz \<noteq> (width, height) then [SetGeometry width height] else []);
            sz = (width, height)
        in if fe_lock env \<noteq> 0 then Ret (False, sz, geo @ [Lock])
           else case nb_bits (fe_buffer env) of
             None \<Rightarrow> Ret (False, sz, geo @ [Lock])
           | Some dst \<Rightarrow>
               if nb_stride (fe_buffer env) < int (unat width) \<or> nb_height (fe_buffer env) < int (unat height)
               then Ret (False, sz, geo @ [Lock, UnlockUnchanged])
               else rust_bind
                 (copy_rows pixels (unat width) (nat (nb_stride (fe_buffer env))) 0 (unat height) dst)
                 (\<lambda>dst. Ret (fe_unlock env = 0, sz, geo @ [Lock, Post dst])))"

text \<open>
  The loop: \<open>rest\<close> are the bytes the daemon sends before the stream ends, \<open>env\<close> gives the answers
  of the window calls frame by frame. Every turn consumes at least the sixteen header bytes.
\<close>

function render_frames ::
  "(nat \<Rightarrow> frame_env) \<Rightarrow> bytes \<Rightarrow> u32 \<times> u32 \<Rightarrow> u32 \<Rightarrow> (u32 \<times> win_event list) rust" where
  "render_frames env rest sz frames =
     (if length rest < 16 then Ret (frames, [])
      else case header_words (take 16 rest) of (magic, width, height, len) \<Rightarrow>
        if bad_header magic width height len then Ret (frames, [])
        else if length rest < 16 + unat len then Ret (frames, [])
        else rust_bind (present_frame (env 0) sz width height (take (unat len) (drop 16 rest)))
          (\<lambda>(go, sz', evs).
             if go
             then rust_bind (render_frames (\<lambda>k. env (Suc k)) (drop (16 + unat len) rest) sz' (frames + 1))
               (\<lambda>(frames', evs'). Ret (frames', evs @ evs'))
             else Ret (frames, evs)))"
  by pat_completeness auto
termination
  by (relation "measure (\<lambda>(env, rest, sz, frames). length rest)") auto

declare render_frames.simps [simp del]

definition render_loop :: "(nat \<Rightarrow> frame_env) \<Rightarrow> bytes \<Rightarrow> (u32 \<times> win_event list) rust" where
  "render_loop env stream =
     rust_bind (render_frames env stream (0, 0) 0)
       (\<lambda>(frames, evs). Ret (frames, Acquire # evs @ [Release]))"

subsection \<open>Sending: what is on the wire\<close>

text \<open>The daemon's input protocol, as a specification: a magic word, a length, the bytes.\<close>

definition input_frame :: "bytes \<Rightarrow> bytes" where
  "input_frame d = u32_to_le_bytes INPUT @ u32_to_le_bytes (of_nat (length d)) @ d"

text \<open>What a session must have sent before the access units: the first unit's parameter sets.\<close>

definition first_csd :: "bool \<Rightarrow> bytes list \<Rightarrow> bytes list" where
  "first_csd hevc ds =
     (case ds of [] \<Rightarrow> []
      | d # _ \<Rightarrow> (let csd = param_units hevc (snd (nals d)) in if csd = [] then [] else [csd]))"

lemma write_all_ok:
  "write_all s d = (Inr u, s') \<Longrightarrow> sk_out s' = sk_out s @ d \<and> sk_limit s' = sk_limit s"
  by (auto simp: write_all_def split: option.splits if_splits)

lemma write_all_prefix:
  "write_all s d = (r, s') \<Longrightarrow> (\<forall>k. sk_limit s = Some k \<longrightarrow> length (sk_out s) \<le> k) \<Longrightarrow>
     prefix (sk_out s) (sk_out s') \<and> prefix (sk_out s') (sk_out s @ d)"
  by (auto simp: write_all_def take_is_prefix split: option.splits if_splits)

lemma send_ok:
  assumes "send g d = (Inr u, g')"
  shows "sk_out (gd_stream g') = sk_out (gd_stream g) @ input_frame d
    \<and> gd_csd_sent g' = gd_csd_sent g \<and> gd_hevc g' = gd_hevc g"
  using assms
  by (auto simp: send_def input_frame_def split: if_splits prod.splits sum.splits dest!: write_all_ok)

lemma send_error_keeps: "send g d = (r, g') \<Longrightarrow> gd_csd_sent g' = gd_csd_sent g \<and> gd_hevc g' = gd_hevc g"
  by (auto simp: send_def split: if_splits prod.splits sum.splits)

lemma goke_decode_csd_sent:
  assumes "gd_csd_sent g" and "goke_decode g d = Ret (Inr b, g')"
  shows "sk_out (gd_stream g') = sk_out (gd_stream g) @ input_frame d
    \<and> gd_csd_sent g' \<and> gd_hevc g' = gd_hevc g"
  using assms by (auto simp: goke_decode_def Let_def split: prod.splits sum.splits dest!: send_ok)

lemma goke_decode_first:
  assumes "\<not> gd_csd_sent g" and "goke_decode g d = Ret (Inr b, g')"
  shows "sk_out (gd_stream g') = sk_out (gd_stream g)
      @ concat (map input_frame (first_csd (gd_hevc g) [d])) @ input_frame d
    \<and> gd_csd_sent g' \<and> gd_hevc g' = gd_hevc g"
  using assms
  by (auto simp: goke_decode_def extract_param_sets_units first_csd_def Let_def
      split: prod.splits sum.splits if_splits dest!: send_ok)

lemma goke_session_csd_sent:
  "gd_csd_sent g \<Longrightarrow> goke_session g ds = Ret (Inr u, g') \<Longrightarrow>
     sk_out (gd_stream g') = sk_out (gd_stream g) @ concat (map input_frame ds)"
proof (induction ds arbitrary: g)
  case Nil
  then show ?case by simp
next
  case (Cons d ds)
  then obtain g1 b where "goke_decode g d = Ret (Inr b, g1)" "goke_session g1 ds = Ret (Inr u, g')"
    by (cases "goke_decode g d") (auto split: prod.splits sum.splits)
  with Cons goke_decode_csd_sent show ?case by fastforce
qed

lemma goke_decode_total: "\<exists>r g'. goke_decode g d = Ret (r, g')"
  by (auto simp: goke_decode_def extract_param_sets_units Let_def split: option.splits prod.splits sum.splits)

lemma goke_session_total: "\<exists>r g'. goke_session g ds = Ret (r, g')"
proof (induction ds arbitrary: g)
  case (Cons d ds)
  obtain r g1 where "goke_decode g d = Ret (r, g1)" using goke_decode_total by blast
  with Cons show ?case by (cases r) auto
qed simp

lemma goke_new_hello:
  assumes "goke_new env codec = Some g" and "ge_connect env = Some s" and "sk_out s = []"
  shows "codec \<in> {H264, H265} \<and> ge_window env \<noteq> 0 \<and> \<not> gd_csd_sent g \<and> gd_hevc g = (codec = H265)
    \<and> sk_out (gd_stream g) = u32_to_le_bytes HELLO @ u32_to_le_bytes (if codec = H265 then 36 else 4)"
  using assms
  by (cases codec)
     (auto simp: goke_new_def goke_codec_id_def split: if_splits prod.splits sum.splits dest!: write_all_ok)

subsection \<open>Receiving: the unsafe copy stays inside the surface\<close>

lemma copy_at_length: "copy_at src so dst dof n = Ret dst' \<Longrightarrow> length dst' = length dst"
  by (auto simp: copy_at_def split: if_splits)

lemma copy_at_nth:
  assumes "copy_at src so dst dof n = Ret dst'" and "j < length dst"
  shows "dst' ! j = (if dof \<le> j \<and> j < dof + n then src ! (so + (j - dof)) else dst ! j)"
proof -
  have b: "so + n \<le> length src" "dof + n \<le> length dst"
    and d: "dst' = take dof dst @ take n (drop so src) @ drop (dof + n) dst"
    using assms(1) by (auto simp: copy_at_def split: if_splits)
  then have "length (take n (drop so src)) = n" "length (take dof dst) = dof" by simp_all
  with b assms(2) show ?thesis
    unfolding d by (auto simp: nth_append simp del: length_take length_drop)
qed

text \<open>The row loop succeeds when every row fits, and writes exactly the rows' pixels.\<close>

lemma row_fits:
  fixes width :: nat
  assumes "row < height" and "width \<le> stride"
  shows "row * stride * 4 + width * 4 \<le> stride * height * 4"
proof -
  have "row * stride + width \<le> Suc row * stride" using assms by simp
  also have "\<dots> \<le> height * stride" using assms(1) by (intro mult_le_mono1) simp
  finally show ?thesis by (simp add: ac_simps)
qed

lemma copy_rows_total:
  assumes "width \<le> stride" and "row + k \<le> bh" and "row + k \<le> h"
    and "length pixels = width * h * 4" and "length dst = stride * bh * 4"
  shows "\<exists>dst'. copy_rows pixels width stride row k dst = Ret dst' \<and> length dst' = length dst"
  using assms
proof (induction k arbitrary: row dst)
  case (Suc k)
  have "row * width * 4 + width * 4 \<le> length pixels"
    using row_fits [of row h width width] Suc.prems by simp
  moreover have "row * stride * 4 + width * 4 \<le> length dst"
    using row_fits [of row bh width stride] Suc.prems by simp
  ultimately obtain d1 where d1: "copy_at pixels (row * width * 4) dst (row * stride * 4) (width * 4) = Ret d1"
    by (simp add: copy_at_def)
  then have "length d1 = length dst" by (rule copy_at_length)
  with Suc.IH [of "Suc row" d1] Suc.prems d1 show ?case by auto
qed simp

lemma in_row_iff:
  fixes j :: nat
  assumes "0 < s" and "w \<le> s"
  shows "r * s \<le> j \<and> j < r * s + w \<longleftrightarrow> j div s = r \<and> j mod s < w"
proof
  assume "r * s \<le> j \<and> j < r * s + w"
  then obtain c where "j = r * s + c" "c < w" by (metis le_Suc_ex nat_add_left_cancel_less)
  with assms show "j div s = r \<and> j mod s < w" by simp
next
  assume "j div s = r \<and> j mod s < w"
  moreover have "j = j div s * s + j mod s" by simp
  ultimately show "r * s \<le> j \<and> j < r * s + w" by (metis le_add1 nat_add_left_cancel_less)
qed

lemma copy_rows_nth:
  assumes "0 < stride" and "width \<le> stride"
    and "copy_rows pixels width stride row k dst = Ret dst'" and "j < length dst"
  shows "dst' ! j =
    (if row \<le> j div (stride * 4) \<and> j div (stride * 4) < row + k \<and> j mod (stride * 4) < width * 4
     then pixels ! (j div (stride * 4) * (width * 4) + j mod (stride * 4)) else dst ! j)"
  using assms(3,4)
proof (induction k arbitrary: row dst)
  case (Suc k)
  then obtain d1 where d1: "copy_at pixels (row * width * 4) dst (row * stride * 4) (width * 4) = Ret d1"
    and rest: "copy_rows pixels width stride (Suc row) k d1 = Ret dst'"
    by (cases "copy_at pixels (row * width * 4) dst (row * stride * 4) (width * 4)") auto
  have len: "length d1 = length dst" using d1 by (rule copy_at_length)
  have in_row: "row * stride * 4 \<le> j \<and> j < row * stride * 4 + width * 4
      \<longleftrightarrow> j div (stride * 4) = row \<and> j mod (stride * 4) < width * 4"
    using in_row_iff [of "stride * 4" "width * 4" row j] assms(1,2) by (simp add: ac_simps)
  have off: "j - row * stride * 4 = j mod (stride * 4)" if "j div (stride * 4) = row"
    using that by (simp add: modulo_nat_def ac_simps)
  have "d1 ! j = (if j div (stride * 4) = row \<and> j mod (stride * 4) < width * 4
      then pixels ! (j div (stride * 4) * (width * 4) + j mod (stride * 4)) else dst ! j)"
    using copy_at_nth [OF d1 Suc.prems(2)] in_row off by (auto simp: ac_simps)
  then show ?case
    using Suc.IH [OF rest] Suc.prems(2) len by auto
qed auto

subsection \<open>Receiving: whole streams\<close>

definition surface_ok :: "frame_env \<Rightarrow> bool" where
  "surface_ok e \<longleftrightarrow>
     (case nb_bits (fe_buffer e) of None \<Rightarrow> True
      | Some b \<Rightarrow> 0 \<le> nb_stride (fe_buffer e) \<and> 0 \<le> nb_height (fe_buffer e) \<and>
          length b = nat (nb_stride (fe_buffer e)) * nat (nb_height (fe_buffer e)) * 4)"

lemma good_header_len:
  "\<not> bad_header magic width height len \<Longrightarrow> unat len = unat width * unat height * 4"
  by (simp add: bad_header_def)

lemma present_frame_total:
  assumes "surface_ok e" and "length pixels = unat width * unat height * 4"
  shows "\<exists>go sz' evs. present_frame e sz width height pixels = Ret (go, sz', evs)
    \<and> set evs \<inter> {Acquire, Release} = {}"
proof (cases "nb_bits (fe_buffer e)")
  case None
  then show ?thesis by (auto simp: present_frame_def Let_def)
next
  case (Some b)
  let ?s = "nb_stride (fe_buffer e)" and ?h = "nb_height (fe_buffer e)"
  have len: "length b = nat ?s * nat ?h * 4" "0 \<le> ?s" "0 \<le> ?h"
    using assms(1) Some by (auto simp: surface_ok_def)
  have "\<exists>d. copy_rows pixels (unat width) (nat ?s) 0 (unat height) b = Ret d"
    if "\<not> (?s < int (unat width) \<or> ?h < int (unat height))"
    using copy_rows_total [of "unat width" "nat ?s" 0 "unat height" "nat ?h" "unat height" pixels b]
      that len assms(2) by (auto simp: le_nat_iff not_less)
  with Some show ?thesis by (auto simp: present_frame_def Let_def)
qed

lemma render_frames_total:
  "(\<And>k. surface_ok (env k)) \<Longrightarrow>
     \<exists>n evs. render_frames env rest sz frames = Ret (n, evs) \<and> set evs \<inter> {Acquire, Release} = {}"
proof (induction env rest sz frames rule: render_frames.induct)
  case (1 env rest sz frames)
  obtain magic width height len where h: "header_words (take 16 rest) = (magic, width, height, len)"
    by (cases "header_words (take 16 rest)") auto
  show ?case
  proof (cases "length rest < 16 \<or> bad_header magic width height len \<or> length rest < 16 + unat len")
    case True
    then show ?thesis using h by (subst render_frames.simps) auto
  next
    case False
    let ?px = "take (unat len) (drop 16 rest)"
    have "length ?px = unat width * unat height * 4"
      using False good_header_len by auto
    from present_frame_total [OF "1.prems" this] obtain go sz' evs where
      p: "present_frame (env 0) sz width height ?px = Ret (go, sz', evs)"
        "set evs \<inter> {Acquire, Release} = {}" by blast
    have "\<exists>n evs'. render_frames (\<lambda>k. env (Suc k)) (drop (16 + unat len) rest) sz' (frames + 1) = Ret (n, evs')
      \<and> set evs' \<inter> {Acquire, Release} = {}" if go
      using that False by (intro "1.IH" [OF _ h [symmetric] refl refl]) (use "1.prems" in auto)
    then show ?thesis
      using False h p by (subst render_frames.simps) (cases go; auto)
  qed
qed

text \<open>The daemon's output protocol, as a specification, and what a displayed frame looks like.\<close>

definition output_frame :: "u32 \<times> u32 \<times> bytes \<Rightarrow> bytes" where
  "output_frame f = (case f of (w, h, px) \<Rightarrow>
     u32_to_le_bytes OUTPUT @ u32_to_le_bytes w @ u32_to_le_bytes h
     @ u32_to_le_bytes (of_nat (length px)) @ px)"

definition frame_ok :: "u32 \<times> u32 \<times> bytes \<Rightarrow> bool" where
  "frame_ok f = (case f of (w, h, px) \<Rightarrow>
     0 < w \<and> w \<le> 4096 \<and> 0 < h \<and> h \<le> 2304 \<and> length px = unat w * unat h * 4)"

definition env_ready :: "u32 \<times> u32 \<times> bytes \<Rightarrow> frame_env \<Rightarrow> bool" where
  "env_ready f e = (case f of (w, h, px) \<Rightarrow>
     fe_set_geometry e = 0 \<and> fe_lock e = 0 \<and> fe_unlock e = 0 \<and> nb_bits (fe_buffer e) \<noteq> None \<and>
     int (unat w) \<le> nb_stride (fe_buffer e) \<and> int (unat h) \<le> nb_height (fe_buffer e) \<and> surface_ok e)"

definition shows_frame :: "u32 \<times> u32 \<times> bytes \<Rightarrow> nat \<Rightarrow> bytes \<Rightarrow> bool" where
  "shows_frame f stride b = (case f of (w, h, px) \<Rightarrow>
     \<forall>r < unat h. \<forall>c < unat w * 4. b ! (r * (stride * 4) + c) = px ! (r * (unat w * 4) + c))"

fun posts :: "win_event list \<Rightarrow> bytes list" where
  "posts [] = []"
| "posts (Post b # evs) = b # posts evs"
| "posts (_ # evs) = posts evs"

lemma posts_append [simp]: "posts (xs @ ys) = posts xs @ posts ys"
  by (induction xs rule: posts.induct) auto

lemma frame_ok_size:
  assumes "frame_ok (w, h, px)"
  shows "length px \<le> MAX_RGBA" and "unat (of_nat (length px) :: u32) = length px"
proof -
  have "unat w \<le> 4096" "unat h \<le> 2304"
    using assms by (auto simp: frame_ok_def word_le_nat_alt)
  then have "unat w * unat h \<le> 4096 * 2304" by (rule mult_le_mono)
  then show l: "length px \<le> MAX_RGBA" using assms by (simp add: frame_ok_def MAX_RGBA_def mult.commute)
  then have "length px < 2 ^ 32" by (simp add: MAX_RGBA_def)
  then show "unat (of_nat (length px) :: u32) = length px"
    by (simp add: unat_of_nat)
qed

lemma header_words_frame:
  "header_words (take 16 (output_frame (w, h, px) @ rest)) = (OUTPUT, w, h, of_nat (length px))"
  by (simp add: header_words_def output_frame_def)

lemma present_frame_shows:
  assumes "frame_ok (w, h, px)" and "env_ready (w, h, px) e"
  shows "\<exists>b evs. present_frame e sz w h px = Ret (True, (w, h), evs) \<and> posts evs = [b]
    \<and> shows_frame (w, h, px) (nat (nb_stride (fe_buffer e))) b"
proof -
  let ?s = "nat (nb_stride (fe_buffer e))" and ?h = "nat (nb_height (fe_buffer e))"
  obtain dst where dst: "nb_bits (fe_buffer e) = Some dst" using assms(2) by (auto simp: env_ready_def)
  have fits: "unat w \<le> ?s" "unat h \<le> ?h" and len: "length dst = ?s * ?h * 4"
    using assms(2) dst by (auto simp: env_ready_def surface_ok_def le_nat_iff)
  have "0 < w" using assms(1) by (simp add: frame_ok_def)
  then have pos: "0 < ?s" using fits(1) by (simp add: word_less_nat_alt)
  obtain b where b: "copy_rows px (unat w) ?s 0 (unat h) dst = Ret b"
    using copy_rows_total [of "unat w" ?s 0 "unat h" ?h "unat h" px dst] fits len assms(1)
    by (auto simp: frame_ok_def)
  have "b ! (r * (?s * 4) + c) = px ! (r * (unat w * 4) + c)" if "r < unat h" "c < unat w * 4" for r c
  proof -
    have c: "c < ?s * 4" using that(2) fits(1) by simp
    have "r * (?s * 4) + c < length dst"
      using row_fits [of r ?h "unat w" ?s] that fits len by (simp add: ac_simps)
    from copy_rows_nth [OF pos fits(1) b this] c that pos show ?thesis by simp
  qed
  then have "shows_frame (w, h, px) ?s b" by (simp add: shows_frame_def)
  with dst b assms(2) show ?thesis
    by (auto simp: present_frame_def env_ready_def Let_def)
qed

lemma render_frames_shows:
  assumes "\<And>i. i < length fs \<Longrightarrow> frame_ok (fs ! i) \<and> env_ready (fs ! i) (env i)"
  shows "\<exists>evs. render_frames env (concat (map output_frame fs)) sz frames
      = Ret (frames + of_nat (length fs), evs)
    \<and> length (posts evs) = length fs
    \<and> (\<forall>i < length fs. shows_frame (fs ! i) (nat (nb_stride (fe_buffer (env i)))) (posts evs ! i))"
  using assms
proof (induction fs arbitrary: env sz frames)
  case Nil
  then show ?case by (simp add: render_frames.simps)
next
  case (Cons f fs)
  obtain w h px where f: "f = (w, h, px)" by (cases f)
  let ?rest = "concat (map output_frame fs)"
  have ok: "frame_ok (w, h, px)" "env_ready (w, h, px) (env 0)" using Cons.prems [of 0] f by auto
  note sz = frame_ok_size [OF ok(1)]
  have good: "\<not> bad_header OUTPUT w h (of_nat (length px))"
    using ok(1) sz by (auto simp: bad_header_def frame_ok_def)
  have len: "length (output_frame f) = 16 + length px" by (simp add: f output_frame_def)
  have px: "take (length px) (drop 16 (output_frame f @ ?rest)) = px"
    and rest: "drop (16 + length px) (output_frame f @ ?rest) = ?rest"
    by (simp_all add: f output_frame_def)
  from present_frame_shows [OF ok] obtain b evs where
    p: "present_frame (env 0) sz w h px = Ret (True, (w, h), evs)" "posts evs = [b]"
      "shows_frame f (nat (nb_stride (fe_buffer (env 0)))) b" unfolding f by blast
  have "frame_ok (fs ! i) \<and> env_ready (fs ! i) (env (Suc i))" if "i < length fs" for i
    using Cons.prems [of "Suc i"] that by simp
  from Cons.IH [of "\<lambda>k. env (Suc k)" "(w, h)" "frames + 1", OF this] obtain evs' where
    r: "render_frames (\<lambda>k. env (Suc k)) ?rest (w, h) (frames + 1) = Ret (frames + 1 + of_nat (length fs), evs')"
      "length (posts evs') = length fs"
      "\<forall>i < length fs. shows_frame (fs ! i) (nat (nb_stride (fe_buffer (env (Suc i))))) (posts evs' ! i)"
    by blast
  have "render_frames env (output_frame f @ ?rest) sz frames = Ret (frames + 1 + of_nat (length fs), evs @ evs')"
    using header_words_frame [of w h px ?rest] good sz len px rest p(1) r(1)
    by (subst render_frames.simps) (simp add: f)
  then show ?case
    using p r by (auto simp: nth_Cons split: nat.split)
qed

subsection \<open>Properties\<close>

lemma goke_session_wire_aux:
  assumes "\<not> gd_csd_sent g" and "goke_session g ds = Ret (Inr u, g')"
  shows "sk_out (gd_stream g') =
    sk_out (gd_stream g) @ concat (map input_frame (first_csd (gd_hevc g) ds @ ds))"
proof (cases ds)
  case Nil
  with assms show ?thesis by (simp add: first_csd_def)
next
  case (Cons d ds')
  with assms(2) obtain g1 b where d: "goke_decode g d = Ret (Inr b, g1)"
    and r: "goke_session g1 ds' = Ret (Inr u, g')"
    by (cases "goke_decode g d") (auto split: prod.splits sum.splits)
  from goke_decode_first [OF assms(1) d] goke_session_csd_sent [OF _ r] Cons show ?thesis
    by (simp add: first_csd_def)
qed


text \<open>A concrete session: an SPS unit followed by a slice, then a second slice.\<close>

definition demo_env :: goke_env where
  "demo_env = \<lparr>ge_window = 1, ge_connect = Some \<lparr>sk_out = [], sk_limit = None, sk_shutdown = False\<rparr>,
     ge_clone_ok = True, ge_spawn_ok = True\<rparr>"

definition demo_units :: "bytes list" where
  "demo_units = [[0, 0, 1, 0x67, 9, 0, 0, 1, 0x65, 1], [0, 0, 1, 0x41, 2]]"

lemma demo_nals:
  "snd (nals [0, 0, 1, 0x67, 9, 0, 0, 1, 0x65, 1]) = [([0, 0, 1], [0x67, 9]), ([0, 0, 1], [0x65, 1])]"
  by (simp add: nals.simps)

lemma demo_first_csd: "first_csd False demo_units = [[0, 0, 1, 0x67, 9]]"
  by (simp add: first_csd_def demo_units_def demo_nals param_units_def is_param_nal_def unit_bytes_def)


text \<open>
  C6. Memory safety and surface discipline of the render thread: for any bytes the daemon may send
  and any results of the window calls, as long as a locked surface has the memory its stride and
  height promise, the loop ends without an access outside the surface or the pixel buffer, and it
  acquires the window once at the start and releases it once at the end.
\<close>

theorem render_loop_safe:
  assumes "\<And>k. surface_ok (env k)"
  shows "\<exists>n evs. render_loop env stream = Ret (n, Acquire # evs @ [Release])
    \<and> Acquire \<notin> set evs \<and> Release \<notin> set evs"
  using render_frames_total [of env stream "(0, 0)" 0, OF assms]
  by (auto simp: render_loop_def)

definition demo_surface :: frame_env where
  "demo_surface = \<lparr>fe_set_geometry = 0, fe_lock = 0,
     fe_buffer = \<lparr>nb_height = 2, nb_stride = 3, nb_bits = Some (replicate 24 0)\<rparr>, fe_unlock = 0\<rparr>"

lemma demo_surface_ok: "surface_ok demo_surface"
  by (simp add: surface_ok_def demo_surface_def)

theorem render_loop_safe_witness:
  "surface_ok demo_surface \<and> (\<exists>n evs. render_loop (\<lambda>_. demo_surface) [1, 2, 3] = Ret (n, Acquire # evs @ [Release])
    \<and> Acquire \<notin> set evs \<and> Release \<notin> set evs)"
  using demo_surface_ok render_loop_safe [of "\<lambda>_. demo_surface" "[1, 2, 3]"] by blast

text \<open>
  C7. Display: when the daemon sends well-formed frames and every window call succeeds on a surface
  at least as large as the frame, the render thread counts and posts every frame, in order, and
  every byte of every row of a posted surface is the byte of the frame's row, whatever the stride.
\<close>

theorem render_loop_displays:
  assumes "\<And>i. i < length fs \<Longrightarrow> frame_ok (fs ! i) \<and> env_ready (fs ! i) (env i)"
  shows "\<exists>evs. render_loop env (concat (map output_frame fs)) = Ret (of_nat (length fs), evs)
    \<and> length (posts evs) = length fs
    \<and> (\<forall>i < length fs. shows_frame (fs ! i) (nat (nb_stride (fe_buffer (env i)))) (posts evs ! i))"
  using render_frames_shows [of fs env "(0, 0)" 0, OF assms]
  by (auto simp: render_loop_def)

definition demo_frame :: "u32 \<times> u32 \<times> bytes" where
  "demo_frame = (2, 1, [1, 2, 3, 4, 5, 6, 7, 8])"

theorem render_loop_displays_witness:
  "\<exists>evs. render_loop (\<lambda>_. demo_surface) (concat (map output_frame [demo_frame])) = Ret (1, evs)
    \<and> length (posts evs) = 1 \<and> shows_frame demo_frame 3 (posts evs ! 0)"
proof -
  have "frame_ok ([demo_frame] ! i) \<and> env_ready ([demo_frame] ! i) demo_surface" if "i < length [demo_frame]" for i
    using that demo_surface_ok by (simp add: demo_frame_def frame_ok_def env_ready_def demo_surface_def)
  from render_loop_displays [of "[demo_frame]" "\<lambda>_. demo_surface", OF this]
  show ?thesis by (simp add: demo_surface_def)
qed

end
