(* ===== verification/Media_Codec.thy ===== *)
theory Media_Codec
  imports Goke_Bridge
begin

text \<open>
  The platform decoder (\<^verbatim>\<open>libs/scrap/src/common/mediacodec.rs\<close>): creating and configuring a
  decoder with retries, feeding it parameter sets and frames, rendering or converting its output,
  and probing which formats it supports.

  The NDK's \<^verbatim>\<open>MediaCodec\<close> is an argument: a record of its calls on a device state of any type, the
  clock being part of that state. A decoder keeps in \<open>md_queued\<close> the buffers it has queued so far,
  with their flags. An access of the unsafe conversion outside its buffers is \<^const>\<open>Panic\<close>; a loop
  that does not end is \<^const>\<open>None\<close>.
\<close>

subsection \<open>The NDK decoder\<close>

datatype media_error = Ndk nat | CsdTooBig | InputTooBig | MissingKey string | UnsupportedImageFormat

record 'd media_codec =
  mc_dequeue_input :: "nat \<Rightarrow> 'd \<Rightarrow> (media_error + nat option) \<times> 'd"
  mc_queue_input :: "bytes \<Rightarrow> nat \<Rightarrow> 'd \<Rightarrow> (media_error + unit) \<times> 'd"
  mc_dequeue_output :: "nat \<Rightarrow> 'd \<Rightarrow> (media_error + bytes option) \<times> 'd"
  mc_release_output :: "bool \<Rightarrow> 'd \<Rightarrow> (media_error + unit) \<times> 'd"
  mc_output_format :: "'d \<Rightarrow> string \<Rightarrow> int option"
  mc_now :: "'d \<Rightarrow> nat"

record media_decoder =
  md_name :: string
  md_render_to_surface :: bool
  md_csd_sent :: bool
  md_warmup_exhausted :: bool
  md_queued :: "(bytes \<times> nat) list"

definition H264_MIME_TYPE :: string where "H264_MIME_TYPE = ''video/avc''"
definition H265_MIME_TYPE :: string where "H265_MIME_TYPE = ''video/hevc''"
definition VP8_MIME_TYPE :: string where "VP8_MIME_TYPE = ''video/x-vnd.on2.vp8''"

subsection \<open>Creating a decoder\<close>

text \<open>What creation meets: the codec for a type, each attempt to configure it, starting it.\<close>

record create_env =
  cr_available :: "string \<Rightarrow> bool"
  cr_configure :: "string \<Rightarrow> nat \<Rightarrow> nat \<Rightarrow> bool"
  cr_start :: "string \<Rightarrow> bool"

text \<open>
  The first attempt and up to three more after 300, 600 and 1200 milliseconds; the attempt is
  numbered, and so is the surface it is configured with (0 for none). The result is whether the
  last attempt succeeded and the time slept.
\<close>

fun retry_configure :: "(nat \<Rightarrow> bool) \<Rightarrow> nat list \<Rightarrow> nat \<Rightarrow> nat \<Rightarrow> bool \<times> nat" where
  "retry_configure conf [] n slept = (False, slept)"
| "retry_configure conf (wait # waits) n slept =
     (if conf n then (True, slept + wait) else retry_configure conf waits (Suc n) (slept + wait))"

definition configure :: "(nat \<Rightarrow> bool) \<Rightarrow> bool \<times> nat" where
  "configure conf = (if conf 0 then (True, 0) else retry_configure conf [300, 600, 1200] 1 0)"

definition create_media_codec :: "create_env \<Rightarrow> nat \<Rightarrow> string \<Rightarrow> media_decoder option" where
  "create_media_codec env surface name =
     (if \<not> cr_available env name then None
      else if \<not> fst (configure (cr_configure env name surface)) then None
      else if \<not> cr_start env name then None
      else Some \<lparr>md_name = name, md_render_to_surface = (surface \<noteq> 0), md_csd_sent = False,
                 md_warmup_exhausted = False, md_queued = []\<rparr>)"

definition media_new :: "create_env \<Rightarrow> nat \<Rightarrow> codec_format \<Rightarrow> media_decoder option" where
  "media_new env surface format =
     (case format of
        H264 \<Rightarrow> create_media_codec env surface H264_MIME_TYPE
      | H265 \<Rightarrow> create_media_codec env surface H265_MIME_TYPE
      | VP8 \<Rightarrow> create_media_codec env surface VP8_MIME_TYPE
      | _ \<Rightarrow> None)"

subsection \<open>Decoding\<close>

definition contains :: "string \<Rightarrow> string \<Rightarrow> bool" where
  "contains needle s = list_ex (\<lambda>i. prefix needle (drop i s)) [0..<Suc (length s)]"

text \<open>The parameter sets of the first packet, queued once with the codec-config flag.\<close>

definition queue_csd ::
  "'d media_codec \<Rightarrow> media_decoder \<Rightarrow> 'd \<Rightarrow> bytes \<Rightarrow> ((media_error + unit) \<times> media_decoder \<times> 'd) rust" where
  "queue_csd mc dec dev dat =
     (if md_csd_sent dec then Ret (Inr (), dec, dev)
      else
        let dec = dec\<lparr>md_csd_sent := True\<rparr> in
        rust_bind (extract_param_sets dat (contains ''hevc'' (md_name dec))) (\<lambda>csd.
          case csd of
            None \<Rightarrow> Ret (Inr (), dec, dev)
          | Some csd \<Rightarrow>
              (case mc_dequeue_input mc 100 dev of
                 (Inl e, dev) \<Rightarrow> Ret (Inl e, dec, dev)
               | (Inr None, dev) \<Rightarrow> Ret (Inr (), dec, dev)
               | (Inr (Some cap), dev) \<Rightarrow>
                   if length csd > cap then Ret (Inl CsdTooBig, dec, dev)
                   else (case mc_queue_input mc csd 2 dev of
                           (Inl e, dev) \<Rightarrow> Ret (Inl e, dec, dev)
                         | (Inr _, dev) \<Rightarrow> Ret (Inr (), dec\<lparr>md_queued := md_queued dec @ [(csd, 2)]\<rparr>, dev)))))"

definition queue_packet ::
  "'d media_codec \<Rightarrow> media_decoder \<Rightarrow> 'd \<Rightarrow> bytes \<Rightarrow> (media_error + unit) \<times> media_decoder \<times> 'd" where
  "queue_packet mc dec dev dat =
     (case mc_dequeue_input mc 10 dev of
        (Inl e, dev) \<Rightarrow> (Inl e, dec, dev)
      | (Inr None, dev) \<Rightarrow> (Inr (), dec, dev)
      | (Inr (Some cap), dev) \<Rightarrow>
          if length dat > cap then (Inl InputTooBig, dec, dev)
          else (case mc_queue_input mc dat 0 dev of
                  (Inl e, dev) \<Rightarrow> (Inl e, dec, dev)
                | (Inr _, dev) \<Rightarrow> (Inr (), dec\<lparr>md_queued := md_queued dec @ [(dat, 0)]\<rparr>, dev)))"

datatype image_format = Raw | ABGR | ARGB

text \<open>
  The reads and writes of libyuv's I420 conversions: \<open>h\<close> rows of \<open>w\<close> luma bytes, \<open>(h + 1) / 2\<close> rows of
  \<open>(w + 1) / 2\<close> bytes in each chroma plane, \<open>h\<close> rows of \<open>4 w\<close> bytes written; nothing for an empty image,
  a flipped image for a negative height.
\<close>

definition rows_inside :: "int \<Rightarrow> int \<Rightarrow> nat \<Rightarrow> int \<Rightarrow> int \<Rightarrow> bool" where
  "rows_inside start stride rows width len =
     list_all (\<lambda>r. 0 \<le> start + int r * stride \<and> start + int r * stride + width \<le> len) [0..<rows]"

definition half :: "int \<Rightarrow> int" where
  "half s = (if s < 0 then - ((- s) div 2) else s div 2)"

definition i420_inside :: "nat \<Rightarrow> nat \<Rightarrow> nat \<Rightarrow> int \<Rightarrow> int \<Rightarrow> int \<Rightarrow> nat \<Rightarrow> bool" where
  "i420_inside len u v stride w h out_len =
     (w \<le> 0 \<or> h = 0 \<or>
      (let rows = nat \<bar>h\<bar> in
       rows_inside 0 stride rows w (int len)
       \<and> rows_inside (int u) (half stride) ((rows + 1) div 2) ((w + 1) div 2) (int len)
       \<and> rows_inside (int v) (half stride) ((rows + 1) div 2) ((w + 1) div 2) (int len)
       \<and> rows_inside 0 (4 * w) rows (4 * w) (int out_len)))"

text \<open>\<^verbatim>\<open>h * w * 4\<close> in \<^verbatim>\<open>usize\<close>, where a size above \<^verbatim>\<open>isize::MAX\<close> panics on allocation.\<close>

definition rgb_size :: "int \<Rightarrow> int \<Rightarrow> nat rust" where
  "rgb_size w h = (let n = nat ((h * w * 4) mod (int usize_MAX + 1)) in if n > usize_MAX div 2 then Panic else Ret n)"

text \<open>
  The conversion itself (\<^verbatim>\<open>I420ToARGB\<close>, \<^verbatim>\<open>I420ToABGR\<close>) is an argument: from the format, the three
  planes, stride, width and height to the pixels.
\<close>

type_synonym yuv_convert = "image_format \<Rightarrow> bytes \<Rightarrow> bytes \<Rightarrow> bytes \<Rightarrow> int \<Rightarrow> int \<Rightarrow> int \<Rightarrow> bytes"

definition resize :: "nat \<Rightarrow> bytes \<Rightarrow> bytes" where
  "resize n xs = take n xs @ replicate (n - length xs) 0"

definition convert_output ::
  "yuv_convert \<Rightarrow> image_format \<Rightarrow> bytes \<Rightarrow> int \<Rightarrow> int \<Rightarrow> int \<Rightarrow> bytes \<Rightarrow> ((media_error + unit) \<times> bytes) rust" where
  "convert_output yuv fmt buf w h stride rgb =
     (let u = length buf * 2 div 3; v = length buf * 5 div 6 in
      rust_bind (rgb_size w h) (\<lambda>n.
        let rgb = resize n rgb in
        if fmt = Raw then Ret (Inl UnsupportedImageFormat, rgb)
        else if \<not> i420_inside (length buf) u v stride w h n then Panic
        else Ret (Inr (), if w \<le> 0 \<or> h = 0 then rgb else yuv fmt buf (drop u buf) (drop v buf) stride w h)))"

text \<open>One decoded buffer: to the surface, or converted into \<open>rgb\<close>.\<close>

definition render_output ::
  "'d media_codec \<Rightarrow> yuv_convert \<Rightarrow> image_format \<Rightarrow> media_decoder \<Rightarrow> 'd \<Rightarrow> bytes \<Rightarrow> bytes
     \<Rightarrow> ((media_error + bool) \<times> 'd \<times> bytes) rust" where
  "render_output mc yuv fmt dec dev buf rgb =
     (if md_render_to_surface dec then
        (case mc_release_output mc True dev of
           (Inl e, dev) \<Rightarrow> Ret (Inl e, dev, rgb) | (Inr _, dev) \<Rightarrow> Ret (Inr True, dev, rgb))
      else case mc_output_format mc dev ''width'' of
        None \<Rightarrow> Ret (Inl (MissingKey ''width''), dev, rgb)
      | Some w \<Rightarrow>
          (case mc_output_format mc dev ''height'' of
             None \<Rightarrow> Ret (Inl (MissingKey ''height''), dev, rgb)
           | Some h \<Rightarrow>
               (case mc_output_format mc dev ''stride'' of
                  None \<Rightarrow> Ret (Inl (MissingKey ''stride''), dev, rgb)
                | Some stride \<Rightarrow>
                    rust_bind (convert_output yuv fmt buf w h stride rgb) (\<lambda>r.
                      case r of
                        (Inl e, rgb) \<Rightarrow> Ret (Inl e, dev, rgb)
                      | (Inr _, rgb) \<Rightarrow>
                          (case mc_release_output mc False dev of
                             (Inl e, dev) \<Rightarrow> Ret (Inl e, dev, rgb)
                           | (Inr _, dev) \<Rightarrow> Ret (Inr True, dev, rgb))))))"

text \<open>Polling for the first frame of a surface until the deadline.\<close>

partial_function (option) warmup_poll ::
  "'d media_codec \<Rightarrow> nat \<Rightarrow> 'd \<Rightarrow> ((media_error + bool) \<times> 'd) option" where
  "warmup_poll mc deadline dev =
     (if mc_now mc dev < deadline then
        (case mc_dequeue_output mc 100 dev of
           (Inl e, dev) \<Rightarrow> Some (Inl e, dev)
         | (Inr (Some buf), dev) \<Rightarrow>
             (case mc_release_output mc True dev of
                (Inl e, dev) \<Rightarrow> Some (Inl e, dev)
              | (Inr _, dev) \<Rightarrow> Some (Inr True, dev))
         | (Inr None, dev) \<Rightarrow> warmup_poll mc deadline dev)
      else Some (Inr False, dev))"

definition take_output ::
  "'d media_codec \<Rightarrow> yuv_convert \<Rightarrow> image_format \<Rightarrow> media_decoder \<Rightarrow> 'd \<Rightarrow> bytes
     \<Rightarrow> ((media_error + bool) \<times> media_decoder \<times> 'd \<times> bytes) rust option" where
  "take_output mc yuv fmt dec dev rgb =
     (case mc_dequeue_output mc 100 dev of
        (Inl e, dev) \<Rightarrow> Some (Ret (Inl e, dec, dev, rgb))
      | (Inr (Some buf), dev) \<Rightarrow>
          Some (rust_bind (render_output mc yuv fmt dec dev buf rgb) (\<lambda>(r, dev, rgb). Ret (r, dec, dev, rgb)))
      | (Inr None, dev) \<Rightarrow>
          if md_render_to_surface dec \<and> \<not> md_warmup_exhausted dec then
            (case warmup_poll mc (mc_now mc dev + 3000) dev of
               None \<Rightarrow> None
             | Some (Inl e, dev) \<Rightarrow> Some (Ret (Inl e, dec, dev, rgb))
             | Some (Inr True, dev) \<Rightarrow> Some (Ret (Inr True, dec, dev, rgb))
             | Some (Inr False, dev) \<Rightarrow> Some (Ret (Inr False, dec\<lparr>md_warmup_exhausted := True\<rparr>, dev, rgb)))
          else Some (Ret (Inr False, dec, dev, rgb)))"

definition media_decode ::
  "'d media_codec \<Rightarrow> yuv_convert \<Rightarrow> image_format \<Rightarrow> media_decoder \<Rightarrow> 'd \<Rightarrow> bytes \<Rightarrow> bytes
     \<Rightarrow> ((media_error + bool) \<times> media_decoder \<times> 'd \<times> bytes) rust option" where
  "media_decode mc yuv fmt dec dev dat rgb =
     (case queue_csd mc dec dev dat of
        Panic \<Rightarrow> Some Panic
      | Ret (Inl e, dec, dev) \<Rightarrow> Some (Ret (Inl e, dec, dev, rgb))
      | Ret (Inr _, dec, dev) \<Rightarrow>
          (case queue_packet mc dec dev dat of
             (Inl e, dec, dev) \<Rightarrow> Some (Ret (Inl e, dec, dev, rgb))
           | (Inr _, dec, dev) \<Rightarrow> take_output mc yuv fmt dec dev rgb))"


subsection \<open>Probing\<close>

text \<open>The process-wide cells: the surface pointer and the support flags.\<close>

record media_globals =
  mg_surface :: nat
  mg_h264 :: bool
  mg_h265 :: bool
  mg_vp8 :: bool
  mg_probed :: bool

definition set_surface_ptr :: "nat \<Rightarrow> media_globals \<Rightarrow> media_globals" where
  "set_surface_ptr p g = g\<lparr>mg_surface := p\<rparr>"

text \<open>
  The probe runs on its own thread while the user interface may hand over a surface; each of its
  steps accesses the surface pointer once. \<open>pr_used\<close> records the surfaces its decoders were
  configured with.
\<close>

record probe =
  pr_pc :: nat
  pr_saved :: nat
  pr_used :: "nat list"

definition probe_start :: probe where "probe_start = \<lparr>pr_pc = 0, pr_saved = 0, pr_used = []\<rparr>"

fun probe_step :: "create_env \<Rightarrow> nat \<Rightarrow> media_globals \<times> nat \<times> nat list \<Rightarrow> media_globals \<times> nat \<times> nat list" where
  "probe_step env pc (g, saved, used) =
     (let s = mg_surface g in
      if pc = 0 then (g, s, used)
      else if pc = 1 then (set_surface_ptr 0 g, saved, used)
      else if pc = 2 then (g\<lparr>mg_h264 := media_new env s H264 \<noteq> None\<rparr>, saved, used @ [s])
      else if pc = 3 then (g\<lparr>mg_h265 := media_new env s H265 \<noteq> None\<rparr>, saved, used @ [s])
      else if pc = 4 then (g\<lparr>mg_vp8 := media_new env s VP8 \<noteq> None\<rparr>, saved, used @ [s])
      else if pc = 5 then (set_surface_ptr saved g, saved, used)
      else (g, saved, used))"

datatype surface_action = ProbeStep | SetSurface nat

fun probe_act :: "create_env \<Rightarrow> surface_action \<Rightarrow> media_globals \<times> probe \<Rightarrow> media_globals \<times> probe" where
  "probe_act env ProbeStep (g, p) =
     (case probe_step env (pr_pc p) (g, pr_saved p, pr_used p) of
        (g, saved, used) \<Rightarrow> (g, \<lparr>pr_pc = Suc (pr_pc p), pr_saved = saved, pr_used = used\<rparr>))"
| "probe_act env (SetSurface s) (g, p) = (set_surface_ptr s g, p)"

definition probe_run :: "create_env \<Rightarrow> surface_action list \<Rightarrow> media_globals \<Rightarrow> media_globals \<times> probe" where
  "probe_run env acts g = fold (probe_act env) acts (g, probe_start)"

text \<open>The probe undisturbed.\<close>

definition probe_mediacodec_once :: "create_env \<Rightarrow> media_globals \<Rightarrow> media_globals" where
  "probe_mediacodec_once env g = fst (probe_run env (replicate 6 ProbeStep) g)"

definition ensure_mediacodec_probed :: "create_env \<Rightarrow> media_globals \<Rightarrow> media_globals" where
  "ensure_mediacodec_probed env g =
     (if mg_probed g \<and> mg_h264 g \<and> mg_h265 g then g
      else (probe_mediacodec_once env g)\<lparr>mg_probed := True\<rparr>)"

definition check_mediacodec :: "create_env \<Rightarrow> media_globals \<Rightarrow> media_globals" where
  "check_mediacodec env g =
     (let g = g\<lparr>mg_h264 := media_new env (mg_surface g) H264 \<noteq> None\<rparr>
      in g\<lparr>mg_h265 := media_new env (mg_surface g) H265 \<noteq> None\<rparr>)"

subsection \<open>Feeding a decoder\<close>

text \<open>
  The contract of both hardware decoders: a packet that is accepted is passed on after everything
  before it, and the parameter sets of the first packet are passed on once, ahead of it.
\<close>

primrec unit_run :: "('s \<Rightarrow> bytes \<Rightarrow> 's option) \<Rightarrow> 's \<Rightarrow> bytes list \<Rightarrow> 's option" where
  "unit_run f s [] = Some s"
| "unit_run f s (d # ds) = (case f s d of None \<Rightarrow> None | Some s \<Rightarrow> unit_run f s ds)"

locale unit_sink =
  fixes accept :: "'s \<Rightarrow> bytes \<Rightarrow> 's option"
    and passed :: "'s \<Rightarrow> 'o list"
    and fresh :: "'s \<Rightarrow> bool"
    and hevc :: "'s \<Rightarrow> bool"
    and csd_out :: "bytes \<Rightarrow> 'o list"
    and unit_out :: "bytes \<Rightarrow> 'o list"
  assumes accept_first: "fresh s \<Longrightarrow> accept s d = Some s' \<Longrightarrow>
      passed s' = passed s @ concat (map csd_out (first_csd (hevc s) [d])) @ unit_out d \<and> \<not> fresh s'"
    and accept_later: "\<not> fresh s \<Longrightarrow> accept s d = Some s' \<Longrightarrow> passed s' = passed s @ unit_out d \<and> \<not> fresh s'"
begin

lemma run_later:
  "\<not> fresh s \<Longrightarrow> unit_run accept s ds = Some s' \<Longrightarrow> passed s' = passed s @ concat (map unit_out ds)"
  by (induction ds arbitrary: s) (auto dest: accept_later split: option.splits)

lemma run_passed:
  assumes "fresh s" and "unit_run accept s ds = Some s'"
  shows "passed s' = passed s @ concat (map csd_out (first_csd (hevc s) ds)) @ concat (map unit_out ds)"
proof (cases ds)
  case Nil
  with assms show ?thesis by (simp add: first_csd_def)
next
  case (Cons d rest)
  with assms(2) obtain s1 where s1: "accept s d = Some s1" "unit_run accept s1 rest = Some s'"
    by (auto split: option.splits)
  from accept_first [OF assms(1) s1(1)] run_later [of s1, OF _ s1(2)] Cons show ?thesis
    by (simp add: first_csd_def Let_def)
qed

end


definition goke_accept :: "goke_decoder \<Rightarrow> bytes \<Rightarrow> goke_decoder option" where
  "goke_accept g d = (case goke_decode g d of Ret (Inr _, g') \<Rightarrow> Some g' | _ \<Rightarrow> None)"

lemma goke_accept_Some: "goke_accept g d = Some g' \<Longrightarrow> \<exists>b. goke_decode g d = Ret (Inr b, g')"
  by (auto simp: goke_accept_def split: rust.splits prod.splits sum.splits)

interpretation goke_sink: unit_sink goke_accept "\<lambda>g. sk_out (gd_stream g)" "\<lambda>g. \<not> gd_csd_sent g" gd_hevc
  input_frame input_frame
proof (unfold_locales, goal_cases)
  case (1 s d s')
  from goke_accept_Some [OF 1(2)] obtain b where "goke_decode s d = Ret (Inr b, s')" by blast
  from goke_decode_first [OF 1(1) this] show ?case by simp
next
  case (2 s d s')
  from goke_accept_Some [OF 2(2)] obtain b where "goke_decode s d = Ret (Inr b, s')" by blast
  from goke_decode_csd_sent [OF _ this] 2(1) show ?case by simp
qed

text \<open>
  A packet the platform decoder takes: the buffers it asks for are granted. (With no free buffer
  \<open>media_decode\<close> drops the packet and succeeds all the same.)
\<close>

definition granted :: "(media_error + nat option) \<times> 'd \<Rightarrow> bool" where
  "granted r = (case fst r of Inr (Some _) \<Rightarrow> True | _ \<Rightarrow> False)"

definition csd_granted :: "'d media_codec \<Rightarrow> media_decoder \<Rightarrow> 'd \<Rightarrow> bytes \<Rightarrow> bool" where
  "csd_granted mc dec dev dat =
     (md_csd_sent dec \<or> extract_param_sets dat (contains ''hevc'' (md_name dec)) = Ret None
      \<or> granted (mc_dequeue_input mc 100 dev))"

definition media_accept ::
  "'d media_codec \<Rightarrow> yuv_convert \<Rightarrow> image_format \<Rightarrow> media_decoder \<times> 'd \<times> bytes \<Rightarrow> bytes \<Rightarrow> (media_decoder \<times> 'd \<times> bytes) option" where
  "media_accept mc yuv fmt s dat =
     (case s of (dec, dev, rgb) \<Rightarrow>
        (case queue_csd mc dec dev dat of
           Ret (Inr _, dec1, dev1) \<Rightarrow>
             if csd_granted mc dec dev dat \<and> granted (mc_dequeue_input mc 10 dev1) then
               (case media_decode mc yuv fmt dec dev dat rgb of Some (Ret (Inr _, s')) \<Rightarrow> Some s' | _ \<Rightarrow> None)
             else None
         | _ \<Rightarrow> None))"

lemma queue_csd_queued:
  assumes "queue_csd mc dec dev dat = Ret (Inr u, dec', dev')" and "csd_granted mc dec dev dat"
  shows "md_csd_sent dec' \<and> md_name dec' = md_name dec \<and>
    md_queued dec' = md_queued dec
      @ (if md_csd_sent dec then [] else map (\<lambda>c. (c, 2)) (first_csd (contains ''hevc'' (md_name dec)) [dat]))"
  using assms
  by (auto simp: queue_csd_def csd_granted_def granted_def extract_param_sets_units first_csd_def Let_def
      split: if_splits prod.splits sum.splits option.splits)

lemma queue_csd_total:
  "\<exists>r dec' dev'. queue_csd mc dec dev dat = Ret (r, dec', dev') \<and> md_render_to_surface dec' = md_render_to_surface dec"
proof -
  obtain csd where x: "extract_param_sets dat (contains ''hevc'' (md_name dec)) = Ret csd"
    using extract_param_sets_units by blast
  obtain r d where q: "mc_dequeue_input mc 100 dev = (r, d)" by (cases "mc_dequeue_input mc 100 dev")
  show ?thesis
  proof (cases csd)
    case None
    with x show ?thesis by (simp add: queue_csd_def)
  next
    case (Some c)
    obtain r2 d2 where q2: "mc_queue_input mc c 2 d = (r2, d2)" by (cases "mc_queue_input mc c 2 d")
    show ?thesis
      using x Some q q2 by (cases r; cases r2) (auto simp: queue_csd_def Let_def split: option.split)
  qed
qed

lemma queue_packet_queued:
  assumes "queue_packet mc dec dev dat = (Inr u, dec', dev')" and "granted (mc_dequeue_input mc 10 dev)"
  shows "md_queued dec' = md_queued dec @ [(dat, 0)] \<and> md_csd_sent dec' = md_csd_sent dec \<and> md_name dec' = md_name dec"
  using assms by (auto simp: queue_packet_def granted_def split: if_splits prod.splits sum.splits option.splits)

lemma take_output_queued:
  assumes "take_output mc yuv fmt dec dev rgb = Some (Ret (r, dec', dev', rgb'))"
  shows "md_queued dec' = md_queued dec \<and> md_csd_sent dec' = md_csd_sent dec \<and> md_name dec' = md_name dec"
proof -
  obtain r0 d0 where o: "mc_dequeue_output mc 100 dev = (r0, d0)" by (cases "mc_dequeue_output mc 100 dev")
  have "dec' = dec \<or> dec' = dec\<lparr>md_warmup_exhausted := True\<rparr>"
  proof (cases r0)
    case (Inl e)
    with assms o show ?thesis by (simp add: take_output_def)
  next
    case (Inr b)
    show ?thesis
    proof (cases b)
      case (Some buf)
      with assms o Inr show ?thesis
        by (cases "render_output mc yuv fmt dec d0 buf rgb") (auto simp: take_output_def split: prod.splits)
    next
      case None
      with assms o Inr show ?thesis
        by (auto simp: take_output_def split: if_splits option.splits prod.splits sum.splits bool.splits)
    qed
  qed
  then show ?thesis by auto
qed

lemma media_accept_step:
  assumes "media_accept mc yuv fmt (dec, dev, rgb) d = Some s'"
  obtains dec' where "fst s' = dec'" "md_csd_sent dec'" "md_name dec' = md_name dec"
    "md_queued dec' = md_queued dec
      @ (if md_csd_sent dec then [] else map (\<lambda>c. (c, 2)) (first_csd (contains ''hevc'' (md_name dec)) [d])) @ [(d, 0)]"
proof -
  from assms obtain dec1 dev1 u where c: "queue_csd mc dec dev d = Ret (Inr u, dec1, dev1)" "csd_granted mc dec dev d"
    and g: "granted (mc_dequeue_input mc 10 dev1)"
    and r: "\<exists>b. media_decode mc yuv fmt dec dev d rgb = Some (Ret (Inr b, s'))"
    by (auto simp: media_accept_def split: rust.splits prod.splits sum.splits if_splits option.splits)
  obtain r2 dec2 dev2 where p: "queue_packet mc dec1 dev1 d = (r2, dec2, dev2)" by (cases "queue_packet mc dec1 dev1 d")
  from r c(1) p obtain v where v: "r2 = Inr v" by (cases r2) (auto simp: media_decode_def)
  obtain dec3 dev3 rgb3 where s': "s' = (dec3, dev3, rgb3)" by (cases s')
  from r c(1) p v s' obtain b where "take_output mc yuv fmt dec2 dev2 rgb = Some (Ret (Inr b, dec3, dev3, rgb3))"
    by (auto simp: media_decode_def)
  from take_output_queued [OF this] queue_packet_queued [OF p [unfolded v] g] queue_csd_queued [OF c] s' that
  show thesis by simp
qed

interpretation media_sink: unit_sink "media_accept mc yuv fmt" "\<lambda>(dec, _, _). md_queued dec" "\<lambda>(dec, _, _). \<not> md_csd_sent dec"
  "\<lambda>(dec, _, _). contains ''hevc'' (md_name dec)" "\<lambda>c. [(c, 2)]" "\<lambda>d. [(d, 0)]" for mc yuv fmt
proof (unfold_locales, goal_cases)
  case (1 s d s')
  obtain dec dev rgb where s: "s = (dec, dev, rgb)" by (cases s)
  from 1(2) [unfolded s] show ?case by (rule media_accept_step) (use 1(1) s in \<open>cases s', auto simp: concat_map_singleton\<close>)
next
  case (2 s d s')
  obtain dec dev rgb where s: "s = (dec, dev, rgb)" by (cases s)
  from 2(2) [unfolded s] show ?case by (rule media_accept_step) (use 2(1) s in \<open>cases s', auto\<close>)
qed


subsection \<open>Termination of the warm-up\<close>

text \<open>Every poll that finds nothing takes time.\<close>

definition clock_advances :: "'d media_codec \<Rightarrow> bool" where
  "clock_advances mc \<longleftrightarrow> (\<forall>dev dev'. mc_dequeue_output mc 100 dev = (Inr None, dev') \<longrightarrow> mc_now mc dev < mc_now mc dev')"

lemma warmup_poll_returns:
  assumes "clock_advances mc"
  shows "\<exists>r. warmup_poll mc deadline dev = Some r"
proof (induction "deadline - mc_now mc dev" arbitrary: dev rule: less_induct)
  case less
  obtain r d where o: "mc_dequeue_output mc 100 dev = (r, d)" by (cases "mc_dequeue_output mc 100 dev")
  show ?case
  proof (cases "mc_now mc dev < deadline \<and> r = Inr None")
    case True
    with assms o have "mc_now mc dev < mc_now mc d" by (simp add: clock_advances_def)
    with True have "deadline - mc_now mc d < deadline - mc_now mc dev" by linarith
    from less [OF this] have "\<exists>r. warmup_poll mc deadline d = Some r" .
    with True o show ?thesis by (subst warmup_poll.simps) simp
  next
    case False
    with o show ?thesis
      by (subst warmup_poll.simps) (auto split: sum.splits option.splits prod.splits)
  qed
qed

subsection \<open>Bounds of the conversion\<close>

lemma rows_inside_I:
  assumes "0 \<le> start" and "0 \<le> stride" and "rows = 0 \<or> start + (int rows - 1) * stride + width \<le> len"
  shows "rows_inside start stride rows width len"
proof -
  have "0 \<le> start + int r * stride \<and> start + int r * stride + width \<le> len" if "r < rows" for r
  proof -
    from that have "int r * stride \<le> (int rows - 1) * stride" using assms(2) by (intro mult_right_mono) auto
    moreover have "0 \<le> int r * stride" using assms(2) by simp
    ultimately show ?thesis using assms(1,3) that by auto
  qed
  then show ?thesis by (simp add: rows_inside_def list_all_iff)
qed

lemma rows_inside_last:
  "rows_inside start stride rows width len \<Longrightarrow> 0 < rows \<Longrightarrow> start + (int rows - 1) * stride + width \<le> len"
  by (force simp: rows_inside_def list_all_iff of_nat_diff dest: bspec [of _ _ "rows - 1"])

subsection \<open>Interleavings of the probe\<close>

lemma probe_fold_saved:
  assumes "fold (probe_act env) acts (g, p) = (g', p')" and "0 < pr_pc p"
  shows "pr_pc p' = pr_pc p + count_list acts ProbeStep \<and> pr_saved p' = pr_saved p"
  using assms
proof (induction acts arbitrary: g p)
  case (Cons x acts)
  obtain g1 p1 where s: "probe_act env x (g, p) = (g1, p1)" by (cases "probe_act env x (g, p)")
  from s Cons.prems(2) have "pr_pc p1 = pr_pc p + (if x = ProbeStep then 1 else 0) \<and> pr_saved p1 = pr_saved p"
    by (cases x) (auto simp: Let_def split: prod.splits if_splits)
  with Cons.IH [of g1 p1] Cons.prems s show ?case by auto
qed simp

lemma probe_quiet:
  "probe_run env (replicate 6 ProbeStep) g =
     (g\<lparr>mg_h264 := media_new env 0 H264 \<noteq> None, mg_h265 := media_new env 0 H265 \<noteq> None, mg_vp8 := media_new env 0 VP8 \<noteq> None\<rparr>,
      \<lparr>pr_pc = 6, pr_saved = mg_surface g, pr_used = [0, 0, 0]\<rparr>)"
  by (simp add: probe_run_def probe_start_def set_surface_ptr_def numeral_eq_Suc)

subsection \<open>Properties\<close>

text \<open>
  C23. The two hardware routes agree: whatever packets a session consists of, if a fresh Goke decoder and a fresh
  platform decoder of the same codec have both taken all of them, then the buffers queued to the platform decoder are
  exactly the units written to the daemon's socket, in the same order, the parameter sets of the first packet first
  and marked with the codec-config flag 2, every packet after them once and with flag 0.
\<close>

theorem decoder_routes_agree:
  assumes "\<not> gd_csd_sent g" and "\<not> md_csd_sent dec" and "gd_hevc g = contains ''hevc'' (md_name dec)"
    and "unit_run goke_accept g ds = Some g'"
    and "unit_run (media_accept mc yuv fmt) (dec, dev, rgb) ds = Some (dec', dev', rgb')"
  shows "\<exists>units. md_queued dec' = md_queued dec @ units
    \<and> sk_out (gd_stream g') = sk_out (gd_stream g) @ concat (map (input_frame \<circ> fst) units)
    \<and> units = map (\<lambda>c. (c, 2)) (first_csd (gd_hevc g) ds) @ map (\<lambda>d. (d, 0)) ds"
proof -
  have "md_queued dec' = md_queued dec @ map (\<lambda>c. (c, 2)) (first_csd (gd_hevc g) ds) @ map (\<lambda>d. (d, 0)) ds"
    using media_sink.run_passed [OF _ assms(5)] assms(2,3) by (simp add: concat_map_singleton)
  moreover have "sk_out (gd_stream g') = sk_out (gd_stream g)
      @ concat (map input_frame (first_csd (gd_hevc g) ds)) @ concat (map input_frame ds)"
    using goke_sink.run_passed [OF _ assms(4)] assms(1) by simp
  ultimately show ?thesis by (intro exI [of _ "map (\<lambda>c. (c, 2)) (first_csd (gd_hevc g) ds) @ map (\<lambda>d. (d, 0)) ds"])
    (simp add: comp_def)
qed

text \<open>A device with room for every packet, whose output takes for ever.\<close>

definition demo_codec :: "nat media_codec" where
  "demo_codec = \<lparr>mc_dequeue_input = (\<lambda>_ t. (Inr (Some 100), t)), mc_queue_input = (\<lambda>_ _ t. (Inr (), t)),
     mc_dequeue_output = (\<lambda>wait t. (Inr None, t + wait)), mc_release_output = (\<lambda>_ t. (Inr (), t)),
     mc_output_format = (\<lambda>_ _. None), mc_now = (\<lambda>t. t)\<rparr>"

definition demo_decoder :: "bool \<Rightarrow> media_decoder" where
  "demo_decoder surface = \<lparr>md_name = H264_MIME_TYPE, md_render_to_surface = surface, md_csd_sent = False,
     md_warmup_exhausted = False, md_queued = []\<rparr>"

theorem decoder_routes_agree_witness:
  "\<exists>(g :: goke_decoder) dec dev rgb. unit_run (media_accept demo_codec (\<lambda>_ _ _ _ _ _ _. []) ARGB) (demo_decoder False, 0, []) demo_units
       = Some (dec, dev, rgb)
     \<and> md_queued dec = ([0, 0, 1, 0x67, 9], 2) # map (\<lambda>d. (d, 0)) demo_units
     \<and> sk_out (gd_stream g) = concat (map (input_frame \<circ> fst) (md_queued dec))"
proof -
  let ?g = "\<lparr>gd_stream = \<lparr>sk_out = [], sk_limit = None, sk_shutdown = False\<rparr>, gd_worker = True, gd_csd_sent = False, gd_hevc = False\<rparr>"
  have nh: "\<not> contains ''hevc'' H264_MIME_TYPE" by code_simp
  have g: "\<exists>g'. unit_run goke_accept ?g demo_units = Some g'"
    by (simp add: demo_units_def goke_accept_def goke_decode_def extract_param_sets_units demo_nals param_units_def
        is_param_nal_def unit_bytes_def send_def write_all_def)
  have m: "\<exists>dec dev rgb. unit_run (media_accept demo_codec (\<lambda>_ _ _ _ _ _ _. []) ARGB) (demo_decoder False, 0, []) demo_units
      = Some (dec, dev, rgb)"
    by (simp add: demo_units_def media_accept_def queue_csd_def media_decode_def queue_packet_def take_output_def demo_codec_def
        demo_decoder_def csd_granted_def granted_def nh extract_param_sets_units demo_nals param_units_def is_param_nal_def
        unit_bytes_def)
  from g m obtain g' dec dev rgb where g': "unit_run goke_accept ?g demo_units = Some g'"
    and m': "unit_run (media_accept demo_codec (\<lambda>_ _ _ _ _ _ _. []) ARGB) (demo_decoder False, 0, []) demo_units = Some (dec, dev, rgb)"
    by blast
  from decoder_routes_agree [OF _ _ _ g' m'] have
    "md_queued dec = ([0, 0, 1, 0x67, 9], 2) # map (\<lambda>d. (d, 0)) demo_units"
    "sk_out (gd_stream g') = concat (map (input_frame \<circ> fst) (md_queued dec))"
    by (simp_all add: demo_decoder_def nh demo_first_csd)
  with m' show ?thesis by (intro exI conjI)
qed

text \<open>
  C24. Decoding returns: as long as each poll that finds no output takes time, \<open>decode\<close> comes back with a result on
  every input and in every state, the warm-up loop of a surface included; and when it renders to a surface it touches
  no memory outside its buffers.
\<close>

theorem media_decode_returns:
  assumes "clock_advances mc"
  shows "\<exists>r. media_decode mc yuv fmt dec dev dat rgb = Some r
    \<and> (md_render_to_surface dec \<longrightarrow> r \<noteq> Panic)"
proof -
  obtain r1 dec1 dev1 where c: "queue_csd mc dec dev dat = Ret (r1, dec1, dev1)"
    and surf1: "md_render_to_surface dec1 = md_render_to_surface dec"
    using queue_csd_total [of mc dec dev dat] by (elim exE conjE)
  obtain r2 dec2 dev2 where p: "queue_packet mc dec1 dev1 dat = (r2, dec2, dev2)" by (cases "queue_packet mc dec1 dev1 dat")
  have surf2: "md_render_to_surface dec2 = md_render_to_surface dec"
    using p surf1 by (auto simp: queue_packet_def split: prod.splits sum.splits option.splits if_splits)
  have "\<exists>r. take_output mc yuv fmt dec2 dev2 rgb = Some r \<and> (md_render_to_surface dec \<longrightarrow> r \<noteq> Panic)"
  proof -
    obtain r0 d0 where o: "mc_dequeue_output mc 100 dev2 = (r0, d0)" by (cases "mc_dequeue_output mc 100 dev2")
    obtain w wd where w: "warmup_poll mc (mc_now mc d0 + 3000) d0 = Some (w, wd)"
      using warmup_poll_returns [OF assms, of "mc_now mc d0 + 3000" d0] by auto
    show ?thesis
      using o w surf2
      by (cases r0) (auto simp: take_output_def render_output_def split: option.splits prod.splits sum.splits bool.splits)
  qed
  with c p show ?thesis by (cases r1; cases r2) (auto simp: media_decode_def)
qed


theorem media_decode_returns_witness:
  "\<exists>r. media_decode demo_codec (\<lambda>_ _ _ _ _ _ _. []) ARGB (demo_decoder True) 0 [0, 0, 1, 0x67, 9] [] = Some r \<and> r \<noteq> Panic"
proof -
  have "clock_advances demo_codec" by (simp add: clock_advances_def demo_codec_def)
  moreover have "md_render_to_surface (demo_decoder True)" by (simp add: demo_decoder_def)
  ultimately show ?thesis
    using media_decode_returns [of demo_codec "\<lambda>_ _ _ _ _ _ _. []" ARGB "demo_decoder True" 0 "[0, 0, 1, 0x67, 9]" "[]"] by blast
qed

text \<open>
  The conversion of a decoded picture, in buffer mode: for a picture of even height with an even stride not smaller
  than its width, whose pixels fit in memory, a buffer of exactly three half-planes (\<open>stride * height * 3 / 2\<close>) is
  converted within its bounds with the chroma planes at \<open>stride * height\<close> and a quarter plane after it; but the size
  the decoder reports is not compared with the buffer, and a buffer that is shorter than the luma rows makes the
  conversion read past its end.
\<close>

theorem yuv_conversion_bounds:
  fixes a b :: nat
  assumes "0 < w" and "w \<le> 2 * int a" and "0 < b" and "8 * w * int b \<le> int (usize_MAX div 2)" and "fmt \<noteq> Raw"
  shows "(length buf = 6 * a * b \<longrightarrow>
      convert_output yuv fmt buf w (2 * int b) (2 * int a) rgb
        = Ret (Inr (), yuv fmt buf (drop (4 * a * b) buf) (drop (5 * a * b) buf) (2 * int a) w (2 * int b)))
    \<and> (int (length buf) < 2 * int a * (2 * int b - 1) + w \<longrightarrow>
      convert_output yuv fmt buf w (2 * int b) (2 * int a) rgb = Panic)"
proof -
  let ?n = "nat (8 * w * int b)"
  have sz: "rgb_size w (2 * int b) = Ret ?n"
  proof -
    have "2 * int b * w * 4 = 8 * w * int b" by simp
    moreover have "0 \<le> 8 * w * int b" using assms(1) by simp
    moreover have "8 * w * int b < int usize_MAX + 1" using assms(4) by linarith
    ultimately have "(2 * int b * w * 4) mod (int usize_MAX + 1) = 8 * w * int b"
      by (simp only: mod_pos_pos_trivial)
    with assms(4) show ?thesis by (simp add: rgb_size_def Let_def nat_le_iff)
  qed
  have rows: "nat \<bar>2 * int b\<bar> = 2 * b" "(2 * b + 1) div 2 = b" by (simp_all add: nat_mult_distrib)
  have hs: "half (2 * int a) = int a" by (simp add: half_def)
  show ?thesis
  proof (intro conjI impI)
    assume len: "length buf = 6 * a * b"
    then have u: "length buf * 2 div 3 = 4 * a * b" and v: "length buf * 5 div 6 = 5 * a * b" by simp_all
    have hw: "(w + 1) div 2 \<le> int a" using assms(2) by linarith
    have ab: "(int b - 1) * int a + int a = int a * int b" by (simp add: algebra_simps)
    have "(int (2 * b) - 1) * (2 * int a) + w = 4 * (int a * int b) - 2 * int a + w" by (simp add: algebra_simps)
    moreover have "0 \<le> int a * int b" by simp
    moreover have "int (length buf) = 6 * (int a * int b)" using len by simp
    ultimately have luma: "(int (2 * b) - 1) * (2 * int a) + w \<le> int (length buf)" using assms(2) by linarith
    have "rows_inside 0 (2 * int a) (2 * b) w (int (length buf))"
      by (rule rows_inside_I) (use luma in simp_all)
    moreover have chroma: "rows_inside (int c) (int a) b ((w + 1) div 2) (int (length buf))" if "c \<le> 5 * a * b" for c
    proof (rule rows_inside_I)
      have "int c \<le> 5 * (int a * int b)" using that by (metis int_ops(7) mult.assoc of_nat_le_iff of_nat_numeral)
      moreover have "int (length buf) = 6 * (int a * int b)" using len by simp
      ultimately show "b = 0 \<or> int c + (int b - 1) * int a + (w + 1) div 2 \<le> int (length buf)"
        using hw ab by linarith
    qed simp_all
    moreover have "rows_inside (int (4 * a * b)) (int a) b ((w + 1) div 2) (int (length buf))" by (rule chroma) simp
    moreover have "rows_inside (int (5 * a * b)) (int a) b ((w + 1) div 2) (int (length buf))" by (rule chroma) simp
    moreover have "rows_inside 0 (4 * w) (2 * b) (4 * w) (int ?n)"
      by (rule rows_inside_I) (use assms(1) in \<open>simp_all add: algebra_simps\<close>)
    ultimately have "i420_inside (length buf) (4 * a * b) (5 * a * b) (2 * int a) w (2 * int b) ?n"
      unfolding i420_inside_def Let_def rows hs by simp
    with assms(1,3,5) show "convert_output yuv fmt buf w (2 * int b) (2 * int a) rgb
        = Ret (Inr (), yuv fmt buf (drop (4 * a * b) buf) (drop (5 * a * b) buf) (2 * int a) w (2 * int b))"
      by (simp add: convert_output_def sz u v Let_def)
  next
    assume short: "int (length buf) < 2 * int a * (2 * int b - 1) + w"
    have "\<not> rows_inside 0 (2 * int a) (2 * b) w (int (length buf))"
      using rows_inside_last [of 0 "2 * int a" "2 * b" w "int (length buf)"] assms(3) short by (auto simp: algebra_simps)
    then have "\<not> i420_inside (length buf) u v (2 * int a) w (2 * int b) n" for u v n
      unfolding i420_inside_def Let_def rows using assms(1,3) by simp
    with assms(5) show "convert_output yuv fmt buf w (2 * int b) (2 * int a) rgb = Panic"
      by (simp add: convert_output_def sz Let_def)
  qed
qed

theorem yuv_conversion_bounds_witness:
  "convert_output (\<lambda>_ y u v _ _ _. [hd y, hd u, hd v]) ARGB [1, 1, 1, 1, 2, 3] 2 2 2 [] = Ret (Inr (), [1, 2, 3])
   \<and> convert_output (\<lambda>_ y u v _ _ _. [hd y, hd u, hd v]) ARGB [1, 1, 1] 2 2 2 [] = Panic"
  using yuv_conversion_bounds [of 2 1 1 ARGB "[1, 1, 1, 1, 2, 3]" "\<lambda>_ y u v _ _ _. [hd y, hd u, hd v]" "[]"]
    yuv_conversion_bounds [of 2 1 1 ARGB "[1, 1, 1]" "\<lambda>_ y u v _ _ _. [hd y, hd u, hd v]" "[]"]
  by (simp add: usize_MAX_def)


text \<open>
  Probing and the surface pointer: undisturbed, a probe configures none of its three decoders with a surface,
  records for each format whether a decoder could be created, and leaves the surface pointer as it found it. But it
  does so by writing the old value back: in every interleaving in which the user interface hands over surfaces while
  the probe runs, all of them are lost, and the pointer ends with the value it had when the probe began.
\<close>

theorem probe_surface_race:
  "fst (probe_run env (replicate 6 ProbeStep) g)
      = g\<lparr>mg_h264 := media_new env 0 H264 \<noteq> None, mg_h265 := media_new env 0 H265 \<noteq> None, mg_vp8 := media_new env 0 VP8 \<noteq> None\<rparr>
   \<and> pr_used (snd (probe_run env (replicate 6 ProbeStep) g)) = [0, 0, 0]
   \<and> (count_list acts ProbeStep = 4 \<longrightarrow>
        mg_surface (fst (probe_run env (ProbeStep # acts @ [ProbeStep]) g)) = mg_surface g)"
proof -
  have "mg_surface (fst (probe_run env (ProbeStep # acts @ [ProbeStep]) g)) = mg_surface g" if "count_list acts ProbeStep = 4"
  proof -
    let ?p1 = "\<lparr>pr_pc = 1, pr_saved = mg_surface g, pr_used = []\<rparr>"
    obtain g2 p2 where f: "fold (probe_act env) acts (g, ?p1) = (g2, p2)" by (cases "fold (probe_act env) acts (g, ?p1)")
    from probe_fold_saved [OF f] that have p2: "pr_pc p2 = 5" "pr_saved p2 = mg_surface g" by simp_all
    have "probe_run env (ProbeStep # acts @ [ProbeStep]) g = probe_act env ProbeStep (g2, p2)"
      using f by (simp add: probe_run_def probe_start_def)
    with p2 show ?thesis by (simp add: set_surface_ptr_def)
  qed
  then show ?thesis by (simp add: probe_quiet)
qed

definition demo_create :: create_env where
  "demo_create = \<lparr>cr_available = (\<lambda>_. True), cr_configure = (\<lambda>_ _ n. n \<ge> 2), cr_start = (\<lambda>_. True)\<rparr>"

theorem probe_surface_race_witness:
  "mg_surface (fst (probe_run demo_create
      [ProbeStep, ProbeStep, ProbeStep, SetSurface 77, ProbeStep, ProbeStep, ProbeStep]
      \<lparr>mg_surface = 0, mg_h264 = False, mg_h265 = False, mg_vp8 = False, mg_probed = False\<rparr>)) = 0"
  using probe_surface_race [of demo_create "\<lparr>mg_surface = 0, mg_h264 = False, mg_h265 = False, mg_vp8 = False, mg_probed = False\<rparr>"
      "[ProbeStep, ProbeStep, SetSurface 77, ProbeStep, ProbeStep]"]
  by simp

end
