(* ===== verification/Codec_Negotiation.thy ===== *)
theory Codec_Negotiation
  imports Media_Codec Secrets
begin

text \<open>
  Choice of the video codec (\<^verbatim>\<open>libs/scrap/src/common/codec.rs\<close>): on the controlled side
  \<^verbatim>\<open>Encoder::update\<close> picks the format of the one stream all viewers share from what each of them can
  decode and prefers; on the controlling side \<^verbatim>\<open>Decoder\<close> advertises abilities, creates the backend
  for a format and routes frames to it.

  Hardware encoders, memory size and options are arguments. A hash map's iteration order is the
  order of its association list, so what is proved of an update holds for every order.
\<close>

subsection \<open>Data\<close>

text \<open>\<^verbatim>\<open>EnumOrUnknown<PreferCodec>\<close> is the number on the wire.\<close>

datatype prefer_codec = PAuto | PVP9 | PH264 | PH265 | PVP8 | PAV1

definition prefer_value :: "prefer_codec \<Rightarrow> int" where
  "prefer_value p = (case p of PAuto \<Rightarrow> 0 | PVP9 \<Rightarrow> 1 | PH264 \<Rightarrow> 2 | PH265 \<Rightarrow> 3 | PVP8 \<Rightarrow> 4 | PAV1 \<Rightarrow> 5)"

definition prefer_or_auto :: "int \<Rightarrow> prefer_codec" where
  "prefer_or_auto v = (if v = 1 then PVP9 else if v = 2 then PH264 else if v = 3 then PH265
     else if v = 4 then PVP8 else if v = 5 then PAV1 else PAuto)"

record supported_decoding =
  sd_vp9 :: int
  sd_h264 :: int
  sd_h265 :: int
  sd_prefer :: int
  sd_vp8 :: int
  sd_av1 :: int
  sd_i444_vp9 :: bool
  sd_i444_av1 :: bool
  sd_prefer_chroma :: int

definition default_decoding :: supported_decoding where
  "default_decoding = \<lparr>sd_vp9 = 0, sd_h264 = 0, sd_h265 = 0, sd_prefer = 0, sd_vp8 = 0, sd_av1 = 0,
     sd_i444_vp9 = False, sd_i444_av1 = False, sd_prefer_chroma = 0\<rparr>"

record supported_encoding =
  se_vp8 :: bool
  se_av1 :: bool
  se_h264 :: bool
  se_h265 :: bool

record codec_state =
  cs_decodings :: "(int, supported_decoding) hashmap"
  cs_format :: codec_format
  cs_usable :: "supported_encoding option"

record codec_env =
  ce_disable_av1 :: bool
  ce_opt :: "string \<Rightarrow> string"
  ce_total_memory :: nat
  ce_vram :: "codec_format \<Rightarrow> bool"
  ce_hwram :: "codec_format \<Rightarrow> string option"
  ce_vram_option :: bool

datatype encoding_update = Update int supported_decoding | Remove int | NewOnlyVP9 int | Check

definition enable_hwcodec_option :: "(string \<Rightarrow> string) \<Rightarrow> bool" where
  "enable_hwcodec_option opt = option2bool ''enable-hwcodec'' (opt ''enable-hwcodec'')"

subsection \<open>The encoder's choice\<close>

definition apply_update :: "encoding_update \<Rightarrow> (int, supported_decoding) hashmap \<Rightarrow> (int, supported_decoding) hashmap" where
  "apply_update u m =
     (case u of
        Update i d \<Rightarrow> hm_insert i d m
      | Remove i \<Rightarrow> hm_remove i m
      | NewOnlyVP9 i \<Rightarrow> hm_insert i (default_decoding\<lparr>sd_vp9 := 1\<rparr>) m
      | Check \<Rightarrow> m)"

definition all_support :: "(supported_decoding \<Rightarrow> int) \<Rightarrow> (int, supported_decoding) hashmap \<Rightarrow> bool" where
  "all_support ability m \<longleftrightarrow> m \<noteq> [] \<and> list_all (\<lambda>(_, s). ability s > 0) m"

text \<open>Whether some encoder of this machine produces the format, given that all peers decode it.\<close>

definition hw_encoding :: "codec_env \<Rightarrow> codec_format \<Rightarrow> bool \<Rightarrow> bool" where
  "hw_encoding env f all_decode =
     (ce_vram_option env \<and> all_decode \<and> ce_vram env f
      \<or> enable_hwcodec_option (ce_opt env) \<and> all_decode \<and> ce_hwram env f \<noteq> None)"

definition usable_of :: "codec_env \<Rightarrow> (int, supported_decoding) hashmap \<Rightarrow> supported_encoding" where
  "usable_of env m =
     (let h264 = all_support sd_h264 m; h265 = all_support sd_h265 m in
      \<lparr>se_vp8 = all_support sd_vp8 m, se_av1 = (all_support sd_av1 m \<and> \<not> ce_disable_av1 env),
       se_h264 = (h264 \<and> hw_encoding env H264 h264), se_h265 = (h265 \<and> hw_encoding env H265 h265)\<rparr>)"

definition usable_pref :: "supported_encoding \<Rightarrow> int \<Rightarrow> bool" where
  "usable_pref u v \<longleftrightarrow> v = prefer_value PVP9 \<or> v = prefer_value PVP8 \<and> se_vp8 u \<or> v = prefer_value PAV1 \<and> se_av1 u
     \<or> v = prefer_value PH264 \<and> se_h264 u \<or> v = prefer_value PH265 \<and> se_h265 u"

text \<open>The counting loop, and the first entry with the greatest count.\<close>

fun bump_count :: "int \<Rightarrow> (int \<times> nat) list \<Rightarrow> (int \<times> nat) list" where
  "bump_count p [] = [(p, 1)]"
| "bump_count p ((q, n) # cs) = (if q = p then (q, n + 1) # cs else (q, n) # bump_count p cs)"

definition counts_of :: "int list \<Rightarrow> (int \<times> nat) list" where
  "counts_of prefs = fold bump_count prefs []"

definition most_frequent :: "int list \<Rightarrow> int" where
  "most_frequent prefs =
     (let counts = counts_of prefs;
          max_count = fold max (map snd counts) 0
      in case find (\<lambda>(_, n). n = max_count) counts of Some (p, _) \<Rightarrow> p | None \<Rightarrow> prefer_value PAuto)"

definition auto_codec :: "codec_env \<Rightarrow> supported_encoding \<Rightarrow> codec_format" where
  "auto_codec env u =
     (let c = (if se_av1 u \<and> ce_opt env ''av1-test'' \<noteq> ''N'' then AV1 else VP9);
          c = (if se_h264 u then H264 else c);
          c = (if se_h265 u then H265 else c)
      in if (c = VP9 \<or> c = AV1) \<and> se_vp8 u \<and> ce_total_memory env \<le> 4 * 1024 * 1024 * 1024 then VP8 else c)"

definition encoder_update :: "codec_env \<Rightarrow> encoding_update \<Rightarrow> codec_state \<Rightarrow> codec_state" where
  "encoder_update env upd st =
     (let m = apply_update upd (cs_decodings st);
          u = usable_of env m;
          h264 = hw_encoding env H264 (all_support sd_h264 m);
          h265 = hw_encoding env H265 (all_support sd_h265 m);
          preference = prefer_or_auto (most_frequent (filter (usable_pref u) (map (\<lambda>(_, s). sd_prefer s) m)));
          auto = auto_codec env u;
          format = (case preference of
              PVP8 \<Rightarrow> VP8 | PVP9 \<Rightarrow> VP9 | PAV1 \<Rightarrow> AV1
            | PH264 \<Rightarrow> if h264 then H264 else auto
            | PH265 \<Rightarrow> if h265 then H265 else auto
            | PAuto \<Rightarrow> auto)
      in st\<lparr>cs_decodings := m, cs_format := format, cs_usable := Some u\<rparr>)"

definition supported_encoding_of :: "codec_env \<Rightarrow> supported_encoding" where
  "supported_encoding_of env =
     (let hw = (\<lambda>f. enable_hwcodec_option (ce_opt env) \<and> ce_hwram env f \<noteq> None \<or> ce_vram_option env \<and> ce_vram env f)
      in \<lparr>se_vp8 = True, se_av1 = (\<not> ce_disable_av1 env), se_h264 = hw H264, se_h265 = hw H265\<rparr>)"

datatype encoder_cfg = VPX codec_format | AOM | HWRAM string | VRAM codec_format

definition to_lower :: "string \<Rightarrow> string" where
  "to_lower s = map (\<lambda>c. let n = (of_char c :: nat) in if 65 \<le> n \<and> n \<le> 90 then char_of (n + 32) else c) s"

definition set_fallback :: "encoder_cfg \<Rightarrow> codec_state \<Rightarrow> codec_state" where
  "set_fallback cfg st =
     (case cfg of
        VPX f \<Rightarrow> st\<lparr>cs_format := f\<rparr>
      | AOM \<Rightarrow> st\<lparr>cs_format := AV1\<rparr>
      | HWRAM name \<Rightarrow>
          let n = to_lower name in
          st\<lparr>cs_format := (if contains ''vp8'' n then VP8 else if contains ''vp9'' n then VP9
             else if contains ''av1'' n then AV1 else if contains ''h264'' n then H264 else H265)\<rparr>
      | VRAM f \<Rightarrow> if f = H264 \<or> f = H265 then st\<lparr>cs_format := f\<rparr> else st)"

definition I444 :: int where "I444 = 1"

definition use_i444 :: "encoder_cfg \<Rightarrow> codec_state \<Rightarrow> bool" where
  "use_i444 cfg st =
     (let ds = map snd (cs_decodings st);
          prefer = list_all (\<lambda>d. sd_prefer_chroma d = I444) ds;
          useable = (case cfg of
              VPX f \<Rightarrow> f = VP9 \<and> list_all sd_i444_vp9 ds
            | AOM \<Rightarrow> list_all sd_i444_av1 ds
            | _ \<Rightarrow> False)
      in prefer \<and> useable \<and> ds \<noteq> [])"


subsection \<open>The decoder's side\<close>

text \<open>\<^verbatim>\<open>Decoder::preference\<close>, from the peer's stored options (none for a connection without id).\<close>

definition preference :: "string \<Rightarrow> (string \<Rightarrow> string option) \<Rightarrow> prefer_codec \<times> int" where
  "preference peer options =
     (if peer = [] then (PAuto, 0)
      else
        let codec = (case options ''codec-preference'' of None \<Rightarrow> [] | Some c \<Rightarrow> c) in
        (if codec = ''vp8'' then PVP8 else if codec = ''vp9'' then PVP9 else if codec = ''av1'' then PAV1
         else if codec = ''h264'' then PH264 else if codec = ''h265'' then PH265 else PAuto,
         if options ''i444'' = Some ''Y'' then I444 else 0))"

definition mark_unsupported :: "codec_format \<Rightarrow> supported_decoding \<Rightarrow> supported_decoding" where
  "mark_unsupported f d =
     (case f of
        VP8 \<Rightarrow> d\<lparr>sd_vp8 := 0\<rparr> | VP9 \<Rightarrow> d\<lparr>sd_vp9 := 0\<rparr> | AV1 \<Rightarrow> d\<lparr>sd_av1 := 0\<rparr>
      | H264 \<Rightarrow> d\<lparr>sd_h264 := 0\<rparr> | H265 \<Rightarrow> d\<lparr>sd_h265 := 0\<rparr> | Unknown \<Rightarrow> d)"

text \<open>Abilities of the Android build: the flags are those of a completed probe.\<close>

definition supported_decodings ::
  "codec_env \<Rightarrow> create_env \<Rightarrow> string \<Rightarrow> (string \<Rightarrow> string option) \<Rightarrow> codec_format list \<Rightarrow> media_globals
     \<Rightarrow> supported_decoding \<times> media_globals" where
  "supported_decodings env cr peer options unsupported g =
     (let g = ensure_mediacodec_probed cr g;
          (prefer, chroma) = preference peer options;
          d = \<lparr>sd_vp9 = 1, sd_h264 = 0, sd_h265 = 0, sd_prefer = prefer_value prefer, sd_vp8 = 1,
               sd_av1 = (if ce_disable_av1 env then 0 else 1), sd_i444_vp9 = True, sd_i444_av1 = True,
               sd_prefer_chroma = chroma\<rparr>;
          d = (if enable_hwcodec_option (ce_opt env)
               then d\<lparr>sd_h264 := (if mg_h264 g then 1 else 0), sd_h265 := (if mg_h265 g then 1 else 0), sd_vp8 := 0\<rparr>
               else d)
      in (fold mark_unsupported unsupported d, g))"

text \<open>Which software decoders can be created, and what the hardware routes meet.\<close>

record decoder_env =
  de_software :: "codec_format \<Rightarrow> bool"
  de_goke :: goke_env
  de_create :: create_env
  de_surface :: nat
  de_hwcodec :: bool

record video_decoder =
  vd_vp8 :: bool
  vd_vp9 :: bool
  vd_av1 :: bool
  vd_h264_media_codec :: "media_decoder option"
  vd_h265_media_codec :: "media_decoder option"
  vd_h264_goke :: "goke_decoder option"
  vd_h265_goke :: "goke_decoder option"
  vd_vp8_media_codec :: "media_decoder option"
  vd_format :: codec_format
  vd_valid :: bool

definition no_decoder :: "codec_format \<Rightarrow> video_decoder" where
  "no_decoder f = \<lparr>vd_vp8 = False, vd_vp9 = False, vd_av1 = False, vd_h264_media_codec = None, vd_h265_media_codec = None,
     vd_h264_goke = None, vd_h265_goke = None, vd_vp8_media_codec = None, vd_format = f, vd_valid = False\<rparr>"

definition decoder_new :: "decoder_env \<Rightarrow> codec_format \<Rightarrow> video_decoder" where
  "decoder_new env f =
     (let media = (if de_hwcodec env then media_new (de_create env) (de_surface env) f else None);
          goke = (if de_hwcodec env then goke_new (de_goke env) f else None);
          media' = (if goke = None then media else None);
          none = no_decoder f
      in case f of
           VP8 \<Rightarrow>
             let sw = (media = None \<and> de_software env VP8)
             in none\<lparr>vd_vp8_media_codec := media, vd_vp8 := sw, vd_valid := (media \<noteq> None \<or> sw)\<rparr>
         | VP9 \<Rightarrow> none\<lparr>vd_vp9 := de_software env VP9, vd_valid := de_software env VP9\<rparr>
         | AV1 \<Rightarrow> none\<lparr>vd_av1 := de_software env AV1, vd_valid := de_software env AV1\<rparr>
         | H264 \<Rightarrow>
             none\<lparr>vd_h264_goke := goke, vd_h264_media_codec := media', vd_valid := (goke \<noteq> None \<or> media' \<noteq> None)\<rparr>
         | H265 \<Rightarrow>
             none\<lparr>vd_h265_goke := goke, vd_h265_media_codec := media', vd_valid := (goke \<noteq> None \<or> media' \<noteq> None)\<rparr>
         | Unknown \<Rightarrow> none)"

text \<open>The backend a frame goes to, or the refusal.\<close>

datatype backend = Software codec_format | MediaCodecBackend media_decoder | GokeBackend goke_decoder | NoBackend string

definition route_frame :: "video_decoder \<Rightarrow> codec_format \<Rightarrow> backend" where
  "route_frame d f =
     (case f of
        VP8 \<Rightarrow> (case vd_vp8_media_codec d of Some m \<Rightarrow> MediaCodecBackend m
               | None \<Rightarrow> if vd_vp8 d then Software VP8 else NoBackend ''vp8 decoder not available'')
      | VP9 \<Rightarrow> if vd_vp9 d then Software VP9 else NoBackend ''vp9 decoder not available''
      | AV1 \<Rightarrow> if vd_av1 d then Software AV1 else NoBackend ''av1 decoder not available''
      | H264 \<Rightarrow> (case vd_h264_goke d of Some g \<Rightarrow> GokeBackend g
               | None \<Rightarrow> (case vd_h264_media_codec d of Some m \<Rightarrow> MediaCodecBackend m
                         | None \<Rightarrow> NoBackend ''don't support h264!''))
      | H265 \<Rightarrow> (case vd_h265_goke d of Some g \<Rightarrow> GokeBackend g
               | None \<Rightarrow> (case vd_h265_media_codec d of Some m \<Rightarrow> MediaCodecBackend m
                         | None \<Rightarrow> NoBackend ''don't support h265!''))
      | Unknown \<Rightarrow> NoBackend ''unsupported video frame type!'')"

text \<open>One message may hold several encoded frames.\<close>

fun handle_goke_video_frame :: "bool \<Rightarrow> goke_decoder \<Rightarrow> bytes list \<Rightarrow> ((io_error + bool) \<times> goke_decoder) rust" where
  "handle_goke_video_frame accepted g [] = Ret (Inr accepted, g)"
| "handle_goke_video_frame accepted g (f # fs) =
     rust_bind (goke_decode g f) (\<lambda>r. case r of
       (Inl e, g) \<Rightarrow> Ret (Inl e, g)
     | (Inr b, g) \<Rightarrow> handle_goke_video_frame b g fs)"

definition handle_mediacodec_video_frame ::
  "'d media_codec \<Rightarrow> yuv_convert \<Rightarrow> image_format \<Rightarrow> media_decoder \<Rightarrow> 'd \<Rightarrow> bytes list \<Rightarrow> bytes
     \<Rightarrow> ((media_error + bool) \<times> media_decoder \<times> 'd \<times> bytes) rust option" where
  "handle_mediacodec_video_frame mc yuv fmt dec dev frames rgb =
     (case frames of
        [] \<Rightarrow> Some (Ret (Inr False, dec, dev, rgb))
      | f # _ \<Rightarrow> media_decode mc yuv fmt dec dev f rgb)"

subsection \<open>The most frequent preference\<close>

lemma map_of_bump_count:
  "map_of (bump_count p cs) q
     = (if q = p then Some (case map_of cs p of None \<Rightarrow> 1 | Some n \<Rightarrow> n + 1) else map_of cs q)"
  by (induction p cs rule: bump_count.induct) auto

lemma keys_bump_count: "set (map fst (bump_count p cs)) = insert p (set (map fst cs))"
  by (induction p cs rule: bump_count.induct) auto

lemma distinct_bump_count: "distinct (map fst cs) \<Longrightarrow> distinct (map fst (bump_count p cs))"
  by (induction p cs rule: bump_count.induct) (use keys_bump_count in auto)

lemma fold_bump_count:
  "map_of (fold bump_count prefs cs) q
     = (if q \<in> set prefs then Some (count_list prefs q + (case map_of cs q of None \<Rightarrow> 0 | Some n \<Rightarrow> n)) else map_of cs q)"
  by (induction prefs arbitrary: cs) (auto simp: map_of_bump_count count_list_0_iff split: option.splits)

lemma distinct_counts_of: "distinct (map fst (counts_of prefs))"
proof -
  have "distinct (map fst cs) \<Longrightarrow> distinct (map fst (fold bump_count prefs cs))" for cs
    by (induction prefs arbitrary: cs) (auto intro: distinct_bump_count)
  then show ?thesis by (simp add: counts_of_def)
qed

lemma counts_of_iff: "(q, n) \<in> set (counts_of prefs) \<longleftrightarrow> q \<in> set prefs \<and> n = count_list prefs q"
  using map_of_eq_Some_iff [OF distinct_counts_of, of prefs q n]
  by (auto simp: counts_of_def fold_bump_count split: if_splits)

lemma fold_max_nat: "fold max (xs :: nat list) a = Max (insert a (set xs))"
  using Max.set_eq_fold [of a xs] by simp

lemma most_frequent_max:
  assumes "prefs \<noteq> []"
  shows "most_frequent prefs \<in> set prefs \<and> (\<forall>q. count_list prefs q \<le> count_list prefs (most_frequent prefs))"
proof -
  let ?m = "fold max (map snd (counts_of prefs)) 0"
  obtain x where x: "x \<in> set prefs" using assms by (cases prefs) auto
  have m: "?m = Max (insert 0 (snd ` set (counts_of prefs)))" by (simp add: fold_max_nat)
  have le: "count_list prefs q \<le> ?m" if "q \<in> set prefs" for q
    unfolding m by (rule Max_ge) (use that counts_of_iff [of q "count_list prefs q" prefs] in \<open>force+\<close>)
  have pos: "0 < count_list prefs x" using x count_list_0_iff [of prefs x] by blast
  have "?m \<in> insert 0 (snd ` set (counts_of prefs))" unfolding m by (rule Max_in) auto
  with le [OF x] pos have "\<exists>y \<in> set (counts_of prefs). snd y = ?m" by force
  then obtain y where y: "find (\<lambda>(_, n). n = ?m) (counts_of prefs) = Some y"
    by (cases "find (\<lambda>(_, n). n = ?m) (counts_of prefs)") (auto simp: find_None_iff)
  then have "y \<in> set (counts_of prefs)" and "snd y = ?m"
    by (auto simp: find_Some_iff) (metis nth_mem)
  then have y': "fst y \<in> set prefs" "count_list prefs (fst y) = ?m"
    using counts_of_iff [of "fst y" "snd y" prefs, unfolded prod.collapse] by simp_all
  have mf: "most_frequent prefs = fst y" unfolding most_frequent_def Let_def y by (cases y) simp
  have "count_list prefs q \<le> ?m" for q by (cases "q \<in> set prefs") (auto simp: le count_list_0_iff)
  with mf y' show ?thesis by simp
qed

lemma most_frequent_Nil: "most_frequent [] = prefer_value PAuto"
  by (simp add: most_frequent_def counts_of_def)


subsection \<open>Properties\<close>

definition ability :: "codec_format \<Rightarrow> supported_decoding \<Rightarrow> int" where
  "ability f d = (case f of VP8 \<Rightarrow> sd_vp8 d | VP9 \<Rightarrow> sd_vp9 d | AV1 \<Rightarrow> sd_av1 d | H264 \<Rightarrow> sd_h264 d | H265 \<Rightarrow> sd_h265 d
     | Unknown \<Rightarrow> 0)"

definition encodable :: "codec_env \<Rightarrow> codec_format \<Rightarrow> bool" where
  "encodable env f =
     (case f of AV1 \<Rightarrow> \<not> ce_disable_av1 env
      | H264 \<Rightarrow> hw_encoding env H264 True | H265 \<Rightarrow> hw_encoding env H265 True | Unknown \<Rightarrow> False | _ \<Rightarrow> True)"

definition format_of_pref :: "int \<Rightarrow> codec_format" where
  "format_of_pref v = (case prefer_or_auto v of PVP8 \<Rightarrow> VP8 | PVP9 \<Rightarrow> VP9 | PAV1 \<Rightarrow> AV1 | PH264 \<Rightarrow> H264 | PH265 \<Rightarrow> H265
     | PAuto \<Rightarrow> Unknown)"

definition shared_format :: "codec_env \<Rightarrow> (int, supported_decoding) hashmap \<Rightarrow> codec_format \<Rightarrow> bool" where
  "shared_format env m f \<longleftrightarrow> f = VP9 \<or> (m \<noteq> [] \<and> (\<forall>(i, d) \<in> set m. 0 < ability f d) \<and> encodable env f)"

lemma all_support_iff: "all_support a m \<longleftrightarrow> m \<noteq> [] \<and> (\<forall>(i, d) \<in> set m. 0 < a d)"
  by (simp add: all_support_def list_all_iff)

lemma hw_encoding_mono: "hw_encoding env f b \<Longrightarrow> hw_encoding env f True"
  by (auto simp: hw_encoding_def)

lemma usable_shared:
  "(se_vp8 (usable_of env m) \<longrightarrow> shared_format env m VP8) \<and> (se_av1 (usable_of env m) \<longrightarrow> shared_format env m AV1)
   \<and> (se_h264 (usable_of env m) \<longrightarrow> shared_format env m H264) \<and> (se_h265 (usable_of env m) \<longrightarrow> shared_format env m H265)"
  by (auto simp: usable_of_def Let_def all_support_iff shared_format_def ability_def encodable_def dest: hw_encoding_mono)

lemma auto_codec_shared: "shared_format env m (auto_codec env (usable_of env m))"
  using usable_shared [of env m] by (auto simp: auto_codec_def Let_def shared_format_def)

lemma usable_pref_shared:
  "usable_pref (usable_of env m) v \<Longrightarrow> format_of_pref v \<noteq> Unknown \<and> shared_format env m (format_of_pref v)"
  using usable_shared [of env m]
  by (auto simp: usable_pref_def format_of_pref_def prefer_or_auto_def prefer_value_def shared_format_def)

text \<open>
  C25. The negotiated codec: after every update of the viewers, whatever the hash map's order, the format of the shared
  stream is VP9 or one that every connected viewer can decode and this machine can encode. If any viewer states a
  preference that is usable by all, the format is the one preferred, among those usable, by the greatest number of
  viewers.
\<close>

theorem negotiated_codec_shared:
  fixes env upd st
  defines "st' \<equiv> encoder_update env upd st"
  defines "prefs \<equiv> filter (usable_pref (usable_of env (cs_decodings st'))) (map (\<lambda>(_, d). sd_prefer d) (cs_decodings st'))"
  shows "shared_format env (cs_decodings st') (cs_format st')
    \<and> (prefs \<noteq> [] \<longrightarrow> (\<exists>v \<in> set prefs. cs_format st' = format_of_pref v \<and> (\<forall>q. count_list prefs q \<le> count_list prefs v)))"
proof -
  let ?m = "cs_decodings st'"
  let ?u = "usable_of env ?m"
  have m: "?m = apply_update upd (cs_decodings st)" by (simp add: st'_def encoder_update_def Let_def)
  show ?thesis
  proof (cases "prefs = []")
    case True
    then have "cs_format st' = auto_codec env ?u"
      using m by (simp add: st'_def prefs_def encoder_update_def Let_def most_frequent_Nil prefer_or_auto_def prefer_value_def)
    with True auto_codec_shared [of env ?m] show ?thesis by simp
  next
    case False
    note mf = most_frequent_max [OF False]
    then have up: "usable_pref ?u (most_frequent prefs)" by (auto simp: prefs_def)
    have hw: "se_h264 ?u \<Longrightarrow> hw_encoding env H264 (all_support sd_h264 ?m)"
      "se_h265 ?u \<Longrightarrow> hw_encoding env H265 (all_support sd_h265 ?m)" by (auto simp: usable_of_def Let_def)
    have "cs_format st' = format_of_pref (most_frequent prefs)"
      using up hw m
      by (auto simp: st'_def prefs_def encoder_update_def Let_def format_of_pref_def usable_pref_def prefer_or_auto_def prefer_value_def)
    with mf usable_pref_shared [OF up] show ?thesis by auto
  qed
qed


definition demo_codec_env :: codec_env where
  "demo_codec_env = \<lparr>ce_disable_av1 = True, ce_opt = (\<lambda>_. []), ce_total_memory = 2 * 1024 * 1024 * 1024, ce_vram = (\<lambda>_. False),
     ce_hwram = (\<lambda>f. if f = H265 then Some ''hevc'' else None), ce_vram_option = False\<rparr>"

definition demo_peer :: "int \<Rightarrow> supported_decoding" where
  "demo_peer prefer = \<lparr>sd_vp9 = 1, sd_h264 = 0, sd_h265 = 1, sd_prefer = prefer, sd_vp8 = 1, sd_av1 = 0,
     sd_i444_vp9 = True, sd_i444_av1 = False, sd_prefer_chroma = 0\<rparr>"

text \<open>Two viewers prefer H265 and one VP8; all of them can decode both.\<close>

definition demo_viewers :: codec_state where
  "demo_viewers = \<lparr>cs_decodings = [(1, demo_peer 3), (2, demo_peer 4)], cs_format = VP9, cs_usable = None\<rparr>"

theorem negotiated_codec_shared_witness:
  "\<exists>v \<in> {3, 4}. cs_format (encoder_update demo_codec_env (Update 3 (demo_peer 3)) demo_viewers) = format_of_pref v
     \<and> count_list [3, 4, 3 :: int] 3 \<le> count_list [3, 4, 3] v"
proof -
  let ?st = "encoder_update demo_codec_env (Update 3 (demo_peer 3)) demo_viewers"
  have p: "filter (usable_pref (usable_of demo_codec_env (cs_decodings ?st))) (map (\<lambda>(_, d). sd_prefer d) (cs_decodings ?st)) = [3, 4, 3]"
    by (simp add: encoder_update_def Let_def apply_update_def demo_viewers_def demo_peer_def usable_of_def all_support_def
        hw_encoding_def demo_codec_env_def usable_pref_def prefer_value_def enable_hwcodec_option_def option2bool_def)
  from conjunct2 [OF negotiated_codec_shared [of demo_codec_env "Update 3 (demo_peer 3)" demo_viewers, unfolded p]]
  obtain v :: int where v: "v \<in> set [3, 4, 3]" "cs_format ?st = format_of_pref v"
    "\<forall>q. count_list [3, 4, 3 :: int] q \<le> count_list [3, 4, 3] v" by (elim impE bexE conjE) simp_all
  have "v \<in> {3, 4}" using v(1) by (simp only: list.set insert_iff empty_iff) argo
  moreover have "count_list [3, 4, 3 :: int] 3 \<le> count_list [3, 4, 3] v" by (rule spec [OF v(3)])
  ultimately show ?thesis using v(2) by (intro bexI [of _ v] conjI)
qed




end
