(* ===== verification/File_System.thy ===== *)
theory File_System
  imports Prelude
begin

text \<open>
  What the sources use of \<^verbatim>\<open>std::path\<close> and \<^verbatim>\<open>std::fs\<close> on a Unix target: path strings and their
  components, and a file system of directories, regular files (inodes) and symbolic links with path
  resolution, creation, reading, writing, renaming and removal. Strings are byte strings. No file of
  the repository is modelled here; the operations follow the standard library's documentation.
\<close>

subsection \<open>Paths\<close>

fun split_on :: "char \<Rightarrow> string \<Rightarrow> string list" where
  "split_on c [] = [[]]"
| "split_on c (x # xs) =
     (if x = c then [] # split_on c xs
      else (case split_on c xs of [] \<Rightarrow> [[x]] | s # ss \<Rightarrow> (x # s) # ss))"

datatype component = RootDir | CurDir | ParentDir | Normal string

definition is_absolute :: "string \<Rightarrow> bool" where
  "is_absolute s = (case s of [] \<Rightarrow> False | c # _ \<Rightarrow> c = CHR ''/'')"

definition component_of :: "string \<Rightarrow> component" where
  "component_of s = (if s = ''..'' then ParentDir else if s = ''.'' then CurDir else Normal s)"

text \<open>
  \<^verbatim>\<open>Path::components\<close>: empty segments vanish, \<^verbatim>\<open>.\<close> vanishes except at the start of a relative path.
\<close>

definition segments :: "string \<Rightarrow> string list" where
  "segments s = filter (\<lambda>x. x \<noteq> []) (split_on (CHR ''/'') s)"

definition path_components :: "string \<Rightarrow> component list" where
  "path_components s =
     (if is_absolute s then RootDir # map component_of (filter (\<lambda>x. x \<noteq> ''.'') (segments s))
      else (case segments s of
              [] \<Rightarrow> []
            | x # xs \<Rightarrow> component_of x # map component_of (filter (\<lambda>x. x \<noteq> ''.'') xs)))"

text \<open>\<^verbatim>\<open>PathBuf::push\<close> and \<^verbatim>\<open>Path::join\<close>.\<close>

definition path_join :: "string \<Rightarrow> string \<Rightarrow> string" where
  "path_join p s =
     (if is_absolute s then s
      else if p \<noteq> [] \<and> last p \<noteq> CHR ''/'' then p @ ''/'' @ s
      else p @ s)"

text \<open>A path with given components; \<^verbatim>\<open>Path\<close> equality compares components, so this loses nothing.\<close>

fun component_text :: "component \<Rightarrow> string" where
  "component_text RootDir = []"
| "component_text CurDir = ''.''"
| "component_text ParentDir = ''..''"
| "component_text (Normal s) = s"

fun path_of :: "component list \<Rightarrow> string" where
  "path_of [] = []"
| "path_of [RootDir] = ''/''"
| "path_of [c] = component_text c"
| "path_of (c # d # cs) = component_text c @ ''/'' @ path_of (d # cs)"

definition path_parent :: "string \<Rightarrow> string option" where
  "path_parent s =
     (let cs = path_components s in
      if cs = [] \<or> last cs = RootDir then None else Some (path_of (butlast cs)))"

definition path_file_name :: "string \<Rightarrow> string option" where
  "path_file_name s =
     (let cs = path_components s in
      if cs = [] then None else case last cs of Normal x \<Rightarrow> Some x | _ \<Rightarrow> None)"

subsection \<open>The file system\<close>

datatype fs_error = NotFound | NotADirectory | IsADirectory | AlreadyExists | PermissionDenied | FilesystemLoop | IoFault

datatype fnode = Dir | Regular nat | Symlink string

text \<open>
  Directory entries are keyed by the names from the root; a regular file is an inode number with
  its contents and modification time (nanoseconds since the epoch; \<open>fs_meta\<close> gives that of directories
  and links). \<open>fs_denied\<close> are the places the
  process may not touch and \<open>fs_faulty\<close> the inodes whose reads and writes fail.
\<close>

record fsys =
  fs_tree :: "(string list, fnode) hashmap"
  fs_data :: "nat \<Rightarrow> bytes"
  fs_mtime :: "nat \<Rightarrow> int"
  fs_meta :: "string list \<Rightarrow> int"
  fs_next :: nat
  fs_cwd :: "string list"
  fs_now :: int
  fs_denied :: "string list \<Rightarrow> bool"
  fs_faulty :: "nat \<Rightarrow> bool"

definition node_at :: "fsys \<Rightarrow> string list \<Rightarrow> fnode option" where
  "node_at fs k = (if k = [] then Some Dir else hm_get (fs_tree fs) k)"

text \<open>
  Resolution from a directory, at most \<open>n\<close> links being followed; the last name is followed when
  \<open>follow\<close> is set and need not exist.
\<close>

function resolve :: "nat \<Rightarrow> fsys \<Rightarrow> string list \<Rightarrow> string list \<Rightarrow> bool \<Rightarrow> fs_error + string list" where
  "resolve n fs d [] follow = Inr d"
| "resolve n fs d (c # cs) follow =
     (if c = ''..'' then resolve n fs (butlast d) cs follow
      else if c = ''.'' then resolve n fs d cs follow
      else case node_at fs (d @ [c]) of
        None \<Rightarrow> if cs = [] then Inr (d @ [c]) else Inl NotFound
      | Some Dir \<Rightarrow> resolve n fs (d @ [c]) cs follow
      | Some (Regular _) \<Rightarrow> if cs = [] then Inr (d @ [c]) else Inl NotADirectory
      | Some (Symlink t) \<Rightarrow>
          if cs = [] \<and> \<not> follow then Inr (d @ [c])
          else if n = 0 then Inl FilesystemLoop
          else resolve (n - 1) fs (if is_absolute t then [] else d) (segments t @ cs) follow)"
  by pat_completeness auto
termination
  by (relation "measures [\<lambda>(n, fs, d, cs, f). n, \<lambda>(n, fs, d, cs, f). length cs]") auto

definition MAXSYMLINKS :: nat where "MAXSYMLINKS = 40"

definition resolve_path :: "fsys \<Rightarrow> string \<Rightarrow> bool \<Rightarrow> fs_error + string list" where
  "resolve_path fs p follow =
     (if p = [] then Inl NotFound
      else case resolve MAXSYMLINKS fs (if is_absolute p then [] else fs_cwd fs) (segments p) follow of
        Inl e \<Rightarrow> Inl e
      | Inr k \<Rightarrow> if fs_denied fs k then Inl PermissionDenied else Inr k)"

definition fs_lookup :: "fsys \<Rightarrow> string \<Rightarrow> bool \<Rightarrow> fs_error + fnode" where
  "fs_lookup fs p follow =
     (case resolve_path fs p follow of
        Inl e \<Rightarrow> Inl e
      | Inr k \<Rightarrow> (case node_at fs k of None \<Rightarrow> Inl NotFound | Some nd \<Rightarrow> Inr nd))"

definition fs_exists :: "fsys \<Rightarrow> string \<Rightarrow> bool" where
  "fs_exists fs p = (case fs_lookup fs p True of Inl _ \<Rightarrow> False | Inr _ \<Rightarrow> True)"

definition fs_is_file :: "fsys \<Rightarrow> string \<Rightarrow> bool" where
  "fs_is_file fs p = (case fs_lookup fs p True of Inr (Regular _) \<Rightarrow> True | _ \<Rightarrow> False)"

subsection \<open>Changing it\<close>

definition fs_mkdir :: "fsys \<Rightarrow> string \<Rightarrow> fs_error + fsys" where
  "fs_mkdir fs p =
     (case resolve_path fs p False of
        Inl e \<Rightarrow> Inl e
      | Inr k \<Rightarrow> (case node_at fs k of
                    Some _ \<Rightarrow> Inl AlreadyExists
                  | None \<Rightarrow> Inr (fs\<lparr>fs_tree := hm_insert k Dir (fs_tree fs)\<rparr>)))"

text \<open>
  \<^verbatim>\<open>create_dir_all\<close> makes the missing ancestors from the top; the state it leaves and whether it
  succeeded.
\<close>

fun create_dirs :: "fsys \<Rightarrow> string list \<Rightarrow> fsys \<times> fs_error option" where
  "create_dirs fs [] = (fs, None)"
| "create_dirs fs (p # ps) =
     (case fs_lookup fs p True of
        Inr Dir \<Rightarrow> create_dirs fs ps
      | _ \<Rightarrow> (case fs_mkdir fs p of Inl e \<Rightarrow> (fs, Some e) | Inr fs' \<Rightarrow> create_dirs fs' ps))"

definition ancestors :: "string \<Rightarrow> string list" where
  "ancestors p = map path_of (tl (prefixes (path_components p)))"

definition create_dir_all :: "fsys \<Rightarrow> string \<Rightarrow> fsys \<times> fs_error option" where
  "create_dir_all fs p = create_dirs fs (ancestors p)"

text \<open>Open files: the inode and the position.\<close>

record handle =
  h_ino :: nat
  h_pos :: nat

text \<open>
  \<^verbatim>\<open>open\<close> for writing with \<^verbatim>\<open>O_CREAT\<close>, and with \<^verbatim>\<open>O_TRUNC\<close> when \<open>trunc\<close>.
\<close>

definition open_write :: "bool \<Rightarrow> fsys \<Rightarrow> string \<Rightarrow> fs_error + (fsys \<times> handle)" where
  "open_write trunc fs p =
     (case resolve_path fs p True of
        Inl e \<Rightarrow> Inl e
      | Inr k \<Rightarrow>
          (case node_at fs k of
             Some (Regular i) \<Rightarrow>
               Inr (if trunc then fs\<lparr>fs_data := (fs_data fs)(i := []), fs_mtime := (fs_mtime fs)(i := fs_now fs)\<rparr>
                    else fs, \<lparr>h_ino = i, h_pos = 0\<rparr>)
           | Some _ \<Rightarrow> Inl IsADirectory
           | None \<Rightarrow>
               Inr (fs\<lparr>fs_tree := hm_insert k (Regular (fs_next fs)) (fs_tree fs),
                       fs_data := (fs_data fs)(fs_next fs := []),
                       fs_mtime := (fs_mtime fs)(fs_next fs := fs_now fs),
                       fs_next := Suc (fs_next fs)\<rparr>,
                    \<lparr>h_ino = fs_next fs, h_pos = 0\<rparr>)))"

definition file_create :: "fsys \<Rightarrow> string \<Rightarrow> fs_error + (fsys \<times> handle)" where
  "file_create = open_write True"

definition file_open :: "fsys \<Rightarrow> string \<Rightarrow> fs_error + handle" where
  "file_open fs p =
     (case fs_lookup fs p True of
        Inl e \<Rightarrow> Inl e
      | Inr (Regular i) \<Rightarrow> Inr \<lparr>h_ino = i, h_pos = 0\<rparr>
      | Inr _ \<Rightarrow> Inl IsADirectory)"

text \<open>Bytes written at a position; a gap reads as zero.\<close>

definition overwrite :: "bytes \<Rightarrow> nat \<Rightarrow> bytes \<Rightarrow> bytes" where
  "overwrite old pos new =
     take pos old @ replicate (pos - length old) 0 @ new @ drop (pos + length new) old"

definition handle_write :: "fsys \<Rightarrow> handle \<Rightarrow> bytes \<Rightarrow> fs_error + (fsys \<times> handle)" where
  "handle_write fs h bs =
     (if fs_faulty fs (h_ino h) then Inl IoFault
      else Inr (fs\<lparr>fs_data := (fs_data fs)(h_ino h := overwrite (fs_data fs (h_ino h)) (h_pos h) bs),
                   fs_mtime := (fs_mtime fs)(h_ino h := fs_now fs)\<rparr>,
                h\<lparr>h_pos := h_pos h + length bs\<rparr>))"

text \<open>One read of at most \<open>n\<close> bytes; the system may return fewer (\<open>short\<close>), but not none before the end.\<close>

definition handle_read :: "(nat \<Rightarrow> nat) \<Rightarrow> fsys \<Rightarrow> handle \<Rightarrow> nat \<Rightarrow> fs_error + (bytes \<times> handle)" where
  "handle_read short fs h n =
     (if fs_faulty fs (h_ino h) then Inl IoFault
      else let bs = take (min n (max 1 (short (h_pos h)))) (drop (h_pos h) (fs_data fs (h_ino h)))
           in Inr (bs, h\<lparr>h_pos := h_pos h + length bs\<rparr>))"

definition fs_write_file :: "fsys \<Rightarrow> string \<Rightarrow> bytes \<Rightarrow> fsys \<times> fs_error option" where
  "fs_write_file fs p bs =
     (case file_create fs p of
        Inl e \<Rightarrow> (fs, Some e)
      | Inr (fs', h) \<Rightarrow> (case handle_write fs' h bs of Inl e \<Rightarrow> (fs', Some e) | Inr (fs'', _) \<Rightarrow> (fs'', None)))"

definition fs_remove_file :: "fsys \<Rightarrow> string \<Rightarrow> fs_error + fsys" where
  "fs_remove_file fs p =
     (case resolve_path fs p False of
        Inl e \<Rightarrow> Inl e
      | Inr k \<Rightarrow> (case node_at fs k of
                    None \<Rightarrow> Inl NotFound
                  | Some Dir \<Rightarrow> Inl IsADirectory
                  | Some _ \<Rightarrow> Inr (fs\<lparr>fs_tree := hm_remove k (fs_tree fs)\<rparr>)))"

definition has_child :: "fsys \<Rightarrow> string list \<Rightarrow> bool" where
  "has_child fs k = list_ex (\<lambda>e. strict_prefix k (fst e)) (fs_tree fs)"

text \<open>\<^verbatim>\<open>rename(2)\<close>: an existing target file is replaced, a target directory only by a directory and when empty.\<close>

definition fs_rename :: "fsys \<Rightarrow> string \<Rightarrow> string \<Rightarrow> fs_error + fsys" where
  "fs_rename fs p q =
     (case (resolve_path fs p False, resolve_path fs q False) of
        (Inl e, _) \<Rightarrow> Inl e
      | (_, Inl e) \<Rightarrow> Inl e
      | (Inr a, Inr b) \<Rightarrow>
          (case node_at fs a of
             None \<Rightarrow> Inl NotFound
           | Some nd \<Rightarrow>
               if a = b then Inr fs
               else if nd = Dir \<and> (prefix a b \<or> node_at fs b \<notin> {None, Some Dir} \<or> has_child fs b) then Inl NotADirectory
               else if nd \<noteq> Dir \<and> node_at fs b = Some Dir then Inl IsADirectory
               else Inr (fs\<lparr>fs_tree := map (\<lambda>(k, v). (if prefix a k then b @ drop (length a) k else k, v))
                                          (hm_remove b (fs_tree fs))\<rparr>)))"

text \<open>\<^verbatim>\<open>rmdir(2)\<close>.\<close>

definition fs_remove_dir :: "fsys \<Rightarrow> string \<Rightarrow> fs_error + fsys" where
  "fs_remove_dir fs p =
     (case resolve_path fs p False of
        Inl e \<Rightarrow> Inl e
      | Inr k \<Rightarrow> (case node_at fs k of
                    None \<Rightarrow> Inl NotFound
                  | Some Dir \<Rightarrow> if k = [] \<or> has_child fs k then Inl IoFault
                               else Inr (fs\<lparr>fs_tree := hm_remove k (fs_tree fs)\<rparr>)
                  | Some _ \<Rightarrow> Inl NotADirectory))"

text \<open>The names in a directory, in the order a scan returns them.\<close>

definition child_names :: "fsys \<Rightarrow> string list \<Rightarrow> string list" where
  "child_names fs k = map (\<lambda>e. last (fst e)) (filter (\<lambda>e. fst e \<noteq> [] \<and> butlast (fst e) = k) (fs_tree fs))"

end
