(* ===== verification/File_Names.thy ===== *)
theory File_Names
  imports File_System
begin

text \<open>
  The checks on file names a peer sends (\<^verbatim>\<open>libs/hbb_common/src/fs.rs\<close>, Unix build): no \<^verbatim>\<open>..\<close>, no
  absolute path, no symbolic link below the destination. The main result is containment: a name
  that passes resolves below the destination directory, whatever links lead to that directory.
\<close>

datatype ft_error = Bail string | BadComponent string fs_error | Io fs_error

type_synonym 'a ft_result = "ft_error + 'a"

datatype file_type = FtDir | FtDirLink | FtDirDrive | FtFile | FtFileLink

record file_entry =
  fe_entry_type :: file_type
  fe_name :: string
  fe_is_hidden :: bool
  fe_size :: nat
  fe_modified_time :: nat

definition get_ext :: "string \<Rightarrow> string" where
  "get_ext name = (if CHR ''.'' \<in> set name then rev (takeWhile (\<lambda>c. c \<noteq> CHR ''.'') (rev name)) else [])"

definition is_compressed_file :: "string \<Rightarrow> bool" where
  "is_compressed_file name \<longleftrightarrow>
     get_ext name \<in> set [''xz'', ''gz'', ''zip'', ''7z'', ''rar'', ''bz2'', ''tgz'', ''png'', ''jpg'']"

definition has_nul :: "string \<Rightarrow> bool" where
  "has_nul s = list_ex (\<lambda>c. of_char c = (0 :: nat)) s"

definition validate_file_name_no_traversal :: "string \<Rightarrow> unit ft_result" where
  "validate_file_name_no_traversal name =
     (if has_nul name then Inl (Bail ''file name contains null bytes'')
      else if list_ex (\<lambda>s. s = ''..'') (segments name)
           then Inl (Bail ''path traversal detected in file name'')
      else if is_absolute name then Inl (Bail ''absolute path detected in file name'')
      else Inr ())"

fun validate_names :: "file_entry list \<Rightarrow> unit ft_result" where
  "validate_names [] = Inr ()"
| "validate_names (f # fs) =
     (if fe_name f = [] then Inl (Bail ''empty file name in multi-file transfer'')
      else case validate_file_name_no_traversal (fe_name f) of Inl e \<Rightarrow> Inl e | Inr _ \<Rightarrow> validate_names fs)"

definition validate_transfer_file_names :: "file_entry list \<Rightarrow> unit ft_result" where
  "validate_transfer_file_names files =
     (if length files = 1 \<and> (case files of [] \<Rightarrow> False | f # _ \<Rightarrow> fe_name f = []) then Inr ()
      else validate_names files)"

definition validate_fs_path_argument :: "string \<Rightarrow> string \<Rightarrow> unit ft_result" where
  "validate_fs_path_argument path arg_name =
     (if path = [] then Inl (Bail (arg_name @ '' cannot be empty''))
      else if has_nul path then Inl (Bail (arg_name @ '' contains null bytes''))
      else Inr ())"

fun check_components :: "fsys \<Rightarrow> string \<Rightarrow> component list \<Rightarrow> unit ft_result" where
  "check_components fs current [] = Inr ()"
| "check_components fs current (Normal seg # cs) =
     (let current = path_join current seg in
      case fs_lookup fs current False of
        Inr (Symlink _) \<Rightarrow> Inl (Bail ''symlink path component is not allowed'')
      | Inr _ \<Rightarrow> check_components fs current cs
      | Inl NotFound \<Rightarrow> check_components fs current cs
      | Inl e \<Rightarrow> Inl (BadComponent current e))"
| "check_components fs current (CurDir # cs) = check_components fs current cs"
| "check_components fs current (_ # cs) = Inl (Bail ''invalid file name component'')"

definition validate_no_symlink_components :: "fsys \<Rightarrow> string \<Rightarrow> string \<Rightarrow> unit ft_result" where
  "validate_no_symlink_components fs base name =
     (if name = [] then Inr () else check_components fs base (path_components name))"

definition job_join :: "string \<Rightarrow> string \<Rightarrow> string" where
  "job_join p name = (if name = [] then p else path_join p name)"

definition join_validated_path :: "fsys \<Rightarrow> string \<Rightarrow> string \<Rightarrow> string ft_result" where
  "join_validated_path fs base name =
     (case validate_file_name_no_traversal name of
        Inl e \<Rightarrow> Inl e
      | Inr _ \<Rightarrow>
          (case validate_no_symlink_components fs base name of
             Inl e \<Rightarrow> Inl e
           | Inr _ \<Rightarrow> Inr (job_join base name)))"

definition remove_file :: "fsys \<Rightarrow> string \<Rightarrow> fsys ft_result" where
  "remove_file fs file =
     (case validate_fs_path_argument file ''file path'' of
        Inl e \<Rightarrow> Inl e
      | Inr _ \<Rightarrow> (case fs_remove_file fs file of Inl e \<Rightarrow> Inl (Io e) | Inr fs' \<Rightarrow> Inr fs'))"

definition create_dir :: "fsys \<Rightarrow> string \<Rightarrow> fsys \<times> ft_error option" where
  "create_dir fs dir =
     (case validate_fs_path_argument dir ''directory path'' of
        Inl e \<Rightarrow> (fs, Some e)
      | Inr _ \<Rightarrow> (case create_dir_all fs dir of (fs', e) \<Rightarrow> (fs', map_option Io e)))"

definition rename_file :: "fsys \<Rightarrow> string \<Rightarrow> string \<Rightarrow> fsys ft_result" where
  "rename_file fs path new_name =
     (case validate_fs_path_argument path ''path'' of
        Inl e \<Rightarrow> Inl e
      | Inr _ \<Rightarrow>
          if new_name = [] then Inl (Bail ''new file name cannot be empty'')
          else case validate_file_name_no_traversal new_name of
            Inl e \<Rightarrow> Inl e
          | Inr _ \<Rightarrow>
              if fs_exists fs path then
                (case path_parent path of
                   None \<Rightarrow> Inl (Bail ''Parent directoy not exists'')
                 | Some d \<Rightarrow> (case fs_rename fs path (path_join d new_name) of Inl e \<Rightarrow> Inl (Io e) | Inr fs' \<Rightarrow> Inr fs'))
              else Inl (Bail ''path not exists''))"

subsection \<open>Segments of joined paths\<close>

lemma split_on_ne [simp]: "split_on c s \<noteq> []"
  by (induction s) (auto split: list.split)

lemma split_on_append: "split_on c (xs @ c # ys) = split_on c xs @ split_on c ys"
  by (induction xs) (auto split: list.split)

lemma segments_append_slash: "segments (xs @ ''/'' @ ys) = segments xs @ segments ys"
  using split_on_append [of "CHR ''/''" xs ys] by (simp add: segments_def)

lemma segments_Nil [simp]: "segments [] = []"
  by (simp add: segments_def)

lemma segments_snoc_slash: "segments (xs @ ''/'') = segments xs"
  using segments_append_slash [of xs "[]"] by simp

lemma segments_join:
  assumes "\<not> is_absolute s"
  shows "segments (path_join p s) = segments p @ segments s"
proof (cases "p = [] \<or> last p \<noteq> CHR ''/''")
  case True
  then show ?thesis using assms segments_append_slash [of p s] by (auto simp: path_join_def)
next
  case False
  then obtain q where q: "p = q @ ''/''" by (cases p rule: rev_cases) auto
  then have "path_join p s = q @ ''/'' @ s" using assms by (simp add: path_join_def)
  with q show ?thesis by (simp only: segments_append_slash segments_snoc_slash)
qed

lemma is_absolute_join: "\<not> is_absolute s \<Longrightarrow> is_absolute (path_join p s) = is_absolute p"
  by (cases p) (auto simp: path_join_def is_absolute_def)

lemma split_on_no_sep: "s \<in> set (split_on c xs) \<Longrightarrow> c \<notin> set s"
  by (induction xs arbitrary: s) (auto split: list.splits if_splits)

lemma split_on_id: "c \<notin> set s \<Longrightarrow> split_on c s = [s]"
  by (induction s) auto

lemma segment_props:
  assumes "s \<in> set (segments name)"
  shows "s \<noteq> []" "\<not> is_absolute s" "segments s = [s]"
proof -
  have s: "s \<noteq> []" "CHR ''/'' \<notin> set s" using assms split_on_no_sep by (auto simp: segments_def)
  then show "s \<noteq> []" "\<not> is_absolute s" "segments s = [s]"
    by (auto simp: is_absolute_def segments_def split_on_id split: list.split)
qed

subsection \<open>Resolution below a directory\<close>

text \<open>Resolving \<open>xs @ ys\<close> passes through the directory \<open>xs\<close> denotes, with what is left of the link budget.\<close>

lemma resolve_append:
  assumes "resolve n fs d xs True = Inr B" and "node_at fs B = Some Dir"
  shows "\<exists>m. \<forall>ys f. ys \<noteq> [] \<longrightarrow> resolve n fs d (xs @ ys) f = resolve m fs B ys f"
  using assms
proof (induction n fs d xs True rule: resolve.induct)
  case (2 n fs d c cs)
  show ?case
  proof (cases "c = ''..'' \<or> c = ''.''")
    case True
    then obtain d' where d': "d' = (if c = ''..'' then butlast d else d)"
      and r: "resolve n fs d' cs True = Inr B" using 2(5) by auto
    obtain m where "\<forall>ys f. ys \<noteq> [] \<longrightarrow> resolve n fs d' (cs @ ys) f = resolve m fs B ys f"
      using 2(1,2) True d' r 2(6) by (cases "c = ''..''") auto
    then show ?thesis using True d' by (intro exI [of _ m]) auto
  next
    case False
    then show ?thesis
    proof (cases "node_at fs (d @ [c])")
      case None
      with False 2(5,6) show ?thesis by (auto split: if_splits)
    next
      case (Some nd)
      show ?thesis
      proof (cases nd)
        case Dir
        with False Some 2(3,5,6) show ?thesis by simp
      next
        case (Regular i)
        with False Some 2(5,6) show ?thesis by (auto split: if_splits)
      next
        case (Symlink t)
        with False Some 2(5) have n: "n \<noteq> 0"
          and r: "resolve (n - 1) fs (if is_absolute t then [] else d) (segments t @ cs) True = Inr B"
          by (auto split: if_splits)
        obtain m where m: "\<forall>ys f. ys \<noteq> [] \<longrightarrow>
            resolve (n - 1) fs (if is_absolute t then [] else d) ((segments t @ cs) @ ys) f = resolve m fs B ys f"
          using 2(4) [OF _ _ Some Symlink _ n r 2(6)] False by auto
        show ?thesis by (rule exI [of _ m]) (use m False Some Symlink n in auto)
      qed
    qed
  qed
qed auto

lemma resolve_walk:
  assumes "resolve m fs B ns True = Inr k" and "''..'' \<notin> set ns" and "fl = filter (\<lambda>s. s \<noteq> ''.'') ns"
    and "\<And>i q. i < length fl \<Longrightarrow> resolve m fs B (take (Suc i) fl) False = Inr q
      \<Longrightarrow> \<forall>t. node_at fs q \<noteq> Some (Symlink t)"
  shows "k = B @ fl"
  using assms
proof (induction ns arbitrary: B fl)
  case (Cons c cs)
  show ?case
  proof (cases "c = ''.''")
    case True
    with Cons.prems show ?thesis by (intro Cons.IH) auto
  next
    case False
    with Cons.prems(2,3) have c: "c \<noteq> ''..''" and fl: "fl = c # filter (\<lambda>s. s \<noteq> ''.'') cs" by auto
    have "resolve m fs B [c] False = Inr (B @ [c])"
      using False c by (auto split: option.split fnode.split)
    with Cons.prems(4) [of 0] fl have first: "\<forall>t. node_at fs (B @ [c]) \<noteq> Some (Symlink t)" by simp
    show ?thesis
    proof (cases "node_at fs (B @ [c]) = Some Dir")
      case True
      have "k = (B @ [c]) @ filter (\<lambda>s. s \<noteq> ''.'') cs"
      proof (rule Cons.IH)
        show "\<forall>t. node_at fs q \<noteq> Some (Symlink t)"
          if "i < length (filter (\<lambda>s. s \<noteq> ''.'') cs)"
            "resolve m fs (B @ [c]) (take (Suc i) (filter (\<lambda>s. s \<noteq> ''.'') cs)) False = Inr q" for i q
          using Cons.prems(4) [of "Suc i" q] that True False c fl by simp
      qed (use Cons.prems True False in auto)
      with fl show ?thesis by simp
    next
      case no: False
      with Cons.prems(1) first False c fl show ?thesis
        by (auto split: option.splits fnode.splits if_splits)
    qed
  qed
qed simp

subsection \<open>Containment\<close>

definition plain_names :: "string \<Rightarrow> string list" where
  "plain_names name = filter (\<lambda>s. s \<noteq> ''.'') (segments name)"

text \<open>The paths \<^const>\<open>check_components\<close> inspects, and what it has seen when it accepts.\<close>

lemma check_components_prefixes:
  assumes "check_components fs cur (map component_of ns) = Inr ()" and "set ns \<subseteq> set (segments name)"
    and "''.'' \<notin> set ns" and "i < length ns"
  shows "\<exists>p. segments p = segments cur @ take (Suc i) ns \<and> is_absolute p = is_absolute cur \<and> p \<noteq> []
    \<and> (\<forall>t. fs_lookup fs p False \<noteq> Inr (Symlink t)) \<and> (\<forall>e. fs_lookup fs p False = Inl e \<longrightarrow> e = NotFound)"
  using assms
proof (induction ns arbitrary: cur i)
  case (Cons s ns)
  let ?c = "path_join cur s"
  have seg: "s \<in> set (segments name)" using Cons.prems(2) by simp
  note sp = segment_props [OF seg]
  have c: "segments ?c = segments cur @ [s]" "is_absolute ?c = is_absolute cur" "?c \<noteq> []"
    using sp by (simp_all add: segments_join is_absolute_join) (auto simp: path_join_def)
  have nm: "component_of s = Normal s"
    using Cons.prems(1,3) by (auto simp: component_of_def split: if_splits)
  have ok: "\<forall>t. fs_lookup fs ?c False \<noteq> Inr (Symlink t)" "\<forall>e. fs_lookup fs ?c False = Inl e \<longrightarrow> e = NotFound"
    and rest: "check_components fs ?c (map component_of ns) = Inr ()"
    using Cons.prems(1) nm by (auto simp: Let_def split: sum.splits fnode.splits fs_error.splits)
  show ?case
  proof (cases i)
    case 0
    with c ok show ?thesis by (intro exI [of _ ?c]) simp
  next
    case (Suc j)
    with Cons.IH [OF rest, of j] Cons.prems(2-4) c show ?thesis by auto
  qed
qed simp

lemma resolve_path_inner:
  assumes "p \<noteq> []"
  shows "resolve_path fs p f = Inr k \<longleftrightarrow>
    resolve MAXSYMLINKS fs (if is_absolute p then [] else fs_cwd fs) (segments p) f = Inr k \<and> \<not> fs_denied fs k"
  using assms by (auto simp: resolve_path_def split: sum.split)

text \<open>
  C11. Containment of received file names. If a name passes \<^verbatim>\<open>join_validated_path\<close> below a base that
  denotes the directory \<open>B\<close> (through whatever links), the joined path, when it resolves at all with
  links followed, resolves to \<open>B\<close> followed by the name's own segments: no \<^verbatim>\<open>..\<close>, no absolute name and
  no link inside \<open>B\<close> can move it elsewhere.
\<close>

theorem join_validated_contained:
  assumes "join_validated_path fs base name = Inr p" and "name \<noteq> []"
    and "resolve_path fs base True = Inr B" and "node_at fs B = Some Dir"
    and "resolve_path fs p True = Inr k"
  shows "k = B @ plain_names name \<and> ''..'' \<notin> set (plain_names name)"
proof -
  have v: "validate_file_name_no_traversal name = Inr ()" and w: "check_components fs base (path_components name) = Inr ()"
    and p: "p = path_join base name"
    using assms(1,2) by (auto simp: join_validated_path_def validate_no_symlink_components_def job_join_def split: sum.splits)
  have na: "\<not> is_absolute name" and dd: "''..'' \<notin> set (segments name)"
    using v by (auto simp: validate_file_name_no_traversal_def list_ex_iff split: if_splits)
  have bne: "base \<noteq> []" using assms(3) by (auto simp: resolve_path_def)
  let ?n = "segments name" and ?s = "if is_absolute base then [] else fs_cwd fs" and ?f = "filter (\<lambda>s. s \<noteq> ''.'') (segments name)"
  have sp: "segments p = segments base @ ?n" "is_absolute p = is_absolute base" "p \<noteq> []"
    using na bne by (simp_all add: p segments_join is_absolute_join) (simp add: path_join_def)
  obtain m where m: "\<And>ys f. ys \<noteq> [] \<Longrightarrow> resolve MAXSYMLINKS fs ?s (segments base @ ys) f = resolve m fs B ys f"
    using resolve_append [OF _ assms(4)] assms(3) resolve_path_inner [OF bne, of fs True B] by blast
  have chk: "check_components fs base (map component_of ?f) = Inr ()"
    using w na by (cases "segments name") (auto simp: path_components_def component_of_def)
  have "?n \<noteq> []"
    using assms(2) na by (cases name) (auto simp: segments_def is_absolute_def split: list.splits)
  have walk: "resolve m fs B ?n True = Inr k"
    using assms(5) m [OF \<open>?n \<noteq> []\<close>, of True] sp resolve_path_inner [OF sp(3), of fs True k] by simp
  have "\<forall>t. node_at fs q \<noteq> Some (Symlink t)"
    if i: "i < length ?f" and q: "resolve m fs B (take (Suc i) ?f) False = Inr q" for i q
  proof -
    obtain c where c: "segments c = segments base @ take (Suc i) ?f" "is_absolute c = is_absolute base" "c \<noteq> []"
      "\<forall>t. fs_lookup fs c False \<noteq> Inr (Symlink t)" "\<forall>e. fs_lookup fs c False = Inl e \<longrightarrow> e = NotFound"
      using check_components_prefixes [OF chk, of name i] i by auto
    have "take (Suc i) ?f \<noteq> []" using i by (cases ?f) auto
    from m [OF this, of False] q c(1,2) have r: "resolve MAXSYMLINKS fs (if is_absolute c then [] else fs_cwd fs) (segments c) False = Inr q" by simp
    show ?thesis
      using c(3,4,5) r by (auto simp: fs_lookup_def resolve_path_def split: option.splits if_splits)
  qed
  from resolve_walk [OF walk dd refl this] dd show ?thesis by (auto simp: plain_names_def)
qed

theorem join_validated_contained_witness:
  "let fs = \<lparr>fs_tree = [([''home''], Dir), ([''home'', ''a''], Dir), ([''l''], Symlink ''/home'')],
       fs_data = \<lambda>_. [], fs_mtime = \<lambda>_. 0, fs_meta = \<lambda>_. 0, fs_next = 0, fs_cwd = [], fs_now = 0,
       fs_denied = \<lambda>_. False, fs_faulty = \<lambda>_. False\<rparr>
   in resolve_path fs ''/l/a/./b'' True = Inr ([''home''] @ plain_names ''a/./b'')"
proof -
  define fs where "fs = \<lparr>fs_tree = [([''home''], Dir), ([''home'', ''a''], Dir), ([''l''], Symlink ''/home'')],
       fs_data = \<lambda>_. [], fs_mtime = \<lambda>_. 0, fs_meta = \<lambda>_. 0, fs_next = 0, fs_cwd = [], fs_now = 0,
       fs_denied = \<lambda>_. False, fs_faulty = \<lambda>_. False\<rparr>"
  have 1: "join_validated_path fs ''/l'' ''a/./b'' = Inr ''/l/a/./b''" unfolding fs_def by code_simp
  have 2: "resolve_path fs ''/l'' True = Inr [''home'']" unfolding fs_def by code_simp
  have 3: "node_at fs [''home''] = Some Dir" unfolding fs_def by code_simp
  have 4: "resolve_path fs ''/l/a/./b'' True = Inr [''home'', ''a'', ''b'']" unfolding fs_def by code_simp
  from join_validated_contained [OF 1 _ 2 3 4] 4 show ?thesis unfolding fs_def [symmetric] by simp
qed

end
