(* ===== verification/File_Transfer.thy ===== *)
theory File_Transfer
  imports File_Names
begin

text \<open>
  File transfer jobs (\<^verbatim>\<open>libs/hbb_common/src/fs.rs\<close>, with \<^verbatim>\<open>compress.rs\<close>): the sending side (opening,
  overwrite detection, reading blocks), the receiving side (writing blocks to a \<^verbatim>\<open>.download\<close> file,
  resuming, renaming at the end), and the driver of the read jobs. A job operation takes the job and
  the file system and returns both with its result. What the sources only call is an argument: the
  zstd codec, the JSON form of a digest and of a job, \<^verbatim>\<open>filetime::set_file_mtime\<close>, how much one read
  returns, and which sends on the peer's stream fail.
\<close>

subsection \<open>Jobs\<close>

datatype job_type = Generic | Printer

definition job_type_of_i32 :: "int \<Rightarrow> job_type" where
  "job_type_of_i32 v = (if v = 0 then Generic else if v = 1 then Printer else Generic)"

record cursor =
  cu_data :: bytes
  cu_pos :: nat

datatype data_source = FilePath string | MemoryCursor cursor

definition to_meta :: "data_source \<Rightarrow> string" where
  "to_meta d = (case d of FilePath p \<Rightarrow> p | MemoryCursor _ \<Rightarrow> [])"

datatype data_stream = FileStream handle | BufStream cursor

record file_digest =
  fd_size :: nat
  fd_modified :: nat

record transfer_job =
  tj_id :: int
  tj_type :: job_type
  tj_remote :: string
  tj_data_source :: data_source
  tj_show_hidden :: bool
  tj_is_remote :: bool
  tj_is_last_job :: bool
  tj_is_resume :: bool
  tj_file_num :: int
  tj_files :: "file_entry list"
  tj_conn_id :: int
  tj_data_stream :: "data_stream option"
  tj_total_size :: nat
  tj_finished_size :: nat
  tj_transferred :: nat
  tj_enable_overwrite_detection :: bool
  tj_file_confirmed :: bool
  tj_file_skipped :: bool
  tj_file_is_waiting :: bool
  tj_default_overwrite_strategy :: "bool option"
  tj_digest :: file_digest

record transfer_job_meta =
  tm_id :: int
  tm_remote :: string
  tm_to :: string
  tm_show_hidden :: bool
  tm_file_num :: int
  tm_is_remote :: bool

record file_block =
  bk_id :: int
  bk_file_num :: int
  bk_data :: bytes
  bk_compressed :: bool

record transfer_digest =
  td_id :: int
  td_file_num :: int
  td_last_modified :: nat
  td_file_size :: nat
  td_is_identical :: bool
  td_transferred_size :: nat
  td_is_resume :: bool

datatype confirm_union = Skip bool | OffsetBlk nat

record confirm_request =
  cr_id :: int
  cr_file_num :: int
  cr_union :: "confirm_union option"

datatype ft_msg =
    MsgDigest transfer_digest
  | MsgError int ft_error int
  | MsgDir int string "file_entry list"
  | MsgBlock file_block
  | MsgDone int int
  | MsgSendConfirm confirm_request
  | MsgReceive int string int "file_entry list" nat
  | MsgSend int job_type string int bool

text \<open>What the sources only call.\<close>

record ft_env =
  en_zstd_compress :: "bytes \<Rightarrow> bytes option"
  en_zstd_decode :: "bytes \<Rightarrow> bytes option"
  en_digest_json :: "file_digest \<Rightarrow> bytes"
  en_digest_parse :: "bytes \<Rightarrow> file_digest option"
  en_set_file_mtime :: "fsys \<Rightarrow> string \<Rightarrow> int \<Rightarrow> fsys"
  en_short_read :: "nat \<Rightarrow> nat"
  en_serialize :: "transfer_job \<Rightarrow> bool \<Rightarrow> bool \<Rightarrow> string \<Rightarrow> string"

definition compress :: "ft_env \<Rightarrow> bytes \<Rightarrow> bytes" where
  "compress env data = (case en_zstd_compress env data of Some out \<Rightarrow> out | None \<Rightarrow> [])"

definition decompress :: "ft_env \<Rightarrow> bytes \<Rightarrow> bytes" where
  "decompress env data = (case en_zstd_decode env data of Some out \<Rightarrow> out | None \<Rightarrow> [])"

text \<open>\<^verbatim>\<open>as usize\<close> of an \<^verbatim>\<open>i32\<close> on the 32-bit target, and \<^verbatim>\<open>u64\<close> addition.\<close>

definition usize_of_i32 :: "int \<Rightarrow> nat" where
  "usize_of_i32 i = nat (i mod 2 ^ 32)"

definition u64_add :: "nat \<Rightarrow> nat \<Rightarrow> nat" where
  "u64_add a b = (a + b) mod 2 ^ 64"

definition u64_sum :: "nat list \<Rightarrow> nat" where
  "u64_sum xs = sum_list xs mod 2 ^ 64"

definition default_job :: "int \<Rightarrow> job_type \<Rightarrow> string \<Rightarrow> data_source \<Rightarrow> int \<Rightarrow> bool \<Rightarrow> bool \<Rightarrow> bool \<Rightarrow> transfer_job" where
  "default_job i t remote src file_num show_hidden is_remote detect =
     \<lparr>tj_id = i, tj_type = t, tj_remote = remote, tj_data_source = src, tj_show_hidden = show_hidden,
      tj_is_remote = is_remote, tj_is_last_job = False, tj_is_resume = False, tj_file_num = file_num,
      tj_files = [], tj_conn_id = 0, tj_data_stream = None, tj_total_size = 0, tj_finished_size = 0,
      tj_transferred = 0, tj_enable_overwrite_detection = detect, tj_file_confirmed = False,
      tj_file_skipped = False, tj_file_is_waiting = False, tj_default_overwrite_strategy = None,
      tj_digest = \<lparr>fd_size = 0, fd_modified = 0\<rparr>\<rparr>"

definition new_write :: "int \<Rightarrow> job_type \<Rightarrow> string \<Rightarrow> data_source \<Rightarrow> int \<Rightarrow> bool \<Rightarrow> bool \<Rightarrow> bool \<Rightarrow> transfer_job" where
  "new_write = default_job"

fun check_entries :: "fsys \<Rightarrow> string \<Rightarrow> file_entry list \<Rightarrow> unit ft_result" where
  "check_entries fs base [] = Inr ()"
| "check_entries fs base (f # files) =
     (case validate_no_symlink_components fs base (fe_name f) of
        Inl e \<Rightarrow> Inl e | Inr _ \<Rightarrow> check_entries fs base files)"

definition set_files :: "fsys \<Rightarrow> file_entry list \<Rightarrow> transfer_job \<Rightarrow> transfer_job ft_result" where
  "set_files fs files j =
     (case validate_transfer_file_names files of
        Inl e \<Rightarrow> Inl e
      | Inr _ \<Rightarrow>
          (case (case tj_data_source j of FilePath base \<Rightarrow> check_entries fs base files | MemoryCursor _ \<Rightarrow> Inr ()) of
             Inl e \<Rightarrow> Inl e
           | Inr _ \<Rightarrow> Inr (j\<lparr>tj_total_size := u64_sum (map fe_size files), tj_files := files\<rparr>)))"

definition with_files :: "fsys \<Rightarrow> transfer_job \<Rightarrow> file_entry list \<Rightarrow> transfer_job ft_result" where
  "with_files fs j files = set_files fs files j"

text \<open>\<^verbatim>\<open>new_read\<close>, given what \<^verbatim>\<open>get_recursive_files\<close> finds at the path.\<close>

definition new_read ::
  "(string \<Rightarrow> bool \<Rightarrow> file_entry list ft_result) \<Rightarrow> int \<Rightarrow> job_type \<Rightarrow> string \<Rightarrow> data_source \<Rightarrow> int
     \<Rightarrow> bool \<Rightarrow> bool \<Rightarrow> bool \<Rightarrow> transfer_job ft_result" where
  "new_read get_recursive_files i t remote src file_num show_hidden is_remote detect =
     (case (case src of
              FilePath p \<Rightarrow>
                (case get_recursive_files p show_hidden of
                   Inl e \<Rightarrow> Inl e
                 | Inr files \<Rightarrow> Inr (files, u64_sum (map fe_size files)))
            | MemoryCursor c \<Rightarrow> Inr ([], length (cu_data c))) of
        Inl e \<Rightarrow> Inl e
      | Inr (files, total_size) \<Rightarrow>
          Inr ((default_job i t remote src file_num show_hidden is_remote detect)
                 \<lparr>tj_files := files, tj_total_size := total_size\<rparr>))"

definition get_buf_data :: "transfer_job \<Rightarrow> bytes option" where
  "get_buf_data j = (case tj_data_stream j of Some (BufStream c) \<Rightarrow> Some (cu_data c) | _ \<Rightarrow> None)"

definition set_digest :: "nat \<Rightarrow> nat \<Rightarrow> transfer_job \<Rightarrow> transfer_job" where
  "set_digest sz modified j = j\<lparr>tj_digest := \<lparr>fd_size = sz, fd_modified = modified\<rparr>\<rparr>"

definition resolve_entry_path :: "fsys \<Rightarrow> transfer_job \<Rightarrow> string \<Rightarrow> string \<Rightarrow> string option" where
  "resolve_entry_path fs j base name =
     (if tj_type j = Generic
      then (case join_validated_path fs base name of Inr p \<Rightarrow> Some p | Inl _ \<Rightarrow> None)
      else Some (job_join base name))"

abbreviation download_of :: "string \<Rightarrow> string" where "download_of p \<equiv> p @ ''.download''"
abbreviation digest_of :: "string \<Rightarrow> string" where "digest_of p \<equiv> p @ ''.digest''"

text \<open>Calls whose result is ignored with \<^verbatim>\<open>.ok()\<close>.\<close>

definition try_remove :: "fsys \<Rightarrow> string \<Rightarrow> fsys" where
  "try_remove fs p = (case fs_remove_file fs p of Inl _ \<Rightarrow> fs | Inr fs' \<Rightarrow> fs')"

definition try_rename :: "fsys \<Rightarrow> string \<Rightarrow> string \<Rightarrow> fsys" where
  "try_rename fs p q = (case fs_rename fs p q of Inl _ \<Rightarrow> fs | Inr fs' \<Rightarrow> fs')"

text \<open>The entry the job is at and its validated path, as \<^verbatim>\<open>modify_time\<close> and \<^verbatim>\<open>remove_download_file\<close> find it.\<close>

definition current_entry :: "fsys \<Rightarrow> transfer_job \<Rightarrow> (file_entry \<times> string) option" where
  "current_entry fs j =
     (if tj_type j = Printer then None
      else case tj_data_source j of
        MemoryCursor _ \<Rightarrow> None
      | FilePath p \<Rightarrow>
          let file_num = usize_of_i32 (tj_file_num j) in
          if file_num < length (tj_files j) then
            (case resolve_entry_path fs j p (fe_name (tj_files j ! file_num)) of
               None \<Rightarrow> None | Some path \<Rightarrow> Some (tj_files j ! file_num, path))
          else None)"

definition modify_time :: "ft_env \<Rightarrow> transfer_job \<Rightarrow> fsys \<Rightarrow> fsys" where
  "modify_time env j fs =
     (case current_entry fs j of
        None \<Rightarrow> fs
      | Some (entry, path) \<Rightarrow>
          let fs = try_remove fs (digest_of path);
              fs = try_rename fs (download_of path) path
          in en_set_file_mtime env fs path (wrap_i64 (int (fe_modified_time entry))))"

definition remove_download_file :: "transfer_job \<Rightarrow> fsys \<Rightarrow> fsys" where
  "remove_download_file j fs =
     (case current_entry fs j of
        None \<Rightarrow> fs
      | Some (_, path) \<Rightarrow> try_remove (try_remove fs (download_of path)) (digest_of path))"

definition set_finished_size_on_resume :: "transfer_job \<Rightarrow> transfer_job" where
  "set_finished_size_on_resume j =
     (if tj_is_resume j \<and> tj_file_num j > 0
      then j\<lparr>tj_finished_size := u64_sum (map fe_size (take (usize_of_i32 (tj_file_num j)) (tj_files j)))\<rparr>
      else j)"

subsection \<open>Writing\<close>

text \<open>A write to the open stream, \<^verbatim>\<open>write_all\<close>.\<close>

definition stream_write :: "fsys \<Rightarrow> data_stream \<Rightarrow> bytes \<Rightarrow> fs_error + (fsys \<times> data_stream)" where
  "stream_write fs s bs =
     (case s of
        FileStream h \<Rightarrow> (case handle_write fs h bs of Inl e \<Rightarrow> Inl e | Inr (fs', h') \<Rightarrow> Inr (fs', FileStream h'))
      | BufStream c \<Rightarrow> Inr (fs, BufStream \<lparr>cu_data = overwrite (cu_data c) (cu_pos c) bs, cu_pos = cu_pos c + length bs\<rparr>))"

text \<open>The target of a new file: the path to create and the digest file beside it.\<close>

definition block_target :: "fsys \<Rightarrow> transfer_job \<Rightarrow> string \<Rightarrow> file_entry \<Rightarrow> (fsys \<times> string \<times> string option) ft_result" where
  "block_target fs j p entry =
     (if tj_type j = Printer then Inr (fs, p, None)
      else case join_validated_path fs p (fe_name entry) of
        Inl e \<Rightarrow> Inl e
      | Inr path \<Rightarrow>
          let fs = (case path_parent path of Some pp \<Rightarrow> fst (create_dir_all fs pp) | None \<Rightarrow> fs)
          in Inr (fs, download_of path, Some (digest_of path)))"

definition create_target ::
  "ft_env \<Rightarrow> transfer_job \<Rightarrow> fsys \<Rightarrow> string \<Rightarrow> string option \<Rightarrow> ft_error option \<times> transfer_job \<times> fsys" where
  "create_target env j fs path digest_path =
     (case (case digest_path of
              Some dp \<Rightarrow> if fs_exists fs dp then fs_remove_file fs dp else Inr fs
            | None \<Rightarrow> Inr fs) of
        Inl e \<Rightarrow> (Some (Io e), j, fs)
      | Inr fs1 \<Rightarrow>
          (case file_create fs1 path of
             Inl e \<Rightarrow> (Some (Io e), j, fs1)
           | Inr (fs2, h) \<Rightarrow>
               (None, j\<lparr>tj_data_stream := Some (FileStream h)\<rparr>,
                case digest_path of
                  Some dp \<Rightarrow> fst (fs_write_file fs2 dp (en_digest_json env (tj_digest j)))
                | None \<Rightarrow> fs2)))"

definition open_for_block :: "ft_env \<Rightarrow> file_block \<Rightarrow> transfer_job \<Rightarrow> fsys \<Rightarrow> ft_error option \<times> transfer_job \<times> fsys" where
  "open_for_block env b j fs =
     (case tj_data_source j of
        MemoryCursor c \<Rightarrow>
          (None, if tj_data_stream j = None then j\<lparr>tj_data_stream := Some (BufStream c)\<rparr> else j, fs)
      | FilePath p \<Rightarrow>
          let file_num = usize_of_i32 (bk_file_num b) in
          if file_num \<ge> length (tj_files j) then (Some (Bail ''Wrong file number''), j, fs)
          else if file_num \<noteq> usize_of_i32 (tj_file_num j) \<or> tj_data_stream j = None then
            let fs = modify_time env j fs in
            if (case tj_data_stream j of Some (FileStream h) \<Rightarrow> fs_faulty fs (h_ino h) | _ \<Rightarrow> False)
            then (Some (Io IoFault), j, fs)
            else
              let j = j\<lparr>tj_file_num := bk_file_num b\<rparr> in
              (case block_target fs j p (tj_files j ! file_num) of
                 Inl e \<Rightarrow> (Some e, j, fs)
               | Inr (fs, path, digest_path) \<Rightarrow> create_target env j fs path digest_path)
          else (None, j, fs))"

definition block_payload :: "ft_env \<Rightarrow> file_block \<Rightarrow> bytes" where
  "block_payload env b = (if bk_compressed b then decompress env (bk_data b) else bk_data b)"

definition job_write :: "ft_env \<Rightarrow> file_block \<Rightarrow> transfer_job \<Rightarrow> fsys \<Rightarrow> ft_error option \<times> transfer_job \<times> fsys" where
  "job_write env b j fs =
     (if bk_id b \<noteq> tj_id j then (Some (Bail ''Wrong id''), j, fs)
      else case open_for_block env b j fs of
        (Some e, j, fs) \<Rightarrow> (Some e, j, fs)
      | (None, j, fs) \<Rightarrow>
          (case tj_data_stream j of
             None \<Rightarrow> (Some (Bail (if bk_compressed b then ''data stream is None'' else ''file is None'')), j, fs)
           | Some s \<Rightarrow>
               let data = block_payload env b in
               (case stream_write fs s data of
                  Inl e \<Rightarrow> (Some (Io e), j, fs)
                | Inr (fs, s) \<Rightarrow>
                    (None, j\<lparr>tj_data_stream := Some s,
                            tj_finished_size := u64_add (tj_finished_size j) (length data),
                            tj_transferred := u64_add (tj_transferred j) (length (bk_data b))\<rparr>, fs))))"

subsection \<open>Reading\<close>

definition next_file :: "transfer_job \<Rightarrow> transfer_job" where
  "next_file j = j\<lparr>tj_file_num := wrap_i32 (tj_file_num j + 1), tj_file_confirmed := False, tj_file_is_waiting := False\<rparr>"

definition open_data_stream :: "fsys \<Rightarrow> transfer_job \<Rightarrow> bool ft_result \<times> transfer_job" where
  "open_data_stream fs j =
     (case tj_data_source j of
        FilePath p \<Rightarrow>
          let file_num = usize_of_i32 (tj_file_num j) in
          if file_num \<ge> length (tj_files j) then (Inr True, j\<lparr>tj_data_stream := None\<rparr>)
          else if tj_data_stream j = None then
            (case file_open fs (job_join p (fe_name (tj_files j ! file_num))) of
               Inr h \<Rightarrow> (Inr False, j\<lparr>tj_data_stream := Some (FileStream h), tj_file_confirmed := False,
                                     tj_file_is_waiting := False\<rparr>)
             | Inl e \<Rightarrow> (Inl (Io e), next_file j))
          else (Inr False, j)
      | MemoryCursor c \<Rightarrow>
          (Inr False,
           if tj_data_stream j = None
           then j\<lparr>tj_data_source := MemoryCursor \<lparr>cu_data = [], cu_pos = 0\<rparr>, tj_data_stream := Some (BufStream c)\<rparr>
           else j))"

definition get_current_digest :: "fsys \<Rightarrow> transfer_job \<Rightarrow> (nat \<times> nat) ft_result" where
  "get_current_digest fs j =
     (case tj_data_stream j of
        None \<Rightarrow> Inl (Bail ''file is None'')
      | Some (BufStream _) \<Rightarrow> Inl (Bail ''No digest for buf stream'')
      | Some (FileStream h) \<Rightarrow>
          if fs_faulty fs (h_ino h) then Inl (Io IoFault)
          else if fs_mtime fs (h_ino h) < 0 then Inl (Bail ''second time provided was later than self'')
          else Inr (nat (fs_mtime fs (h_ino h) div 10 ^ 9), length (fs_data fs (h_ino h))))"

definition needs_digest :: "transfer_job \<Rightarrow> bool" where
  "needs_digest j \<longleftrightarrow> tj_type j = Generic \<and> tj_enable_overwrite_detection j
     \<and> \<not> tj_file_confirmed j \<and> \<not> tj_file_is_waiting j"

text \<open>The peer's stream: what has been sent, and whether the send after \<open>n\<close> messages fails.\<close>

record peer =
  pe_sent :: "ft_msg list"
  pe_fails :: "nat \<Rightarrow> bool"

definition peer_send :: "ft_msg \<Rightarrow> peer \<Rightarrow> peer ft_result" where
  "peer_send m s =
     (if pe_fails s (length (pe_sent s)) then Inl (Bail ''send failed'')
      else Inr (s\<lparr>pe_sent := pe_sent s @ [m]\<rparr>))"

definition send_current_digest :: "fsys \<Rightarrow> transfer_job \<Rightarrow> peer \<Rightarrow> peer ft_result" where
  "send_current_digest fs j s =
     (case get_current_digest fs j of
        Inl e \<Rightarrow> Inl e
      | Inr (last_modified, file_size) \<Rightarrow>
          peer_send (MsgDigest \<lparr>td_id = tj_id j, td_file_num = tj_file_num j, td_last_modified = last_modified,
             td_file_size = file_size, td_is_identical = False, td_transferred_size = 0,
             td_is_resume = tj_is_resume j\<rparr>) s)"

definition init_data_stream :: "fsys \<Rightarrow> transfer_job \<Rightarrow> peer \<Rightarrow> ft_error option \<times> transfer_job \<times> peer" where
  "init_data_stream fs j s =
     (case open_data_stream fs j of
        (Inl e, j) \<Rightarrow> (Some e, j, s)
      | (Inr True, j) \<Rightarrow> (None, j, s)
      | (Inr False, j) \<Rightarrow>
          if needs_digest j then
            (case send_current_digest fs j s of
               Inl e \<Rightarrow> (Some e, j, s)
             | Inr s \<Rightarrow> (None, j\<lparr>tj_file_is_waiting := True\<rparr>, s))
          else (None, j, s))"

definition init_data_stream_for_cm :: "fsys \<Rightarrow> transfer_job \<Rightarrow> (nat \<times> nat) option ft_result \<times> transfer_job" where
  "init_data_stream_for_cm fs j =
     (case open_data_stream fs j of
        (Inl e, j) \<Rightarrow> (Inl e, j)
      | (Inr True, j) \<Rightarrow> (Inr None, j)
      | (Inr False, j) \<Rightarrow>
          if needs_digest j then
            (case get_current_digest fs j of
               Inl e \<Rightarrow> (Inl e, j)
             | Inr d \<Rightarrow> (Inr (Some d), j\<lparr>tj_file_is_waiting := True\<rparr>))
          else (Inr None, j))"

definition BUF_SIZE :: nat where "BUF_SIZE = 128 * 1024"

definition stream_read :: "ft_env \<Rightarrow> fsys \<Rightarrow> data_stream \<Rightarrow> nat \<Rightarrow> fs_error + (bytes \<times> data_stream)" where
  "stream_read env fs s n =
     (case s of
        FileStream h \<Rightarrow>
          (case handle_read (en_short_read env) fs h n of Inl e \<Rightarrow> Inl e | Inr (bs, h') \<Rightarrow> Inr (bs, FileStream h'))
      | BufStream c \<Rightarrow>
          let bs = take (min n (max 1 (en_short_read env (cu_pos c)))) (drop (cu_pos c) (cu_data c))
          in Inr (bs, BufStream (c\<lparr>cu_pos := cu_pos c + length bs\<rparr>)))"

lemma stream_read_length: "stream_read env fs s n = Inr (bs, s') \<Longrightarrow> length bs \<le> n"
  by (auto simp: stream_read_def handle_read_def Let_def split: data_stream.splits if_splits)

text \<open>The loop that fills the buffer: until a read returns nothing or \<open>size\<close> bytes are there.\<close>

function read_loop :: "ft_env \<Rightarrow> fsys \<Rightarrow> nat \<Rightarrow> bytes \<Rightarrow> data_stream \<Rightarrow> fs_error + (bytes \<times> data_stream)" where
  "read_loop env fs cap acc s =
     (case stream_read env fs s (cap - length acc) of
        Inl e \<Rightarrow> Inl e
      | Inr (bs, s') \<Rightarrow>
          if bs = [] \<or> length acc + length bs = cap then Inr (acc @ bs, s')
          else read_loop env fs cap (acc @ bs) s')"
  by pat_completeness auto
termination
proof (relation "measure (\<lambda>(env, fs, n, acc, s). n - length acc)")
  fix env :: ft_env and fs :: fsys and n :: nat and acc bs :: bytes and s s' :: data_stream and x2
  assume "stream_read env fs s (n - length acc) = Inr x2" "(bs, s') = x2" "\<not> (bs = [] \<or> length acc + length bs = n)"
  moreover from this have "length bs \<le> n - length acc" by (auto dest: stream_read_length)
  ultimately show "((env, fs, n, acc @ bs, s'), env, fs, n, acc, s) \<in> measure (\<lambda>(env, fs, n, acc, s). n - length acc)"
    by (cases bs) auto
qed simp

declare read_loop.simps [simp del]

definition entry_name :: "transfer_job \<Rightarrow> string \<Rightarrow> nat \<Rightarrow> string" where
  "entry_name j p file_num =
     (if length (tj_files j) = 1 \<and> fe_name (tj_files j ! file_num) = []
      then (case path_file_name p of Some n \<Rightarrow> n | None \<Rightarrow> [])
      else fe_name (tj_files j ! file_num))"

text \<open>Reading one block once the current file is known; \<open>name\<close> decides about compression.\<close>

definition read_block :: "ft_env \<Rightarrow> fsys \<Rightarrow> string option \<Rightarrow> transfer_job \<Rightarrow> file_block option ft_result \<times> transfer_job" where
  "read_block env fs name j =
     (let file_num = usize_of_i32 (tj_file_num j) in
      case tj_data_stream j of
        None \<Rightarrow> (Inl (Bail ''data stream is None''), j)
      | Some s \<Rightarrow>
          (case read_loop env fs BUF_SIZE [] s of
             Inl e \<Rightarrow> (Inl (Io e), (next_file j)\<lparr>tj_data_stream := None\<rparr>)
           | Inr (buf, s) \<Rightarrow>
               if buf = [] then
                 (if name = None then (Inr None, j\<lparr>tj_data_stream := None\<rparr>)
                  else (Inr (Some \<lparr>bk_id = tj_id j, bk_file_num = wrap_i32 (int file_num), bk_data = [], bk_compressed = False\<rparr>),
                        (next_file j)\<lparr>tj_data_stream := None\<rparr>))
               else
                 let tmp = compress env buf;
                     compressed = (case name of Some n \<Rightarrow> \<not> is_compressed_file n \<and> length tmp < length buf | None \<Rightarrow> False);
                     data = (if compressed then tmp else buf)
                 in (Inr (Some \<lparr>bk_id = tj_id j, bk_file_num = wrap_i32 (int file_num), bk_data = data, bk_compressed = compressed\<rparr>),
                     j\<lparr>tj_data_stream := Some s,
                       tj_finished_size := u64_add (tj_finished_size j) (length buf),
                       tj_transferred := u64_add (tj_transferred j) (length data)\<rparr>)))"

definition job_read :: "ft_env \<Rightarrow> fsys \<Rightarrow> transfer_job \<Rightarrow> file_block option ft_result \<times> transfer_job" where
  "job_read env fs j =
     (if tj_type j = Generic \<and> tj_enable_overwrite_detection j \<and> \<not> tj_file_confirmed j then (Inr None, j)
      else case tj_data_source j of
        FilePath p \<Rightarrow>
          let file_num = usize_of_i32 (tj_file_num j) in
          if file_num \<ge> length (tj_files j) then (Inr None, j\<lparr>tj_data_stream := None\<rparr>)
          else read_block env fs (Some (entry_name j p file_num)) j
      | MemoryCursor _ \<Rightarrow> read_block env fs None j)"

subsection \<open>Confirmation\<close>

definition set_overwrite_strategy :: "bool option \<Rightarrow> transfer_job \<Rightarrow> transfer_job" where
  "set_overwrite_strategy st j = j\<lparr>tj_default_overwrite_strategy := st\<rparr>"

definition set_file_confirmed :: "bool \<Rightarrow> transfer_job \<Rightarrow> transfer_job" where
  "set_file_confirmed c j = j\<lparr>tj_file_confirmed := c, tj_file_skipped := False\<rparr>"

definition set_file_is_waiting :: "bool \<Rightarrow> transfer_job \<Rightarrow> transfer_job" where
  "set_file_is_waiting w j = j\<lparr>tj_file_is_waiting := w\<rparr>"

definition job_skipped :: "transfer_job \<Rightarrow> bool" where
  "job_skipped j \<longleftrightarrow> tj_file_skipped j \<and> length (tj_files j) = 1"

definition job_completed :: "transfer_job \<Rightarrow> bool" where
  "job_completed j \<longleftrightarrow> \<not> tj_enable_overwrite_detection j \<or> (\<not> tj_file_confirmed j \<and> \<not> tj_file_is_waiting j)"

definition job_error :: "transfer_job \<Rightarrow> string option" where
  "job_error j = (if job_skipped j then Some ''skipped'' else None)"

definition set_file_skipped :: "transfer_job \<Rightarrow> transfer_job" where
  "set_file_skipped j =
     (let j = j\<lparr>tj_data_stream := None\<rparr>;
          j = set_file_confirmed False j;
          j = set_file_is_waiting False j
      in j\<lparr>tj_file_num := wrap_i32 (tj_file_num j + 1), tj_file_skipped := True\<rparr>)"

definition stream_at :: "handle \<Rightarrow> nat \<Rightarrow> transfer_job \<Rightarrow> transfer_job" where
  "stream_at h offset j =
     j\<lparr>tj_data_stream := Some (FileStream (h\<lparr>h_pos := offset\<rparr>)),
       tj_transferred := u64_add (tj_transferred j) offset,
       tj_finished_size := u64_add (tj_finished_size j) offset\<rparr>"

definition set_stream_offset :: "nat \<Rightarrow> nat \<Rightarrow> transfer_job \<Rightarrow> fsys \<Rightarrow> (transfer_job \<times> fsys) rust" where
  "set_stream_offset file_num offset j fs =
     (case tj_data_source j of
        MemoryCursor _ \<Rightarrow> Ret (j, fs)
      | FilePath p \<Rightarrow>
          rust_bind (index_at (tj_files j) file_num) (\<lambda>entry.
            case resolve_entry_path fs j p (fe_name entry) of
              None \<Rightarrow> Ret (j, fs)
            | Some path \<Rightarrow>
                if fs_exists fs (download_of path) \<and> fs_exists fs (digest_of path) then
                  (case open_write False fs (download_of path) of
                     Inl _ \<Rightarrow> Ret (j, fs)
                   | Inr (fs, h) \<Rightarrow> Ret (stream_at h offset j, fs))
                else if fs_exists fs path then
                  (case file_open fs path of
                     Inl _ \<Rightarrow> Ret (j, fs)
                   | Inr h \<Rightarrow> Ret (stream_at h offset j, fs))
                else Ret (j, fs)))"

definition confirm :: "confirm_request \<Rightarrow> transfer_job \<Rightarrow> fsys \<Rightarrow> (transfer_job \<times> fsys) rust" where
  "confirm r j fs =
     (if tj_file_num j \<noteq> cr_file_num r then Ret (j, fs)
      else case cr_union r of
        Some (Skip s) \<Rightarrow> Ret (if s then set_file_skipped j else set_file_confirmed True j, fs)
      | Some (OffsetBlk offset) \<Rightarrow>
          let j = set_file_confirmed True j in
          if offset > 0 then set_stream_offset (usize_of_i32 (cr_file_num r)) offset j fs else Ret (j, fs)
      | None \<Rightarrow> Ret (j, fs))"

definition gen_meta :: "transfer_job \<Rightarrow> transfer_job_meta" where
  "gen_meta j = \<lparr>tm_id = tj_id j, tm_remote = tj_remote j, tm_to = to_meta (tj_data_source j),
     tm_show_hidden = tj_show_hidden j, tm_file_num = tj_file_num j, tm_is_remote = tj_is_remote j\<rparr>"

subsection \<open>The job list\<close>

fun remove_job :: "int \<Rightarrow> transfer_job list \<Rightarrow> transfer_job option \<times> transfer_job list" where
  "remove_job i [] = (None, [])"
| "remove_job i (j # js) =
     (if tj_id j = i then (Some j, js) else case remove_job i js of (r, js') \<Rightarrow> (r, j # js'))"

definition get_job :: "int \<Rightarrow> transfer_job list \<Rightarrow> transfer_job option" where
  "get_job i js = find (\<lambda>j. tj_id j = i) js"

fun init_jobs :: "fsys \<Rightarrow> transfer_job list \<Rightarrow> peer \<Rightarrow> ft_error option \<times> transfer_job list \<times> peer" where
  "init_jobs fs [] s = (None, [], s)"
| "init_jobs fs (j # js) s =
     (if tj_is_last_job j then (case init_jobs fs js s of (e, js', s') \<Rightarrow> (e, j # js', s'))
      else case init_data_stream fs j s of
        (None, j, s) \<Rightarrow> (case init_jobs fs js s of (e, js', s') \<Rightarrow> (e, j # js', s'))
      | (Some err, j, s) \<Rightarrow>
          (case peer_send (MsgError (tj_id j) err (tj_file_num j)) s of
             Inl e \<Rightarrow> (Some e, j # js, s)
           | Inr s \<Rightarrow> (case init_jobs fs js s of (e, js', s') \<Rightarrow> (e, j # js', s'))))"

text \<open>
  One step of the first job that is not a leftover of the last session: its result, the job, the
  stream, the log line and whether it is finished.
\<close>

definition step_job :: "ft_env \<Rightarrow> fsys \<Rightarrow> transfer_job \<Rightarrow> peer \<Rightarrow> ft_error option \<times> transfer_job \<times> peer \<times> string \<times> bool" where
  "step_job env fs j s =
     (case job_read env fs j of
        (Inl err, j) \<Rightarrow>
          (case peer_send (MsgError (tj_id j) err (tj_file_num j)) s of
             Inl e \<Rightarrow> (Some e, j, s, [], False) | Inr s \<Rightarrow> (None, j, s, [], False))
      | (Inr (Some b), j) \<Rightarrow>
          (case peer_send (MsgBlock b) s of
             Inl e \<Rightarrow> (Some e, j, s, [], False) | Inr s \<Rightarrow> (None, j, s, [], False))
      | (Inr None, j) \<Rightarrow>
          if job_completed j then
            (case job_error j of
               Some err \<Rightarrow>
                 (case peer_send (MsgError (tj_id j) (Bail err) (tj_file_num j)) s of
                    Inl e \<Rightarrow> (Some e, j, s, en_serialize env j False False err, True)
                  | Inr s \<Rightarrow> (None, j, s, en_serialize env j False False err, True))
             | None \<Rightarrow>
                 (case peer_send (MsgDone (tj_id j) (tj_file_num j)) s of
                    Inl e \<Rightarrow> (Some e, j, s, en_serialize env j True False [], True)
                  | Inr s \<Rightarrow> (None, j, s, en_serialize env j True False [], True)))
          else (None, j, s, [], False))"

fun step_first :: "ft_env \<Rightarrow> fsys \<Rightarrow> transfer_job list \<Rightarrow> peer
    \<Rightarrow> ft_error option \<times> transfer_job list \<times> peer \<times> string \<times> int option" where
  "step_first env fs [] s = (None, [], s, [], None)"
| "step_first env fs (j # js) s =
     (if tj_is_last_job j
      then (case step_first env fs js s of (e, js', s', l, f) \<Rightarrow> (e, j # js', s', l, f))
      else case step_job env fs j s of
        (e, j', s', l, fin) \<Rightarrow> (e, j' # js, s', l, if fin then Some (tj_id j') else None))"

definition handle_read_jobs :: "ft_env \<Rightarrow> fsys \<Rightarrow> transfer_job list \<Rightarrow> peer \<Rightarrow> string ft_result \<times> transfer_job list \<times> peer" where
  "handle_read_jobs env fs jobs s =
     (case init_jobs fs jobs s of
        (Some e, jobs, s) \<Rightarrow> (Inl e, jobs, s)
      | (None, jobs, s) \<Rightarrow>
          (case step_first env fs jobs s of
             (Some e, jobs, s, _, _) \<Rightarrow> (Inl e, jobs, s)
           | (None, jobs, s, l, fin) \<Rightarrow>
               (Inr l, case fin of Some i \<Rightarrow> snd (remove_job i jobs) | None \<Rightarrow> jobs, s)))"

subsection \<open>Overwrite checks\<close>

datatype digest_check_result = IsSame | NeedConfirm transfer_digest | NoSuchFile

text \<open>Contents and modification time of the file a path denotes.\<close>

definition file_at :: "fsys \<Rightarrow> string \<Rightarrow> nat option" where
  "file_at fs p = (case fs_lookup fs p True of Inr (Regular i) \<Rightarrow> Some i | _ \<Rightarrow> None)"

definition resume_digest :: "ft_env \<Rightarrow> fsys \<Rightarrow> string \<Rightarrow> transfer_digest \<Rightarrow> transfer_digest option" where
  "resume_digest env fs file_path digest =
     (case (file_at fs (digest_of file_path), file_at fs (download_of file_path)) of
        (Some i, Some k) \<Rightarrow>
          (if fs_faulty fs i then None
           else case en_digest_parse env (fs_data fs i) of
             None \<Rightarrow> None
           | Some local \<Rightarrow>
               if fd_modified local = td_last_modified digest \<and> fd_size local = td_file_size digest
                  \<and> length (fs_data fs k) > 0
               then Some \<lparr>td_id = td_id digest, td_file_num = td_file_num digest,
                      td_last_modified = td_last_modified digest, td_file_size = td_file_size digest,
                      td_is_identical = True, td_transferred_size = length (fs_data fs k), td_is_resume = False\<rparr>
               else None)
      | _ \<Rightarrow> None)"

definition is_write_need_confirmation ::
  "ft_env \<Rightarrow> fsys \<Rightarrow> bool \<Rightarrow> string \<Rightarrow> transfer_digest \<Rightarrow> digest_check_result ft_result" where
  "is_write_need_confirmation env fs is_resume file_path digest =
     (case (if is_resume \<and> fs_exists fs (digest_of file_path) \<and> fs_exists fs (download_of file_path)
            then resume_digest env fs file_path digest else None) of
        Some d \<Rightarrow> Inr (NeedConfirm d)
      | None \<Rightarrow>
          (case file_at fs file_path of
             None \<Rightarrow> Inr NoSuchFile
           | Some i \<Rightarrow>
               if fs_mtime fs i < 0 then Inl (Bail ''second time provided was later than self'')
               else Inr (NeedConfirm \<lparr>td_id = td_id digest, td_file_num = td_file_num digest,
                      td_last_modified = nat (fs_mtime fs i div 10 ^ 9), td_file_size = length (fs_data fs i),
                      td_is_identical = (int (td_last_modified digest) * 10 ^ 9 = fs_mtime fs i
                         \<and> td_file_size digest = length (fs_data fs i)),
                      td_transferred_size = 0, td_is_resume = False\<rparr>)))"

subsection \<open>The sending side\<close>

lemma stream_read_file:
  assumes "\<not> fs_faulty fs (h_ino h)"
  obtains bs rest where "drop (h_pos h) (fs_data fs (h_ino h)) = bs @ rest" "length bs \<le> n"
    "bs = [] \<Longrightarrow> n = 0 \<or> rest = []"
    "stream_read env fs (FileStream h) n = Inr (bs, FileStream (h\<lparr>h_pos := h_pos h + length bs\<rparr>))"
proof -
  let ?d = "drop (h_pos h) (fs_data fs (h_ino h))" and ?m = "min n (max 1 (en_short_read env (h_pos h)))"
  have "stream_read env fs (FileStream h) n = Inr (take ?m ?d, FileStream (h\<lparr>h_pos := h_pos h + length (take ?m ?d)\<rparr>))"
    using assms by (simp add: stream_read_def handle_read_def Let_def)
  moreover have "take ?m ?d = [] \<Longrightarrow> n = 0 \<or> drop ?m ?d = []" by (cases n) auto
  moreover have "length (take ?m ?d) \<le> n" by simp
  ultimately show ?thesis using that [of "take ?m ?d" "drop ?m ?d"] by (metis append_take_drop_id)
qed

text \<open>The loop that fills the buffer takes the next \<open>cap\<close> bytes of the file, however short the reads are.\<close>

lemma read_loop_file:
  assumes "\<not> fs_faulty fs (h_ino h)" and "length acc \<le> cap"
    and "buf = take (cap - length acc) (drop (h_pos h) (fs_data fs (h_ino h)))"
  shows "read_loop env fs cap acc (FileStream h) =
    Inr (acc @ buf, FileStream (h\<lparr>h_pos := h_pos h + length buf\<rparr>))"
  using assms
proof (induction "cap - length acc" arbitrary: acc h buf rule: less_induct)
  case less
  let ?n = "cap - length acc"
  obtain bs rest where d: "drop (h_pos h) (fs_data fs (h_ino h)) = bs @ rest" and le: "length bs \<le> ?n"
    and e: "bs = [] \<Longrightarrow> ?n = 0 \<or> rest = []"
    and sr: "stream_read env fs (FileStream h) ?n = Inr (bs, FileStream (h\<lparr>h_pos := h_pos h + length bs\<rparr>))"
    using stream_read_file [OF less.prems(1), of ?n env] by blast
  show ?case
  proof (cases "bs = [] \<or> length acc + length bs = cap")
    case True
    then have "buf = bs" using less.prems(2,3) d e by auto
    with True sr show ?thesis by (subst read_loop.simps) simp
  next
    case False
    let ?h = "h\<lparr>h_pos := h_pos h + length bs\<rparr>" and ?acc = "acc @ bs"
    have "drop (h_pos h + length bs) (fs_data fs (h_ino h)) = rest"
      using d by (metis add.commute append_eq_conv_conj drop_drop)
    moreover have lt: "cap - length ?acc < cap - length acc"
      using False le less.prems(2) length_greater_0_conv [of bs] by (simp, linarith)
    ultimately have IH: "read_loop env fs cap ?acc (FileStream ?h) =
        Inr (?acc @ take (cap - length ?acc) rest, FileStream (?h\<lparr>h_pos := h_pos ?h + length (take (cap - length ?acc) rest)\<rparr>))"
      using less.prems False le lt by (intro less.hyps) auto
    have "buf = bs @ take (cap - length ?acc) rest" using less.prems(3) d le by simp
    with False sr IH show ?thesis by (subst read_loop.simps) (simp add: add.assoc)
  qed
qed

text \<open>The blocks a file is sent as: full buffers, the remainder, and an empty block that ends the file.\<close>

function chunks :: "nat \<Rightarrow> 'a list \<Rightarrow> 'a list list" where
  "chunks n xs = (if xs = [] \<or> n = 0 then [] else take n xs # chunks n (drop n xs))"
  by pat_completeness auto
termination by (relation "measure (\<lambda>(n, xs). length xs)") auto

declare chunks.simps [simp del]

lemma concat_chunks: "n > 0 \<Longrightarrow> concat (chunks n xs) = xs"
proof (induction n xs rule: chunks.induct)
  case (1 n xs)
  then show ?case by (subst chunks.simps) auto
qed

definition block_of :: "ft_env \<Rightarrow> int \<Rightarrow> int \<Rightarrow> string \<Rightarrow> bytes \<Rightarrow> file_block" where
  "block_of env i k name buf =
     (let c = (\<not> is_compressed_file name \<and> length (compress env buf) < length buf)
      in \<lparr>bk_id = i, bk_file_num = k, bk_data = if c then compress env buf else buf, bk_compressed = c\<rparr>)"

definition end_block :: "int \<Rightarrow> int \<Rightarrow> file_block" where
  "end_block i k = \<lparr>bk_id = i, bk_file_num = k, bk_data = [], bk_compressed = False\<rparr>"

definition file_blocks :: "ft_env \<Rightarrow> int \<Rightarrow> int \<Rightarrow> string \<Rightarrow> bytes \<Rightarrow> file_block list" where
  "file_blocks env i k name content = map (block_of env i k name) (chunks BUF_SIZE content) @ [end_block i k]"

text \<open>Repeated timer ticks of the driver.\<close>

primrec ticks :: "nat \<Rightarrow> ft_env \<Rightarrow> fsys \<Rightarrow> transfer_job list \<times> peer \<Rightarrow> transfer_job list \<times> peer" where
  "ticks 0 env fs st = st"
| "ticks (Suc n) env fs st = ticks n env fs (snd (handle_read_jobs env fs (fst st) (snd st)))"

lemma ticks_add: "ticks (m + n) env fs st = ticks n env fs (ticks m env fs st)"
  by (induction m arbitrary: st) simp_all

text \<open>The job at file \<open>k\<close> with stream \<open>st\<close>, its byte counters aside.\<close>

definition job_at :: "transfer_job \<Rightarrow> int \<Rightarrow> data_stream option \<Rightarrow> transfer_job \<Rightarrow> bool" where
  "job_at j0 k st j \<longleftrightarrow> (\<exists>f t. j = j0\<lparr>tj_file_num := k, tj_data_stream := st, tj_finished_size := f, tj_transferred := t\<rparr>)"

definition idle_job :: "transfer_job \<Rightarrow> bool" where
  "idle_job j \<longleftrightarrow> \<not> tj_enable_overwrite_detection j \<and> \<not> tj_is_last_job j \<and> \<not> tj_file_confirmed j
     \<and> \<not> tj_file_is_waiting j \<and> \<not> tj_file_skipped j"

definition reliable :: "peer \<Rightarrow> bool" where
  "reliable s \<longleftrightarrow> pe_fails s = (\<lambda>_. False)"

lemma peer_send_reliable: "reliable s \<Longrightarrow> peer_send m s = Inr (s\<lparr>pe_sent := pe_sent s @ [m]\<rparr>)"
  by (simp add: peer_send_def reliable_def)

lemma usize_small: "0 \<le> k \<Longrightarrow> k < 2 ^ 31 \<Longrightarrow> usize_of_i32 k = nat k"
  by (simp add: usize_of_i32_def)

text \<open>A tick on a job whose file is open: one block, or the end of the file.\<close>

lemma tick_open:
  assumes j: "job_at j0 (int k) (Some (FileStream h)) j" and idle: "idle_job j0"
    and src: "tj_data_source j0 = FilePath p" and k: "k < length (tj_files j0)" "k < 2 ^ 31 - 1"
    and ok: "\<not> fs_faulty fs (h_ino h)" and s: "reliable s"
    and buf: "buf = take BUF_SIZE (drop (h_pos h) (fs_data fs (h_ino h)))"
    and name: "name = entry_name j0 p k"
  shows "\<exists>j'. snd (handle_read_jobs env fs [j] s) =
      ([j'], s\<lparr>pe_sent := pe_sent s @ [MsgBlock (if buf = [] then end_block (tj_id j0) (int k) else block_of env (tj_id j0) (int k) name buf)]\<rparr>)
    \<and> (if buf = [] then job_at j0 (int k + 1) None j'
        else job_at j0 (int k) (Some (FileStream (h\<lparr>h_pos := h_pos h + length buf\<rparr>))) j')"
proof -
  obtain f t where jd: "j = j0\<lparr>tj_file_num := int k, tj_data_stream := Some (FileStream h), tj_finished_size := f, tj_transferred := t\<rparr>"
    using j by (auto simp: job_at_def)
  have u: "usize_of_i32 (int k) = k" "wrap_i32 (int k) = int k" "wrap_i32 (int k + 1) = int k + 1"
    using k by (simp_all add: usize_small i32_MIN_def i32_MAX_def)
  have nm: "entry_name j p k = name" by (simp add: name jd entry_name_def)
  have rl: "read_loop env fs BUF_SIZE [] (FileStream h) = Inr (buf, FileStream (h\<lparr>h_pos := h_pos h + length buf\<rparr>))"
    using read_loop_file [OF ok, of "[]" BUF_SIZE buf env] buf by simp
  have init: "init_jobs fs [j] s = (None, [j], s)"
    using idle src k by (simp add: jd idle_job_def init_data_stream_def open_data_stream_def u Let_def needs_digest_def)
  have rd: "job_read env fs j = (let b = (if buf = [] then end_block (tj_id j0) (int k) else block_of env (tj_id j0) (int k) name buf)
      in (Inr (Some b), if buf = [] then (next_file j)\<lparr>tj_data_stream := None\<rparr>
        else j\<lparr>tj_data_stream := Some (FileStream (h\<lparr>h_pos := h_pos h + length buf\<rparr>)),
               tj_finished_size := u64_add f (length buf), tj_transferred := u64_add t (length (bk_data b))\<rparr>))"
    using idle src k rl nm by (cases "buf = []")
      (simp_all add: jd idle_job_def job_read_def read_block_def u Let_def end_block_def block_of_def)
  have st: "step_first env fs [j] s = (None, [snd (job_read env fs j)],
      s\<lparr>pe_sent := pe_sent s @ [MsgBlock (if buf = [] then end_block (tj_id j0) (int k) else block_of env (tj_id j0) (int k) name buf)]\<rparr>, [], None)"
    using idle peer_send_reliable [OF s] rd by (simp add: jd idle_job_def step_job_def Let_def)
  have "if buf = [] then job_at j0 (int k + 1) None (snd (job_read env fs j))
        else job_at j0 (int k) (Some (FileStream (h\<lparr>h_pos := h_pos h + length buf\<rparr>))) (snd (job_read env fs j))"
  proof (cases "buf = []")
    case True
    have "(next_file j)\<lparr>tj_data_stream := None\<rparr> = j0\<lparr>tj_file_num := int k + 1, tj_data_stream := None, tj_finished_size := f, tj_transferred := t\<rparr>"
      using idle by (simp add: jd next_file_def u idle_job_def)
    with True show ?thesis unfolding rd Let_def snd_conv job_at_def by auto
  next
    case False
    have "j\<lparr>tj_data_stream := x, tj_finished_size := y, tj_transferred := z\<rparr> =
        j0\<lparr>tj_file_num := int k, tj_data_stream := x, tj_finished_size := y, tj_transferred := z\<rparr>" for x y z
      by (simp add: jd)
    with False show ?thesis unfolding rd Let_def snd_conv job_at_def by auto
  qed
  then show ?thesis
    by (intro exI [of _ "snd (job_read env fs j)"]) (simp only: handle_read_jobs_def init st prod.case option.case snd_conv simp_thms)
qed

text \<open>The first tick on a file opens it.\<close>

lemma tick_opens:
  assumes j: "job_at j0 (int k) None j" and idle: "idle_job j0" and src: "tj_data_source j0 = FilePath p"
    and k: "k < length (tj_files j0)" "k < 2 ^ 31 - 1"
    and op: "file_open fs (job_join p (fe_name (tj_files j0 ! k))) = Inr h"
  shows "\<exists>j'. job_at j0 (int k) (Some (FileStream h)) j' \<and> handle_read_jobs env fs [j] s = handle_read_jobs env fs [j'] s"
proof -
  obtain f t where jd: "j = j0\<lparr>tj_file_num := int k, tj_data_stream := None, tj_finished_size := f, tj_transferred := t\<rparr>"
    using j by (auto simp: job_at_def)
  let ?j = "j0\<lparr>tj_file_num := int k, tj_data_stream := Some (FileStream h), tj_finished_size := f, tj_transferred := t\<rparr>"
  have u: "usize_of_i32 (int k) = k" using k by (simp add: usize_small)
  have eq: "j\<lparr>tj_data_stream := Some (FileStream h), tj_file_confirmed := False, tj_file_is_waiting := False\<rparr> = ?j"
    using idle by (simp add: jd idle_job_def)
  have "init_jobs fs [j] s = (None, [?j], s)"
    using idle src k op eq by (simp add: jd idle_job_def init_data_stream_def open_data_stream_def u Let_def needs_digest_def)
  moreover have "init_jobs fs [?j] s = (None, [?j], s)"
    using idle src k by (simp add: idle_job_def init_data_stream_def open_data_stream_def u Let_def needs_digest_def)
  ultimately have "handle_read_jobs env fs [j] s = handle_read_jobs env fs [?j] s" by (simp add: handle_read_jobs_def)
  then show ?thesis by (auto simp: job_at_def)
qed

text \<open>All ticks of one file.\<close>

lemma ticks_rest:
  assumes "job_at j0 (int k) (Some (FileStream h)) j" and "idle_job j0"
    and "tj_data_source j0 = FilePath p" and "k < length (tj_files j0)" "k < 2 ^ 31 - 1"
    and "\<not> fs_faulty fs (h_ino h)" and "reliable s"
    and "rest = drop (h_pos h) (fs_data fs (h_ino h))" and "name = entry_name j0 p k"
  shows "\<exists>n j'. ticks n env fs ([j], s) =
      ([j'], s\<lparr>pe_sent := pe_sent s @ map MsgBlock (file_blocks env (tj_id j0) (int k) name rest)\<rparr>) \<and> job_at j0 (int k + 1) None j'"
  using assms
proof (induction "length rest" arbitrary: rest h j s rule: less_induct)
  case less
  let ?buf = "take BUF_SIZE rest"
  have B: "BUF_SIZE > 0" by (simp add: BUF_SIZE_def)
  have b: "?buf = take BUF_SIZE (drop (h_pos h) (fs_data fs (h_ino h)))" using less.prems(8) by simp
  obtain j' where t: "snd (handle_read_jobs env fs [j] s) =
      ([j'], s\<lparr>pe_sent := pe_sent s @ [MsgBlock (if ?buf = [] then end_block (tj_id j0) (int k) else block_of env (tj_id j0) (int k) name ?buf)]\<rparr>)"
    and j': "if ?buf = [] then job_at j0 (int k + 1) None j'
        else job_at j0 (int k) (Some (FileStream (h\<lparr>h_pos := h_pos h + length ?buf\<rparr>))) j'"
    using tick_open [OF less.prems(1-7) b less.prems(9), of env] by blast
  show ?case
  proof (cases "rest = []")
    case True
    with t j' show ?thesis
      by (intro exI [of _ 1] exI [of _ j']) (simp add: file_blocks_def chunks.simps)
  next
    case False
    let ?h = "h\<lparr>h_pos := h_pos h + length ?buf\<rparr>"
    let ?s = "s\<lparr>pe_sent := pe_sent s @ [MsgBlock (block_of env (tj_id j0) (int k) name ?buf)]\<rparr>"
    have nb: "?buf \<noteq> []" using False B by simp
    have r: "drop BUF_SIZE rest = drop (h_pos ?h) (fs_data fs (h_ino ?h))"
      using less.prems(8) by (simp add: add.commute min_def)
    have "length (drop BUF_SIZE rest) < length rest" using False B by (cases rest) auto
    from less.hyps [OF this _ less.prems(2-5) _ _ r less.prems(9), of j' ?s] j' nb less.prems(6,7)
    obtain n j'' where n: "ticks n env fs ([j'], ?s) =
        ([j''], ?s\<lparr>pe_sent := pe_sent ?s @ map MsgBlock (file_blocks env (tj_id j0) (int k) name (drop BUF_SIZE rest))\<rparr>)"
      "job_at j0 (int k + 1) None j''"
      by (auto simp: reliable_def)
    have "file_blocks env (tj_id j0) (int k) name rest =
        block_of env (tj_id j0) (int k) name ?buf # file_blocks env (tj_id j0) (int k) name (drop BUF_SIZE rest)"
      using False B by (simp add: file_blocks_def chunks.simps [of BUF_SIZE rest])
    with n t nb show ?thesis by (intro exI [of _ "Suc n"] exI [of _ j'']) simp
  qed
qed

text \<open>All files from the \<open>k\<close>-th on, then the final tick.\<close>

definition sent_blocks :: "ft_env \<Rightarrow> fsys \<Rightarrow> transfer_job \<Rightarrow> string \<Rightarrow> (nat \<Rightarrow> nat) \<Rightarrow> nat \<Rightarrow> file_block list" where
  "sent_blocks env fs j p ino k =
     concat (map (\<lambda>i. file_blocks env (tj_id j) (int i) (entry_name j p i) (fs_data fs (ino i))) [k..<length (tj_files j)])"

lemma sent_blocks_step:
  "k < length (tj_files j) \<Longrightarrow> sent_blocks env fs j p ino k =
     file_blocks env (tj_id j) (int k) (entry_name j p k) (fs_data fs (ino k)) @ sent_blocks env fs j p ino (Suc k)"
  by (simp add: sent_blocks_def upt_conv_Cons)

lemma tick_done:
  assumes "job_at j0 (int (length (tj_files j0))) None j" and "idle_job j0"
    and "tj_data_source j0 = FilePath p" and "length (tj_files j0) < 2 ^ 31" and "reliable s"
  shows "snd (handle_read_jobs env fs [j] s) =
    ([], s\<lparr>pe_sent := pe_sent s @ [MsgDone (tj_id j0) (int (length (tj_files j0)))]\<rparr>)"
proof -
  obtain f t where jd: "j = j0\<lparr>tj_file_num := int (length (tj_files j0)), tj_data_stream := None, tj_finished_size := f, tj_transferred := t\<rparr>"
    using assms(1) by (auto simp: job_at_def)
  have u: "usize_of_i32 (int (length (tj_files j0))) = length (tj_files j0)" using assms(4) by (simp add: usize_small)
  have j: "j\<lparr>tj_data_stream := None\<rparr> = j" by (simp add: jd)
  have fields: "tj_data_source j = FilePath p" "usize_of_i32 (tj_file_num j) = length (tj_files j)" "idle_job j" "tj_id j = tj_id j0"
    "tj_file_num j = int (length (tj_files j0))"
    using assms(2,3) u by (simp_all add: jd idle_job_def)
  have init: "init_jobs fs [j] s = (None, [j], s)"
    using fields j by (simp add: idle_job_def init_data_stream_def open_data_stream_def)
  have "job_read env fs j = (Inr None, j)" using fields j by (simp add: idle_job_def job_read_def)
  then have "step_first env fs [j] s = (None, [j], s\<lparr>pe_sent := pe_sent s @ [MsgDone (tj_id j0) (int (length (tj_files j0)))]\<rparr>,
      en_serialize env j True False [], Some (tj_id j))"
    using fields peer_send_reliable [OF assms(5)]
    by (simp add: idle_job_def step_job_def job_completed_def job_error_def job_skipped_def)
  with init show ?thesis by (simp add: handle_read_jobs_def)
qed

lemma ticks_all:
  assumes "job_at j0 (int k) None j" and "k \<le> length (tj_files j0)" and "idle_job j0"
    and "tj_data_source j0 = FilePath p" and "length (tj_files j0) < 2 ^ 31" and "reliable s"
    and op: "\<And>i. i < length (tj_files j0) \<Longrightarrow>
      file_open fs (job_join p (fe_name (tj_files j0 ! i))) = Inr \<lparr>h_ino = ino i, h_pos = 0\<rparr> \<and> \<not> fs_faulty fs (ino i)"
  shows "\<exists>n. ticks n env fs ([j], s) =
    ([], s\<lparr>pe_sent := pe_sent s @ map MsgBlock (sent_blocks env fs j0 p ino k) @ [MsgDone (tj_id j0) (int (length (tj_files j0)))]\<rparr>)"
  using assms(1,2,6)
proof (induction "length (tj_files j0) - k" arbitrary: k j s)
  case 0
  then have "k = length (tj_files j0)" by simp
  with tick_done [OF _ assms(3,4,5) 0(4), of j env fs] 0(2) show ?case
    by (intro exI [of _ 1]) (simp add: sent_blocks_def)
next
  case (Suc m)
  let ?h = "\<lparr>h_ino = ino k, h_pos = 0\<rparr>" and ?name = "entry_name j0 p k"
  have k: "k < length (tj_files j0)" "k < 2 ^ 31 - 1" using Suc.hyps(2) assms(5) by simp_all
  obtain j1 where j1: "job_at j0 (int k) (Some (FileStream ?h)) j1"
    "handle_read_jobs env fs [j] s = handle_read_jobs env fs [j1] s"
    using tick_opens [OF Suc.prems(1) assms(3,4) k, of fs ?h env s] op [OF k(1)] by blast
  have ok: "\<not> fs_faulty fs (h_ino ?h)" using op [OF k(1)] by simp
  obtain n j2 where n: "ticks n env fs ([j1], s) =
      ([j2], s\<lparr>pe_sent := pe_sent s @ map MsgBlock (file_blocks env (tj_id j0) (int k) ?name (fs_data fs (ino k)))\<rparr>)"
    and j2: "job_at j0 (int (Suc k)) None j2"
    using ticks_rest [OF j1(1) assms(3,4) k ok Suc.prems(3) refl refl, of env] by (auto simp: add.commute)
  let ?s = "s\<lparr>pe_sent := pe_sent s @ map MsgBlock (file_blocks env (tj_id j0) (int k) ?name (fs_data fs (ino k)))\<rparr>"
  have "n \<noteq> 0"
  proof
    assume "n = 0"
    with n have "snd ([j1], s) = ?s" by (metis snd_conv ticks.simps(1))
    then have "pe_sent s = pe_sent ?s" by simp
    then show False by (simp add: file_blocks_def)
  qed
  then have first: "ticks n env fs ([j], s) = ([j2], ?s)" using n j1(2) by (cases n) simp_all
  have "m = length (tj_files j0) - Suc k" "Suc k \<le> length (tj_files j0)" "reliable ?s"
    using Suc.hyps(2) Suc.prems(3) k by (simp_all add: reliable_def)
  from Suc.hyps(1) [OF this(1) j2 this(2,3)] obtain n' where
    n': "ticks n' env fs ([j2], ?s) =
      ([], ?s\<lparr>pe_sent := pe_sent ?s @ map MsgBlock (sent_blocks env fs j0 p ino (Suc k)) @ [MsgDone (tj_id j0) (int (length (tj_files j0)))]\<rparr>)" by blast
  show ?case
    by (rule exI [of _ "n + n'"]) (simp add: ticks_add first n' sent_blocks_step [OF k(1)])
qed



subsection \<open>The receiving side\<close>

primrec write_all :: "ft_env \<Rightarrow> file_block list \<Rightarrow> transfer_job \<Rightarrow> fsys \<Rightarrow> ft_error option \<times> transfer_job \<times> fsys" where
  "write_all env [] j fs = (None, j, fs)"
| "write_all env (b # bs) j fs =
     (case job_write env b j fs of (Some e, j, fs) \<Rightarrow> (Some e, j, fs) | (None, j, fs) \<Rightarrow> write_all env bs j fs)"

lemma overwrite_end: "overwrite xs (length xs) ys = xs @ ys"
  by (simp add: overwrite_def)

text \<open>A block of the file that is open goes to its handle and nowhere else.\<close>

lemma job_write_open:
  assumes "bk_id b = tj_id j" and "tj_data_source j = FilePath p" and "tj_data_stream j = Some (FileStream h)"
    and "usize_of_i32 (bk_file_num b) = usize_of_i32 (tj_file_num j)" and "usize_of_i32 (tj_file_num j) < length (tj_files j)"
    and "\<not> fs_faulty fs (h_ino h)" and "d = block_payload env b"
  shows "job_write env b j fs = (None,
    j\<lparr>tj_data_stream := Some (FileStream (h\<lparr>h_pos := h_pos h + length d\<rparr>)),
      tj_finished_size := u64_add (tj_finished_size j) (length d),
      tj_transferred := u64_add (tj_transferred j) (length (bk_data b))\<rparr>,
    fs\<lparr>fs_data := (fs_data fs)(h_ino h := overwrite (fs_data fs (h_ino h)) (h_pos h) d),
       fs_mtime := (fs_mtime fs)(h_ino h := fs_now fs)\<rparr>)"
  using assms by (simp add: job_write_def open_for_block_def stream_write_def handle_write_def Let_def)

text \<open>A run of such blocks appends the payloads.\<close>

lemma write_all_appends:
  assumes "\<forall>b \<in> set bs. bk_id b = tj_id j \<and> usize_of_i32 (bk_file_num b) = usize_of_i32 (tj_file_num j)"
    and "tj_data_source j = FilePath p" and "tj_data_stream j = Some (FileStream h)"
    and "usize_of_i32 (tj_file_num j) < length (tj_files j)" and "\<not> fs_faulty fs (h_ino h)"
    and "h_pos h = length (fs_data fs (h_ino h))"
  shows "\<exists>j' fs'. write_all env bs j fs = (None, j', fs') \<and> tj_file_num j' = tj_file_num j
    \<and> fs_data fs' = (fs_data fs)(h_ino h := fs_data fs (h_ino h) @ concat (map (block_payload env) bs))
    \<and> fs_tree fs' = fs_tree fs \<and> tj_finished_size j' mod 2 ^ 64 =
        (tj_finished_size j + length (concat (map (block_payload env) bs))) mod 2 ^ 64"
  using assms
proof (induction bs arbitrary: j fs h)
  case (Cons b bs)
  let ?d = "block_payload env b"
  let ?h = "h\<lparr>h_pos := h_pos h + length ?d\<rparr>"
  let ?j = "j\<lparr>tj_data_stream := Some (FileStream ?h), tj_finished_size := u64_add (tj_finished_size j) (length ?d),
      tj_transferred := u64_add (tj_transferred j) (length (bk_data b))\<rparr>"
  let ?fs = "fs\<lparr>fs_data := (fs_data fs)(h_ino h := fs_data fs (h_ino h) @ ?d), fs_mtime := (fs_mtime fs)(h_ino h := fs_now fs)\<rparr>"
  have w: "job_write env b j fs = (None, ?j, ?fs)"
    using job_write_open [of b j p h fs ?d env] Cons.prems by (simp add: overwrite_end)
  obtain j' fs' where r: "write_all env bs ?j ?fs = (None, j', fs')" "tj_file_num j' = tj_file_num ?j"
    "fs_data fs' = (fs_data ?fs)(h_ino ?h := fs_data ?fs (h_ino ?h) @ concat (map (block_payload env) bs))"
    "fs_tree fs' = fs_tree ?fs" "tj_finished_size j' mod 2 ^ 64 =
        (tj_finished_size ?j + length (concat (map (block_payload env) bs))) mod 2 ^ 64"
  proof -
    have "\<forall>b \<in> set bs. bk_id b = tj_id ?j \<and> usize_of_i32 (bk_file_num b) = usize_of_i32 (tj_file_num ?j)"
      "tj_data_source ?j = FilePath p" "tj_data_stream ?j = Some (FileStream ?h)"
      "usize_of_i32 (tj_file_num ?j) < length (tj_files ?j)" "\<not> fs_faulty ?fs (h_ino ?h)"
      "h_pos ?h = length (fs_data ?fs (h_ino ?h))"
      using Cons.prems by simp_all
    from Cons.IH [OF this] show ?thesis using that by blast
  qed
  have "(tj_finished_size ?j + length (concat (map (block_payload env) bs))) mod 2 ^ 64 =
      (tj_finished_size j + length (concat (map (block_payload env) (b # bs)))) mod 2 ^ 64"
    by (simp add: u64_add_def mod_simps add.assoc)
  with w r show ?case by (intro exI [of _ j'] exI [of _ fs']) (simp only: write_all.simps prod.case option.case, simp)
qed simp

lemma payload_block_of:
  assumes "\<And>x. \<exists>y. en_zstd_compress env x = Some y \<and> en_zstd_decode env y = Some x"
  shows "block_payload env (block_of env i k name buf) = buf"
proof -
  obtain y where "en_zstd_compress env buf = Some y" "en_zstd_decode env y = Some buf" using assms by blast
  then show ?thesis by (simp add: block_payload_def block_of_def compress_def decompress_def Let_def)
qed

lemma payload_file_blocks:
  assumes "\<And>x. \<exists>y. en_zstd_compress env x = Some y \<and> en_zstd_decode env y = Some x"
  shows "concat (map (block_payload env) (file_blocks env i k name content)) = content"
proof -
  have "map (block_payload env) (map (block_of env i k name) xs) = xs" for xs
    by (induction xs) (simp_all add: payload_block_of [OF assms])
  moreover have "block_payload env (end_block i k) = []" by (simp add: block_payload_def end_block_def)
  ultimately show ?thesis by (simp add: file_blocks_def concat_chunks BUF_SIZE_def del: map_map)
qed



text \<open>
  A failed switch to the next file misdirects the blocks that follow. If a block asks for another
  file and creating that file fails after the job has moved on (the target is refused or cannot be
  created), the job keeps the handle of the previous file, and the next block of the refused file is
  written, with success reported, at the end of the previous file.
\<close>

theorem failed_switch_misdirects:
  assumes "tj_data_source j = FilePath p" and "tj_data_stream j = Some (FileStream h)" and "bk_id b = tj_id j"
    and "open_for_block env b j fs = (Some e, j', fs')" and "tj_file_num j' = bk_file_num b" "tj_file_num j \<noteq> bk_file_num b"
    and "bk_id b' = tj_id j" and "bk_file_num b' = bk_file_num b" and "\<not> fs_faulty fs' (h_ino h)"
    and "h_pos h = length (fs_data fs' (h_ino h))"
  shows "job_write env b j fs = (Some e, j', fs') \<and> (\<exists>j'' fs''. job_write env b' j' fs' = (None, j'', fs'')
    \<and> fs_data fs'' (h_ino h) = fs_data fs' (h_ino h) @ block_payload env b')"
proof -
  let ?j = "j\<lparr>tj_file_num := bk_file_num b\<rparr>"
  have ct: "create_target env ?j f x y = (Some e, j', fs') \<Longrightarrow> j' = ?j" for f x y
    by (auto simp: create_target_def split: option.splits if_splits sum.splits prod.splits)
  have "j' = ?j \<and> usize_of_i32 (bk_file_num b) < length (tj_files j)"
    using assms(1,4,5,6) ct by (auto simp: open_for_block_def Let_def split: if_splits sum.splits prod.splits)
  with assms job_write_open [of b' j' p h fs' "block_payload env b'" env] show ?thesis
    by (simp add: overwrite_end job_write_def [of env b j fs])
qed

theorem failed_switch_misdirects_witness:
  "let env = \<lparr>en_zstd_compress = Some, en_zstd_decode = Some, en_digest_json = \<lambda>_. [], en_digest_parse = \<lambda>_. None,
         en_set_file_mtime = \<lambda>fs _ _. fs, en_short_read = \<lambda>_. 1, en_serialize = \<lambda>_ _ _ _. []\<rparr>;
       fs = \<lparr>fs_tree = [([''a.download''], Regular 0), ([''b.download''], Dir)], fs_data = \<lambda>_. [1], fs_mtime = \<lambda>_. 0, fs_meta = \<lambda>_. 0,
         fs_next = 1, fs_cwd = [], fs_now = 0, fs_denied = \<lambda>_. False, fs_faulty = \<lambda>_. False\<rparr>;
       e = \<lambda>n. \<lparr>fe_entry_type = FtFile, fe_name = n, fe_is_hidden = False, fe_size = 1, fe_modified_time = 0\<rparr>;
       j = (new_write 5 Generic [] (FilePath ''/'') 0 False False False)
             \<lparr>tj_files := [e ''a'', e ''b''], tj_data_stream := Some (FileStream \<lparr>h_ino = 0, h_pos = 1\<rparr>)\<rparr>;
       b = \<lparr>bk_id = 5, bk_file_num = 1, bk_data = [9], bk_compressed = False\<rparr>
   in \<exists>err j' fs' j'' fs''. job_write env b j fs = (Some err, j', fs') \<and> job_write env b j' fs' = (None, j'', fs'')
     \<and> file_at fs' ''/a'' = Some 0 \<and> fs_data fs'' 0 = [1, 9]"
proof -
  define env where "env = \<lparr>en_zstd_compress = Some, en_zstd_decode = Some, en_digest_json = \<lambda>_. [], en_digest_parse = \<lambda>_. None,
         en_set_file_mtime = \<lambda>fs _ _. fs, en_short_read = \<lambda>_. 1, en_serialize = \<lambda>_ _ _ _. []\<rparr>"
  define e where "e = (\<lambda>n. \<lparr>fe_entry_type = FtFile, fe_name = n, fe_is_hidden = False, fe_size = 1, fe_modified_time = 0\<rparr>)"
  define fs where "fs = \<lparr>fs_tree = [([''a.download''], Regular 0), ([''b.download''], Dir)], fs_data = \<lambda>_. [1 :: u8], fs_mtime = \<lambda>_. 0, fs_meta = \<lambda>_. 0,
         fs_next = 1, fs_cwd = [], fs_now = 0, fs_denied = \<lambda>_. False, fs_faulty = \<lambda>_. False\<rparr>"
  define j where "j = (new_write 5 Generic [] (FilePath ''/'') 0 False False False)
             \<lparr>tj_files := [e ''a'', e ''b''], tj_data_stream := Some (FileStream \<lparr>h_ino = 0, h_pos = 1\<rparr>)\<rparr>"
  define b where "b = \<lparr>bk_id = 5, bk_file_num = 1, bk_data = [9 :: u8], bk_compressed = False\<rparr>"
  obtain r j' fs' where o: "open_for_block env b j fs = (r, j', fs')" by (cases "open_for_block env b j fs")
  note defs = env_def e_def fs_def j_def b_def
  have 1: "fst (open_for_block env b j fs) = Some (Io IsADirectory)" unfolding defs by code_simp
  have 2: "tj_file_num (fst (snd (open_for_block env b j fs))) = 1" unfolding defs by code_simp
  have 3: "fs_data (snd (snd (open_for_block env b j fs))) 0 = [1]" unfolding defs by code_simp
  have 4: "\<not> fs_faulty (snd (snd (open_for_block env b j fs))) 0" unfolding defs by code_simp
  have 5: "file_at (snd (snd (open_for_block env b j fs))) ''/a'' = Some 0" unfolding defs by code_simp
  have j: "tj_data_source j = FilePath ''/''" "tj_data_stream j = Some (FileStream \<lparr>h_ino = 0, h_pos = 1\<rparr>)"
    "bk_id b = tj_id j" "tj_file_num j \<noteq> bk_file_num b" "block_payload env b = [9]" "bk_file_num b = 1"
    by (simp_all add: defs new_write_def default_job_def block_payload_def)
  have o': "open_for_block env b j fs = (Some (Io IsADirectory), j', fs')" "tj_file_num j' = bk_file_num b"
    using o 1 2 j(6) by simp_all
  from failed_switch_misdirects [OF j(1-3) o' j(4,3) refl, of] o 3 4 5 j(5)
  have "\<exists>err j' fs' j'' fs''. job_write env b j fs = (Some err, j', fs') \<and> job_write env b j' fs' = (None, j'', fs'')
     \<and> file_at fs' ''/a'' = Some 0 \<and> fs_data fs'' 0 = [1, 9]" by fastforce
  then show ?thesis
    unfolding env_def [symmetric] fs_def [symmetric] e_def [symmetric] Let_def j_def [symmetric] b_def [symmetric] .
qed

subsection \<open>Overwrite detection\<close>

text \<open>
  A read job with its driver and its peer: the driver ticks (the files may have changed in between)
  and the peer's confirmations arrive, in any order. The history records both.
\<close>

datatype ft_event = Sent ft_msg | Confirmed confirm_request

inductive session :: "ft_env \<Rightarrow> transfer_job \<Rightarrow> transfer_job list \<Rightarrow> peer \<Rightarrow> ft_event list \<Rightarrow> bool"
  for env :: ft_env and j0 :: transfer_job where
  start: "session env j0 [j0] s []"
| tick: "session env j0 js s h \<Longrightarrow> handle_read_jobs env fs js s = (r, js', s')
    \<Longrightarrow> session env j0 js' s' (h @ map Sent (drop (length (pe_sent s)) (pe_sent s')))"
| confirmed: "session env j0 js s h \<Longrightarrow> get_job (cr_id r) js = Some j \<Longrightarrow> confirm r j fs = Ret (j', fs')
    \<Longrightarrow> session env j0 (map (\<lambda>x. if tj_id x = cr_id r then j' else x) js) s (h @ [Confirmed r])"

definition accepts :: "confirm_request \<Rightarrow> bool" where
  "accepts r = (case cr_union r of Some (Skip b) \<Rightarrow> \<not> b | Some (OffsetBlk _) \<Rightarrow> True | None \<Rightarrow> False)"

definition consent :: "ft_event list \<Rightarrow> int \<Rightarrow> bool" where
  "consent h k \<longleftrightarrow> (\<exists>r. Confirmed r \<in> set h \<and> cr_file_num r = k \<and> accepts r)"

definition consented :: "ft_event list \<Rightarrow> bool" where
  "consented h \<longleftrightarrow> (\<forall>n b. n < length h \<and> h ! n = Sent (MsgBlock b) \<longrightarrow> consent (take n h) (bk_file_num b))"

lemma consent_append: "consent h k \<Longrightarrow> consent (h @ h') k"
  by (auto simp: consent_def)

lemma consented_append_quiet:
  assumes "consented h" and "\<forall>b. Sent (MsgBlock b) \<notin> set h'"
  shows "consented (h @ h')"
  unfolding consented_def
proof (intro allI impI)
  fix n b
  assume n: "n < length (h @ h') \<and> (h @ h') ! n = Sent (MsgBlock b)"
  then have "n < length h" using assms(2) by (auto simp: nth_append split: if_splits) (metis add_diff_inverse_nat nat_add_left_cancel_less nth_mem)
  with n assms(1) show "consent (take n (h @ h')) (bk_file_num b)" by (auto simp: consented_def nth_append)
qed

lemma consented_append_block:
  assumes "consented h" and "consent h (bk_file_num b)"
  shows "consented (h @ [Sent (MsgBlock b)])"
  using assms by (auto simp: consented_def nth_append less_Suc_eq)

definition watched :: "transfer_job \<Rightarrow> ft_event list \<Rightarrow> bool" where
  "watched j h \<longleftrightarrow> tj_type j = Generic \<and> tj_enable_overwrite_detection j
     \<and> i32_MIN \<le> tj_file_num j \<and> tj_file_num j \<le> i32_MAX \<and> (tj_file_confirmed j \<longrightarrow> consent h (tj_file_num j))"

lemma wrap_i32_bounds: "i32_MIN \<le> wrap_i32 x \<and> wrap_i32 x \<le> i32_MAX"
  by (simp add: wrap_i32_def i32_MIN_def i32_MAX_def)

lemma wrap_usize: "i32_MIN \<le> k \<Longrightarrow> k \<le> i32_MAX \<Longrightarrow> wrap_i32 (int (usize_of_i32 k)) = k"
  by (simp add: usize_of_i32_def wrap_i32_def i32_MIN_def i32_MAX_def mod_simps)

lemma next_file_watched: "watched j h \<Longrightarrow> watched (next_file j) h"
  by (simp add: watched_def next_file_def wrap_i32_bounds)

lemma watched_stream [simp]:
  "watched (j\<lparr>tj_data_stream := x\<rparr>) h = watched j h"
  "watched (j\<lparr>tj_file_is_waiting := w\<rparr>) h = watched j h"
  "watched (j\<lparr>tj_finished_size := f\<rparr>) h = watched j h"
  "watched (j\<lparr>tj_transferred := t\<rparr>) h = watched j h"
  "watched (j\<lparr>tj_data_source := d\<rparr>) h = watched j h"
  by (simp_all add: watched_def)

lemma watched_unconfirmed: "watched j h \<Longrightarrow> watched (j\<lparr>tj_file_confirmed := False\<rparr>) h"
  by (simp add: watched_def)

lemma open_data_stream_watched: "watched j h \<Longrightarrow> watched (snd (open_data_stream fs j)) h"
  by (auto simp: open_data_stream_def next_file_watched watched_unconfirmed Let_def split: data_source.split sum.split)

lemma peer_send_cases: "peer_send m s = Inr s' \<Longrightarrow> s' = s\<lparr>pe_sent := pe_sent s @ [m]\<rparr>"
  by (simp add: peer_send_def split: if_splits)

definition quiet :: "peer \<Rightarrow> peer \<Rightarrow> bool" where
  "quiet s s' \<longleftrightarrow> (\<exists>ms. pe_sent s' = pe_sent s @ ms \<and> (\<forall>b. MsgBlock b \<notin> set ms))"

lemma quiet_refl [simp]: "quiet s s"
  by (simp add: quiet_def)

lemma quiet_trans: "quiet s t \<Longrightarrow> quiet t u \<Longrightarrow> quiet s u"
  by (auto simp: quiet_def)

lemma quiet_send: "peer_send m s = Inr s' \<Longrightarrow> (\<And>b. m \<noteq> MsgBlock b) \<Longrightarrow> quiet s s'"
  by (drule peer_send_cases) (auto simp: quiet_def)

lemma init_data_stream_watched:
  assumes "init_data_stream fs j s = (e, j', s')" and "watched j h"
  shows "watched j' h \<and> quiet s s'"
proof -
  obtain r j1 where o: "open_data_stream fs j = (r, j1)" by (cases "open_data_stream fs j")
  with open_data_stream_watched [OF assms(2), of fs] have "watched j1 h" by simp
  with assms(1) o show ?thesis
    by (auto simp: init_data_stream_def send_current_digest_def dest!: quiet_send
        split: sum.splits bool.splits if_splits prod.splits)
qed

lemma job_read_watched:
  assumes "job_read env fs j = (r, j')" and "watched j h"
  shows "watched j' h \<and> (\<forall>b. r = Inr (Some b) \<longrightarrow> consent h (bk_file_num b))"
  using assms next_file_watched [OF assms(2)] wrap_usize [of "tj_file_num j"]
  by (auto simp: job_read_def read_block_def Let_def watched_def
      split: if_splits data_source.splits option.splits sum.splits prod.splits)

lemma step_job_watched:
  assumes "step_job env fs j s = (e, j', s', l, fin)" and "watched j h"
  shows "watched j' h \<and> (quiet s s' \<or> (\<exists>b. pe_sent s' = pe_sent s @ [MsgBlock b] \<and> consent h (bk_file_num b)))"
proof -
  obtain r j1 where rd: "job_read env fs j = (r, j1)" by (cases "job_read env fs j")
  note w = job_read_watched [OF rd assms(2)]
  consider (err) x where "r = Inl x" | (block) b where "r = Inr (Some b)" | (none) "r = Inr None"
    by (cases r) (auto simp: not_None_eq [symmetric])
  then show ?thesis
  proof cases
    case err
    with rd assms(1) w show ?thesis by (auto simp: step_job_def dest: quiet_send split: sum.splits)
  next
    case block
    with rd assms(1) w show ?thesis by (auto simp: step_job_def dest!: peer_send_cases split: sum.splits)
  next
    case none
    with rd assms(1) w show ?thesis
      by (auto simp: step_job_def dest: quiet_send split: sum.splits option.splits if_splits)
  qed
qed

lemma handle_single:
  assumes "handle_read_jobs env fs [j] s = (r, js', s')" and "watched j h"
  shows "length js' \<le> 1 \<and> (\<forall>x \<in> set js'. watched x h)
    \<and> (\<exists>ms. pe_sent s' = pe_sent s @ ms \<and> (\<forall>b. MsgBlock b \<notin> set (butlast ms))
         \<and> (\<forall>b. MsgBlock b \<in> set ms \<longrightarrow> consent h (bk_file_num b)))"
proof -
  obtain e1 j1 s1 where i: "init_jobs fs [j] s = (e1, [j1], s1)" "watched j1 h" "quiet s s1"
  proof (cases "tj_is_last_job j")
    case False
    obtain e j1 s1 where d: "init_data_stream fs j s = (e, j1, s1)" by (cases "init_data_stream fs j s")
    note w = init_data_stream_watched [OF d assms(2)]
    show ?thesis
    proof (cases e)
      case None
      with d w False that show ?thesis by simp
    next
      case (Some err)
      show ?thesis
      proof (cases "peer_send (MsgError (tj_id j1) err (tj_file_num j1)) s1")
        case (Inl x)
        with d w False Some that show ?thesis by simp
      next
        case (Inr s2)
        then have "quiet s s2" using w quiet_send quiet_trans by blast
        with Inr d w False Some that show ?thesis by simp
      qed
    qed
  qed (use assms(2) that in simp)
  obtain ms1 where ms1: "pe_sent s1 = pe_sent s @ ms1" "\<forall>b. MsgBlock b \<notin> set ms1" using i(3) by (auto simp: quiet_def)
  show ?thesis
  proof (cases "e1 = None \<and> \<not> tj_is_last_job j1")
    case False
    then have "js' = [j1] \<and> s' = s1"
      using assms(1) i(1) by (cases e1) (auto simp: handle_read_jobs_def)
    with i(2) ms1 show ?thesis by (auto dest: in_set_butlastD)
  next
    case True
    obtain e2 j2 s2 l fin where st: "step_job env fs j1 s1 = (e2, j2, s2, l, fin)" by (cases "step_job env fs j1 s1")
    note w2 = step_job_watched [OF st i(2)]
    have "s' = s2 \<and> set js' \<subseteq> {j2} \<and> length js' \<le> 1"
      using assms(1) i(1) True st by (cases e2) (auto simp: handle_read_jobs_def split: if_splits)
    moreover have "\<exists>ms. pe_sent s2 = pe_sent s @ ms \<and> (\<forall>b. MsgBlock b \<notin> set (butlast ms))
         \<and> (\<forall>b. MsgBlock b \<in> set ms \<longrightarrow> consent h (bk_file_num b))"
      using w2
    proof (elim conjE disjE exE)
      fix b assume b: "pe_sent s2 = pe_sent s1 @ [MsgBlock b]" "consent h (bk_file_num b)"
      with ms1 show ?thesis by (intro exI [of _ "ms1 @ [MsgBlock b]"]) auto
    next
      assume "quiet s1 s2"
      then obtain ms2 where "pe_sent s2 = pe_sent s1 @ ms2" "\<forall>b. MsgBlock b \<notin> set ms2" by (auto simp: quiet_def)
      with ms1 show ?thesis by (intro exI [of _ "ms1 @ ms2"]) (auto dest: in_set_butlastD)
    qed
    ultimately show ?thesis using w2 by blast
  qed
qed

lemma confirm_watched:
  assumes "confirm r j fs = Ret (j', fs')" and "watched j h"
  shows "watched j' (h @ [Confirmed r])"
proof -
  have off: "watched k (h @ [Confirmed r]) \<Longrightarrow> watched (stream_at hd off k) (h @ [Confirmed r])" for k hd off
    by (simp add: stream_at_def)
  have so: "set_stream_offset n off k f = Ret (k', f') \<Longrightarrow> watched k (h @ [Confirmed r]) \<Longrightarrow> watched k' (h @ [Confirmed r])" for n off k f k' f'
    by (auto simp: set_stream_offset_def index_at_def off split: data_source.splits if_splits option.splits sum.splits)
  have w: "watched j (h @ [Confirmed r])" using assms(2) by (auto simp: watched_def consent_append)
  have c: "watched (set_file_confirmed True j) (h @ [Confirmed r])" if "accepts r" "cr_file_num r = tj_file_num j"
    using assms(2) that by (auto simp: watched_def set_file_confirmed_def consent_def)
  have sk: "watched (set_file_skipped j) (h @ [Confirmed r])"
    using assms(2) by (simp add: watched_def set_file_skipped_def set_file_confirmed_def set_file_is_waiting_def wrap_i32_bounds)
  show ?thesis
    using assms(1) w c sk so
    by (auto simp: confirm_def accepts_def Let_def split: if_splits option.splits confirm_union.splits)
qed

lemma session_inv:
  assumes "session env j0 js s h" and "watched j0 []"
  shows "length js \<le> 1 \<and> (\<forall>x \<in> set js. watched x h) \<and> consented h"
  using assms
proof (induction rule: session.induct)
  case (start s)
  then show ?case by (simp add: consented_def)
next
  case (tick js s h fs r js' s')
  then have inv: "length js \<le> 1" "\<forall>x \<in> set js. watched x h" "consented h" by blast+
  show ?case
  proof (cases js)
    case Nil
    then have "js' = [] \<and> s' = s" using tick.hyps(2) by (auto simp: handle_read_jobs_def)
    with inv show ?thesis by simp
  next
    case (Cons j rest)
    then have js: "js = [j]" "watched j h" using inv by auto
    from handle_single [OF tick.hyps(2) [unfolded js(1)] js(2)] obtain ms where
      k: "length js' \<le> 1" "\<forall>x \<in> set js'. watched x h" "pe_sent s' = pe_sent s @ ms"
        "\<forall>b. MsgBlock b \<notin> set (butlast ms)" "\<forall>b. MsgBlock b \<in> set ms \<longrightarrow> consent h (bk_file_num b)" by blast
    have "consented (h @ map Sent (butlast ms))" using inv(3) k(4) by (intro consented_append_quiet) auto
    then have "consented (h @ map Sent ms)"
    proof (cases ms rule: rev_cases)
      case (snoc ys m)
      assume c: "consented (h @ map Sent (butlast ms))"
      show ?thesis
      proof (cases "\<exists>b. m = MsgBlock b")
        case True
        with c snoc k(5) consented_append_block [of "h @ map Sent ys"] consent_append show ?thesis by force
      next
        case False
        with c snoc consented_append_quiet [of "h @ map Sent ys" "[Sent m]"] show ?thesis by auto
      qed
    qed simp
    moreover have "\<forall>x \<in> set js'. watched x (h @ map Sent ms)" using k(2) by (auto simp: watched_def consent_append)
    ultimately show ?thesis using k(1,3) by simp
  qed
next
  case (confirmed js s h r j fs j' fs')
  then have inv: "length js \<le> 1" "\<forall>x \<in> set js. watched x h" "consented h" by blast+
  have "j \<in> set js" using confirmed.hyps(2) by (auto simp: get_job_def find_Some_iff)
  then have "watched j' (h @ [Confirmed r])" using confirm_watched [OF confirmed.hyps(3)] inv(2) by blast
  moreover have "watched x (h @ [Confirmed r])" if "x \<in> set js" for x
    using inv(2) that by (auto simp: watched_def consent_append)
  moreover have "consented (h @ [Confirmed r])" using inv(3) by (rule consented_append_quiet) simp
  ultimately show ?case using inv(1) by auto
qed

text \<open>
  C14. No file is sent over an existing one without consent. In a session of a generic job with
  overwrite detection, whatever the order of ticks and confirmations and whatever happens to the
  files in between, every data block sent for a file comes after a confirmation for that file number
  that accepts it (not a skip).
\<close>

theorem blocks_need_consent:
  assumes "session env j0 js s h" and "tj_type j0 = Generic" and "tj_enable_overwrite_detection j0"
    and "\<not> tj_file_confirmed j0" and "i32_MIN \<le> tj_file_num j0" and "tj_file_num j0 \<le> i32_MAX"
    and "n < length h" and "h ! n = Sent (MsgBlock b)"
  shows "\<exists>m r. m < n \<and> h ! m = Confirmed r \<and> cr_file_num r = bk_file_num b \<and> accepts r"
proof -
  have "watched j0 []" using assms by (simp add: watched_def)
  from session_inv [OF assms(1) this] assms(7,8) have "consent (take n h) (bk_file_num b)" by (simp add: consented_def)
  then obtain r where "Confirmed r \<in> set (take n h)" "cr_file_num r = bk_file_num b" "accepts r" by (auto simp: consent_def)
  then show ?thesis using assms(7) by (auto simp: in_set_conv_nth)
qed

theorem blocks_need_consent_witness:
  "\<exists>env j0 js s h b. session env j0 js s h \<and> tj_enable_overwrite_detection j0 \<and> h ! 2 = Sent (MsgBlock b)
     \<and> (\<exists>m r. m < 2 \<and> h ! m = Confirmed r \<and> accepts r)"
proof -
  define env where "env = \<lparr>en_zstd_compress = Some, en_zstd_decode = Some, en_digest_json = \<lambda>_. [], en_digest_parse = \<lambda>_. None,
         en_set_file_mtime = \<lambda>fs _ _. fs, en_short_read = \<lambda>_. 1, en_serialize = \<lambda>_ _ _ _. []\<rparr>"
  define fs where "fs = \<lparr>fs_tree = [([''a''], Regular 0)], fs_data = \<lambda>_. ([] :: bytes), fs_mtime = \<lambda>_. 0, fs_meta = \<lambda>_. 0,
         fs_next = 1, fs_cwd = [], fs_now = 0, fs_denied = \<lambda>_. False, fs_faulty = \<lambda>_. False\<rparr>"
  define e where "e = \<lparr>fe_entry_type = FtFile, fe_name = ''a'', fe_is_hidden = False, fe_size = 0, fe_modified_time = 0\<rparr>"
  define j0 where "j0 = (default_job 5 Generic [] (FilePath ''/'') 0 False False True)\<lparr>tj_files := [e]\<rparr>"
  define s0 where "s0 = \<lparr>pe_sent = [], pe_fails = \<lambda>_. False\<rparr>"
  let ?h = "\<lparr>h_ino = 0, h_pos = 0\<rparr>"
  let ?d = "MsgDigest \<lparr>td_id = 5, td_file_num = 0, td_last_modified = 0, td_file_size = 0, td_is_identical = False,
      td_transferred_size = 0, td_is_resume = False\<rparr>"
  let ?j1 = "j0\<lparr>tj_data_stream := Some (FileStream ?h), tj_file_is_waiting := True\<rparr>"
  let ?j2 = "?j1\<lparr>tj_file_confirmed := True\<rparr>"
  let ?r = "\<lparr>cr_id = 5, cr_file_num = 0, cr_union = Some (OffsetBlk 0)\<rparr>"
  have op: "file_open fs (job_join ''/'' ''a'') = Inr ?h" unfolding fs_def by code_simp
  have us: "usize_of_i32 0 = 0" by (simp add: usize_of_i32_def)
  have 1: "handle_read_jobs env fs [j0] s0 = (Inr [], [?j1], s0\<lparr>pe_sent := [?d]\<rparr>)"
    using op by (simp add: handle_read_jobs_def init_data_stream_def open_data_stream_def j0_def default_job_def e_def us
        needs_digest_def send_current_digest_def get_current_digest_def fs_def peer_send_def s0_def
        step_job_def job_read_def job_completed_def)
  have rl: "read_loop env fs BUF_SIZE [] (FileStream ?h) = Inr ([], FileStream ?h)"
    using read_loop_file [of fs ?h "[]" BUF_SIZE "[]" env] by (simp add: fs_def)
  have 2: "\<exists>q js. handle_read_jobs env fs [?j2] (s0\<lparr>pe_sent := [?d]\<rparr>) = (q, js, s0\<lparr>pe_sent := [?d, MsgBlock (end_block 5 0)]\<rparr>)"
    using rl by (simp add: handle_read_jobs_def init_data_stream_def open_data_stream_def j0_def default_job_def e_def us
        needs_digest_def peer_send_def s0_def step_job_def job_read_def read_block_def end_block_def wrap_i32_def)
  then obtain q js where 2: "handle_read_jobs env fs [?j2] (s0\<lparr>pe_sent := [?d]\<rparr>) = (q, js, s0\<lparr>pe_sent := [?d, MsgBlock (end_block 5 0)]\<rparr>)" by blast
  have a: "session env j0 [?j1] (s0\<lparr>pe_sent := [?d]\<rparr>) [Sent ?d]"
    using session.tick [OF session.start 1] by (simp add: s0_def)
  have c: "confirm ?r ?j1 fs = Ret (?j2, fs)" by (simp add: confirm_def set_file_confirmed_def j0_def default_job_def)
  have g: "get_job (cr_id ?r) [?j1] = Some ?j1" by (simp add: get_job_def j0_def default_job_def)
  have b: "session env j0 [?j2] (s0\<lparr>pe_sent := [?d]\<rparr>) [Sent ?d, Confirmed ?r]"
    using session.confirmed [OF a g c] by (simp add: j0_def default_job_def)
  have h: "session env j0 js (s0\<lparr>pe_sent := [?d, MsgBlock (end_block 5 0)]\<rparr>) [Sent ?d, Confirmed ?r, Sent (MsgBlock (end_block 5 0))]"
    using session.tick [OF b 2] by simp
  have "\<exists>m r. m < 2 \<and> [Sent ?d, Confirmed ?r, Sent (MsgBlock (end_block 5 0))] ! m = Confirmed r \<and> cr_file_num r = bk_file_num (end_block 5 0) \<and> accepts r"
    by (rule blocks_need_consent [OF h]) (simp_all add: j0_def default_job_def i32_MIN_def i32_MAX_def)
  with h show ?thesis
    by (intro exI [of _ env] exI [of _ j0] exI [of _ js] exI [of _ "s0\<lparr>pe_sent := [?d, MsgBlock (end_block 5 0)]\<rparr>"]
        exI [of _ "[Sent ?d, Confirmed ?r, Sent (MsgBlock (end_block 5 0))]"] exI [of _ "end_block 5 0"])
      (auto simp: j0_def default_job_def)
qed

text \<open>
  When a confirmation crashes the job's task. \<^verbatim>\<open>confirm\<close> panics exactly when it names the job's current
  file number with a positive offset and that number is not one of the job's files (for example
  once the last file has been read, or for an empty directory): \<^verbatim>\<open>set_stream_offset\<close> indexes the file
  list without the range check the other operations make.
\<close>

theorem confirm_panics_iff:
  "confirm r j fs = Panic \<longleftrightarrow>
     cr_file_num r = tj_file_num j \<and> (\<exists>off. cr_union r = Some (OffsetBlk off) \<and> 0 < off)
     \<and> (\<exists>p. tj_data_source j = FilePath p) \<and> length (tj_files j) \<le> usize_of_i32 (tj_file_num j)"
  by (cases "cr_union r"; cases "tj_data_source j")
    (auto simp: confirm_def set_stream_offset_def index_at_def set_file_confirmed_def Let_def
      split: confirm_union.splits option.splits sum.splits)

end
