(* ===== verification/Directories.thy ===== *)
theory Directories
  imports File_Transfer
begin

text \<open>
  Directory listings of the file manager (\<^verbatim>\<open>read_dir\<close>, the recursive listings and
  \<^verbatim>\<open>remove_all_empty_dir\<close> of \<^verbatim>\<open>libs/hbb_common/src/fs.rs\<close>, Unix build). The recursions descend real
  directories only; their fuel is one more than the longest path of the file system, and more fuel
  changes nothing.
\<close>

record file_directory =
  di_id :: int
  di_path :: string
  di_entries :: "file_entry list"

text \<open>\<^verbatim>\<open>duration_since(UNIX_EPOCH).map(as_secs).unwrap_or(0)\<close>, as a \<^verbatim>\<open>u64\<close>.\<close>

definition epoch_secs :: "int \<Rightarrow> nat" where
  "epoch_secs t = (if t < 0 then 0 else nat (t div 10 ^ 9))"

definition fs_is_dir :: "fsys \<Rightarrow> string \<Rightarrow> bool" where
  "fs_is_dir fs p \<longleftrightarrow> fs_lookup fs p True = Inr Dir"

definition dir_entry :: "fsys \<Rightarrow> string \<Rightarrow> bool \<Rightarrow> string \<Rightarrow> file_entry option" where
  "dir_entry fs path include_hidden name =
     (let p = path_join path name in
      if name = [] then None
      else case resolve_path fs p False of
        Inl _ \<Rightarrow> None
      | Inr k \<Rightarrow>
          (case node_at fs k of
             None \<Rightarrow> None
           | Some nd \<Rightarrow>
               let is_hidden = (case name of [] \<Rightarrow> False | c # _ \<Rightarrow> c = CHR ''.'');
                   link = (case nd of Symlink _ \<Rightarrow> True | _ \<Rightarrow> False)
               in if is_hidden \<and> \<not> include_hidden then None
                  else Some \<lparr>
                    fe_entry_type =
                      (if fs_is_dir fs p then (if link then FtDirLink else FtDir)
                       else if link then FtFileLink else FtFile),
                    fe_name = name,
                    fe_is_hidden = is_hidden,
                    fe_size = (case nd of Regular i \<Rightarrow> length (fs_data fs i) | _ \<Rightarrow> 0),
                    fe_modified_time = epoch_secs (case nd of Regular i \<Rightarrow> fs_mtime fs i | _ \<Rightarrow> fs_meta fs k)\<rparr>))"

definition read_dir :: "fsys \<Rightarrow> string \<Rightarrow> bool \<Rightarrow> file_directory ft_result" where
  "read_dir fs path include_hidden =
     (case resolve_path fs path True of
        Inl e \<Rightarrow> Inl (Io e)
      | Inr k \<Rightarrow>
          if node_at fs k = Some Dir
          then Inr \<lparr>di_id = 0, di_path = path,
                 di_entries = List.map_filter (dir_entry fs path include_hidden) (child_names fs k)\<rparr>
          else Inl (Io (if node_at fs k = None then NotFound else NotADirectory)))"

text \<open>\<^verbatim>\<open>metadata\<close> of a path that denotes a file: size and modification time.\<close>

definition file_meta :: "fsys \<Rightarrow> string \<Rightarrow> nat \<times> nat" where
  "file_meta fs path =
     (case file_at fs path of Some i \<Rightarrow> (length (fs_data fs i), epoch_secs (fs_mtime fs i)) | None \<Rightarrow> (0, 0))"

primrec read_dir_recursive :: "nat \<Rightarrow> fsys \<Rightarrow> string \<Rightarrow> string \<Rightarrow> bool \<Rightarrow> file_entry list ft_result" where
  "read_dir_recursive 0 fs path pre hidden = Inl (Bail ''out of fuel'')"
| "read_dir_recursive (Suc n) fs path pre hidden =
     (if fs_is_dir fs path then
        (case read_dir fs path hidden of
           Inl e \<Rightarrow> Inl e
         | Inr fd \<Rightarrow>
             Inr (concat (map (\<lambda>entry. case fe_entry_type entry of
                FtFile \<Rightarrow> [entry\<lparr>fe_name := path_join pre (fe_name entry)\<rparr>]
              | FtDir \<Rightarrow> (case read_dir_recursive n fs (path_join path (fe_name entry)) (path_join pre (fe_name entry)) hidden of
                            Inr l \<Rightarrow> l | Inl _ \<Rightarrow> [])
              | _ \<Rightarrow> []) (di_entries fd))))
      else if fs_is_file fs path then
        Inr [\<lparr>fe_entry_type = FtFile, fe_name = [], fe_is_hidden = False, fe_size = fst (file_meta fs path),
              fe_modified_time = snd (file_meta fs path)\<rparr>]
      else Inl (Bail ''Not exists''))"

definition depth_bound :: "fsys \<Rightarrow> nat" where
  "depth_bound fs = Suc (fold max (map (\<lambda>e. length (fst e)) (fs_tree fs)) 0)"

definition get_recursive_files :: "fsys \<Rightarrow> string \<Rightarrow> bool \<Rightarrow> file_entry list ft_result" where
  "get_recursive_files fs path hidden = read_dir_recursive (depth_bound fs) fs path [] hidden"

primrec read_empty_dirs_recursive :: "nat \<Rightarrow> fsys \<Rightarrow> string \<Rightarrow> string \<Rightarrow> bool \<Rightarrow> file_directory list ft_result" where
  "read_empty_dirs_recursive 0 fs path pre hidden = Inl (Bail ''out of fuel'')"
| "read_empty_dirs_recursive (Suc n) fs path pre hidden =
     (if fs_is_dir fs path then
        (case read_dir fs path hidden of
           Inl e \<Rightarrow> Inl e
         | Inr fd \<Rightarrow>
             if di_entries fd = [] then Inr [fd]
             else Inr (concat (map (\<lambda>entry. case fe_entry_type entry of
                FtDir \<Rightarrow> (case read_empty_dirs_recursive n fs (path_join path (fe_name entry)) (path_join pre (fe_name entry)) hidden of
                            Inr l \<Rightarrow> l | Inl _ \<Rightarrow> [])
              | _ \<Rightarrow> []) (di_entries fd))))
      else if fs_is_file fs path then Inr []
      else Inl (Bail ''Not exists''))"

definition get_empty_dirs_recursive :: "fsys \<Rightarrow> string \<Rightarrow> bool \<Rightarrow> file_directory list ft_result" where
  "get_empty_dirs_recursive fs path hidden = read_empty_dirs_recursive (depth_bound fs) fs path [] hidden"

definition try_remove_dir :: "fsys \<Rightarrow> string \<Rightarrow> fsys" where
  "try_remove_dir fs p = (case fs_remove_dir fs p of Inl _ \<Rightarrow> fs | Inr fs' \<Rightarrow> fs')"

primrec remove_all_empty_dir :: "nat \<Rightarrow> fsys \<Rightarrow> string \<Rightarrow> ft_error option \<times> fsys" where
  "remove_all_empty_dir 0 fs path = (Some (Bail ''out of fuel''), fs)"
| "remove_all_empty_dir (Suc n) fs path =
     (case read_dir fs path True of
        Inl e \<Rightarrow> (Some e, fs)
      | Inr fd \<Rightarrow>
          (None, try_remove_dir
             (fold (\<lambda>entry fs. case fe_entry_type entry of
                 FtDir \<Rightarrow> snd (remove_all_empty_dir n fs (path_join path (fe_name entry)))
               | FtDirLink \<Rightarrow> try_remove fs (path_join path (fe_name entry))
               | FtFileLink \<Rightarrow> try_remove fs (path_join path (fe_name entry))
               | _ \<Rightarrow> fs) (di_entries fd) fs) path))"

definition is_file_exists :: "fsys \<Rightarrow> string \<Rightarrow> bool" where
  "is_file_exists fs p = fs_exists fs p"

subsection \<open>Well-formed trees\<close>

definition plain_name :: "string \<Rightarrow> bool" where
  "plain_name c \<longleftrightarrow> c \<noteq> [] \<and> CHR ''/'' \<notin> set c \<and> c \<noteq> ''.'' \<and> c \<noteq> ''..''"

text \<open>Every entry has a plain path and a directory above it, and nothing is off limits.\<close>

definition fs_ok :: "fsys \<Rightarrow> bool" where
  "fs_ok fs \<longleftrightarrow> hm_wf (fs_tree fs) \<and> (\<forall>k. \<not> fs_denied fs k)
     \<and> (\<forall>e \<in> set (fs_tree fs). fst e \<noteq> [] \<and> list_all plain_name (fst e) \<and> node_at fs (butlast (fst e)) = Some Dir)"

lemma plain_segments: "plain_name c \<Longrightarrow> segments c = [c] \<and> \<not> is_absolute c"
  by (auto simp: plain_name_def segments_def split_on_id is_absolute_def split: list.split)

lemma fs_ok_node:
  assumes "fs_ok fs" and "node_at fs k = Some nd" and "k \<noteq> []"
  shows "list_all plain_name k \<and> node_at fs (butlast k) = Some Dir"
proof -
  have "(k, nd) \<in> set (fs_tree fs)" using assms(2,3) by (auto simp: node_at_def dest: map_of_SomeD)
  with assms(1) show ?thesis unfolding fs_ok_def by (metis fst_conv)
qed

lemma prefix_dir:
  assumes "fs_ok fs" and "node_at fs (a @ b) = Some nd" and "b \<noteq> []"
  shows "node_at fs a = Some Dir"
  using assms(2,3)
proof (induction b arbitrary: nd rule: rev_induct)
  case (snoc c b)
  have "node_at fs (a @ b) = Some Dir" using fs_ok_node [OF assms(1) snoc.prems(1)] by (simp add: butlast_append)
  with snoc.IH show ?case by (cases b) auto
qed simp

lemma child_names_node:
  assumes "fs_ok fs"
  shows "c \<in> set (child_names fs k) \<longleftrightarrow> (\<exists>nd. node_at fs (k @ [c]) = Some nd)"
proof
  assume "c \<in> set (child_names fs k)"
  then obtain e where e: "e \<in> set (fs_tree fs)" "fst e \<noteq> []" "butlast (fst e) = k" "c = last (fst e)"
    by (auto simp: child_names_def)
  then have "fst e = k @ [c]" by (metis append_butlast_last_id)
  moreover have "hm_get (fs_tree fs) (fst e) = Some (snd e)" using e(1) assms by (simp add: fs_ok_def)
  ultimately show "\<exists>nd. node_at fs (k @ [c]) = Some nd" by (simp add: node_at_def)
next
  assume "\<exists>nd. node_at fs (k @ [c]) = Some nd"
  then obtain nd where "(k @ [c], nd) \<in> set (fs_tree fs)" by (auto simp: node_at_def dest: map_of_SomeD)
  then show "c \<in> set (child_names fs k)" by (force simp: child_names_def)
qed

lemma child_resolve:
  assumes "fs_ok fs" and "resolve_path fs p True = Inr D" and "node_at fs D = Some Dir" and "plain_name c"
    and "f \<longrightarrow> (\<forall>t. node_at fs (D @ [c]) \<noteq> Some (Symlink t))"
  shows "resolve_path fs (path_join p c) f = Inr (D @ [c])"
proof -
  have p: "p \<noteq> []" using assms(2) by (auto simp: resolve_path_def)
  note c = plain_segments [OF assms(4)]
  let ?s = "if is_absolute p then [] else fs_cwd fs"
  obtain m where m: "\<And>ys f. ys \<noteq> [] \<Longrightarrow> resolve MAXSYMLINKS fs ?s (segments p @ ys) f = resolve m fs D ys f"
    using resolve_append [OF _ assms(3)] assms(2) resolve_path_inner [OF p, of fs True D] by blast
  have "resolve m fs D [c] f = Inr (D @ [c])"
    using assms(4,5) by (auto simp: plain_name_def split: option.split fnode.split)
  moreover have "path_join p c \<noteq> []" using p by (simp add: path_join_def c)
  ultimately show ?thesis
    using m [of "[c]" f] assms(1) c
    by (simp add: resolve_path_inner segments_join is_absolute_join fs_ok_def)
qed

subsection \<open>The recursive listing\<close>

definition visible :: "bool \<Rightarrow> string list \<Rightarrow> bool" where
  "visible hidden ns \<longleftrightarrow> hidden \<or> list_all (\<lambda>c. c = [] \<or> hd c \<noteq> CHR ''.'') ns"

lemma dir_entry_node:
  assumes "fs_ok fs" and "resolve_path fs p True = Inr D" and "node_at fs D = Some Dir"
    and "node_at fs (D @ [c]) = Some nd"
  shows "dir_entry fs p hidden c = (if visible hidden [c] then
      Some \<lparr>fe_entry_type = (case nd of Dir \<Rightarrow> FtDir | Regular _ \<Rightarrow> FtFile
              | Symlink _ \<Rightarrow> if fs_is_dir fs (path_join p c) then FtDirLink else FtFileLink),
            fe_name = c, fe_is_hidden = (hd c = CHR ''.''),
            fe_size = (case nd of Regular i \<Rightarrow> length (fs_data fs i) | _ \<Rightarrow> 0),
            fe_modified_time = epoch_secs (case nd of Regular i \<Rightarrow> fs_mtime fs i | _ \<Rightarrow> fs_meta fs (D @ [c]))\<rparr>
      else None)"
proof -
  have pc: "plain_name c" using fs_ok_node [OF assms(1,4)] by simp
  then obtain x xs where c: "c = x # xs" by (cases c) (auto simp: plain_name_def)
  have r: "resolve_path fs (path_join p c) False = Inr (D @ [c])"
    using child_resolve [OF assms(1-3) pc] by simp
  have d: "fs_is_dir fs (path_join p c) = (nd = Dir)" if "\<forall>t. nd \<noteq> Symlink t"
  proof -
    have "resolve_path fs (path_join p c) True = Inr (D @ [c])"
      using child_resolve [OF assms(1-3) pc, of True] assms(4) that by simp
    then show ?thesis using assms(4) by (simp add: fs_is_dir_def fs_lookup_def)
  qed
  show ?thesis
    using r d assms(4) by (cases nd) (auto simp: dir_entry_def c visible_def Let_def)
qed

lemma dir_entry_some:
  assumes "fs_ok fs" and "resolve_path fs p True = Inr D" and "node_at fs D = Some Dir"
    and "node_at fs (D @ [c]) = Some nd"
  shows "dir_entry fs p hidden c \<noteq> None \<longleftrightarrow> visible hidden [c]"
  unfolding dir_entry_node [OF assms] by simp

lemma fold_max_ge: "x \<in> set xs \<or> x \<le> a \<Longrightarrow> (x :: nat) \<le> fold max xs a"
proof (induction xs arbitrary: a)
  case (Cons y ys)
  then have "x \<in> set ys \<or> x \<le> max y a" by (auto simp: le_max_iff_disj)
  then show ?case using Cons.IH by simp
qed simp

lemma node_depth:
  assumes "node_at fs k = Some nd"
  shows "length k < depth_bound fs"
proof (cases "k = []")
  case False
  then have "(k, nd) \<in> set (fs_tree fs)" using assms by (auto simp: node_at_def dest: map_of_SomeD)
  then have "length k \<in> set (map (\<lambda>e. length (fst e)) (fs_tree fs))" by force
  then show ?thesis unfolding depth_bound_def using fold_max_ge less_Suc_eq_le by blast
qed (simp add: depth_bound_def)

text \<open>What is below a directory: relative names and sizes of the regular files that are visible.\<close>

definition files_below :: "fsys \<Rightarrow> string list \<Rightarrow> string \<Rightarrow> bool \<Rightarrow> (string \<times> nat) set" where
  "files_below fs D pre hidden =
     {(foldl path_join pre ns, length (fs_data fs i)) | ns i.
        ns \<noteq> [] \<and> node_at fs (D @ ns) = Some (Regular i) \<and> visible hidden ns}"

lemma files_below_step:
  assumes "fs_ok fs"
  shows "files_below fs D pre hidden =
    (\<Union>c \<in> {c. visible hidden [c] \<and> node_at fs (D @ [c]) \<noteq> None}.
       case the (node_at fs (D @ [c])) of
         Dir \<Rightarrow> files_below fs (D @ [c]) (path_join pre c) hidden
       | Regular i \<Rightarrow> {(path_join pre c, length (fs_data fs i))}
       | Symlink _ \<Rightarrow> {})" (is "_ = ?R")
proof (intro set_eqI iffI)
  fix x
  assume "x \<in> files_below fs D pre hidden"
  then obtain c ns i where x: "x = (foldl path_join pre (c # ns), length (fs_data fs i))"
    "node_at fs (D @ c # ns) = Some (Regular i)" "visible hidden (c # ns)"
    unfolding files_below_def by (auto simp: neq_Nil_conv)
  show "x \<in> ?R"
  proof (cases "ns = []")
    case True
    with x show ?thesis by (intro UN_I [of c]) (auto simp: visible_def)
  next
    case False
    then have "node_at fs (D @ [c]) = Some Dir" using prefix_dir [OF assms, of "D @ [c]" ns] x(2) by simp
    moreover have "x \<in> files_below fs (D @ [c]) (path_join pre c) hidden"
      unfolding files_below_def using x False by (auto simp: visible_def intro!: exI [of _ ns] exI [of _ i])
    ultimately show ?thesis using x(3) by (intro UN_I [of c]) (auto simp: visible_def)
  qed
next
  fix x
  assume "x \<in> ?R"
  then obtain c nd where c: "visible hidden [c]" "node_at fs (D @ [c]) = Some nd"
    "x \<in> (case nd of Dir \<Rightarrow> files_below fs (D @ [c]) (path_join pre c) hidden
        | Regular i \<Rightarrow> {(path_join pre c, length (fs_data fs i))} | Symlink _ \<Rightarrow> {})" by force
  show "x \<in> files_below fs D pre hidden"
  proof (cases nd)
    case Dir
    with c(3) obtain ns i where "x = (foldl path_join (path_join pre c) ns, length (fs_data fs i))" "ns \<noteq> []"
      "node_at fs ((D @ [c]) @ ns) = Some (Regular i)" "visible hidden ns" by (auto simp: files_below_def)
    with c(1) show ?thesis unfolding files_below_def by (auto simp: visible_def intro!: exI [of _ "c # ns"] exI [of _ i])
  next
    case (Regular i)
    with c show ?thesis unfolding files_below_def by (auto intro!: exI [of _ "[c]"] exI [of _ i])
  next
    case (Symlink t)
    with c(3) show ?thesis by simp
  qed
qed

lemma image_concat_map_filter:
  "f ` set (concat (map g (List.map_filter h xs))) = (\<Union>c \<in> {c. c \<in> set xs \<and> h c \<noteq> None}. f ` set (g (the (h c))))"
  by (auto simp: List.map_filter_def)

lemma read_dir_recursive_spec:
  assumes "fs_ok fs" and "resolve_path fs p True = Inr D" and "node_at fs D = Some Dir" and "depth_bound fs \<le> n + length D"
  shows "\<exists>files. read_dir_recursive n fs p pre hidden = Inr files
    \<and> (\<lambda>e. (fe_name e, fe_size e)) ` set files = files_below fs D pre hidden"
  using assms(2-4)
proof (induction n arbitrary: p D pre)
  case 0
  with node_depth [OF 0(2)] show ?case by simp
next
  case (Suc n)
  let ?es = "List.map_filter (dir_entry fs p hidden) (child_names fs D)"
  let ?g = "\<lambda>entry. case fe_entry_type entry of
                FtFile \<Rightarrow> [entry\<lparr>fe_name := path_join pre (fe_name entry)\<rparr>]
              | FtDir \<Rightarrow> (case read_dir_recursive n fs (path_join p (fe_name entry)) (path_join pre (fe_name entry)) hidden of
                            Inr l \<Rightarrow> l | Inl _ \<Rightarrow> [])
              | _ \<Rightarrow> []"
  have dir: "fs_is_dir fs p" "read_dir fs p hidden = Inr \<lparr>di_id = 0, di_path = p, di_entries = ?es\<rparr>"
    using Suc.prems by (simp_all add: fs_is_dir_def fs_lookup_def read_dir_def)
  have each: "(\<lambda>e. (fe_name e, fe_size e)) ` set (?g e) =
      (case nd of Dir \<Rightarrow> files_below fs (D @ [c]) (path_join pre c) hidden
        | Regular i \<Rightarrow> {(path_join pre c, length (fs_data fs i))} | Symlink _ \<Rightarrow> {})"
    if c: "node_at fs (D @ [c]) = Some nd" and e: "dir_entry fs p hidden c = Some e" for c e nd
  proof (cases nd)
    case Dir
    have pc: "plain_name c" using fs_ok_node [OF assms(1) c] by simp
    have "resolve_path fs (path_join p c) True = Inr (D @ [c])"
      using child_resolve [OF assms(1) Suc.prems(1,2) pc, of True] c Dir by simp
    from Suc.IH [OF this, of "path_join pre c"] c Dir Suc.prems(3) show ?thesis
      using e dir_entry_node [OF assms(1) Suc.prems(1,2) c] by (auto split: if_splits)
  qed (use e dir_entry_node [OF assms(1) Suc.prems(1,2) c] in \<open>auto split: if_splits\<close>)
  have "(\<lambda>e. (fe_name e, fe_size e)) ` set (concat (map ?g ?es)) =
      (\<Union>c \<in> {c. c \<in> set (child_names fs D) \<and> dir_entry fs p hidden c \<noteq> None}.
         (\<lambda>e. (fe_name e, fe_size e)) ` set (?g (the (dir_entry fs p hidden c))))"
    by (rule image_concat_map_filter)
  also have "\<dots> = files_below fs D pre hidden"
    unfolding files_below_step [OF assms(1), of D]
  proof (rule SUP_cong)
    show "{c. c \<in> set (child_names fs D) \<and> dir_entry fs p hidden c \<noteq> None} =
        {c. visible hidden [c] \<and> node_at fs (D @ [c]) \<noteq> None}"
      using dir_entry_some [OF assms(1) Suc.prems(1,2)] by (auto simp: child_names_node [OF assms(1)] simp del: not_None_eq)
  next
    fix c
    assume "c \<in> {c. visible hidden [c] \<and> node_at fs (D @ [c]) \<noteq> None}"
    then obtain nd where nd: "node_at fs (D @ [c]) = Some nd" "visible hidden [c]" by auto
    with dir_entry_node [OF assms(1) Suc.prems(1,2) nd(1)] obtain e where "dir_entry fs p hidden c = Some e" by auto
    note e = this
    have "the (dir_entry fs p hidden c) = e" "the (node_at fs (D @ [c])) = nd" using e nd(1) by simp_all
    with each [OF nd(1) e] show "(\<lambda>e. (fe_name e, fe_size e)) ` set (?g (the (dir_entry fs p hidden c))) =
        (case the (node_at fs (D @ [c])) of
           Dir \<Rightarrow> files_below fs (D @ [c]) (path_join pre c) hidden
         | Regular i \<Rightarrow> {(path_join pre c, length (fs_data fs i))} | Symlink _ \<Rightarrow> {})" by (simp only:)
  qed
  finally show ?case using dir by (simp only: read_dir_recursive.simps if_True sum.case) simp
qed



subsection \<open>Removing empty directories\<close>

text \<open>A smaller tree: entries may be gone, none is new or different.\<close>

definition shrunk :: "fsys \<Rightarrow> fsys \<Rightarrow> bool" where
  "shrunk fs' fs \<longleftrightarrow> (\<forall>k. node_at fs' k = node_at fs k \<or> (node_at fs' k = None \<and> (\<forall>i. node_at fs k \<noteq> Some (Regular i))))
     \<and> fs_data fs' = fs_data fs \<and> fs_cwd fs' = fs_cwd fs \<and> fs_denied fs' = fs_denied fs"

lemma shrunk_refl: "shrunk fs fs"
  by (simp add: shrunk_def)

lemma shrunk_trans: "shrunk a b \<Longrightarrow> shrunk b c \<Longrightarrow> shrunk a c"
  unfolding shrunk_def by metis

lemma shrunk_node: "shrunk fs' fs \<Longrightarrow> node_at fs' k = Some nd \<Longrightarrow> node_at fs k = Some nd"
  unfolding shrunk_def by (metis option.distinct(1))

lemma shrunk_frame: "shrunk fs' fs \<Longrightarrow> fs_data fs' = fs_data fs \<and> fs_cwd fs' = fs_cwd fs \<and> fs_denied fs' = fs_denied fs"
  by (simp add: shrunk_def)

lemma shrunk_resolve:
  assumes "resolve n fs' d cs f = Inr k" and "node_at fs' k \<noteq> None" and "shrunk fs' fs"
  shows "resolve n fs d cs f = Inr k"
  using assms
proof (induction n fs' d cs f rule: resolve.induct)
  case (2 n fs' d c cs f)
  show ?case
  proof (cases "c = ''..'' \<or> c = ''.''")
    case True
    with 2(1,2,5,6,7) show ?thesis by (cases "c = ''..''") simp_all
  next
    case False
    show ?thesis
    proof (cases "node_at fs' (d @ [c])")
      case None
      with False 2(5,6) show ?thesis by (auto split: if_splits)
    next
      case (Some nd)
      note fs = shrunk_node [OF 2(7) Some]
      show ?thesis
      proof (cases nd)
        case Dir
        with Some fs False 2(3,5,6,7) show ?thesis by simp
      next
        case (Regular i)
        with Some fs False 2(5) show ?thesis by (simp split: if_splits)
      next
        case (Symlink t)
        with Some fs False 2(4) [OF _ _ Some Symlink] 2(5,6,7) show ?thesis by (auto split: if_splits)
      qed
    qed
  qed
qed simp

lemma shrunk_lookup:
  assumes "resolve_path fs' p f = Inr k" and "node_at fs' k = Some nd" and "shrunk fs' fs"
  shows "resolve_path fs p f = Inr k \<and> node_at fs k = Some nd"
proof -
  have p: "p \<noteq> []" using assms(1) by (auto simp: resolve_path_def)
  from assms(1) have "resolve MAXSYMLINKS fs' (if is_absolute p then [] else fs_cwd fs') (segments p) f = Inr k" "\<not> fs_denied fs' k"
    by (simp_all add: resolve_path_inner [OF p])
  with shrunk_resolve [OF this(1) _ assms(3)] assms(2) shrunk_node [OF assms(3,2)] shrunk_frame [OF assms(3)]
  show ?thesis by (simp add: resolve_path_inner [OF p] split: if_splits)
qed

lemma node_at_remove: "k \<noteq> [] \<Longrightarrow> node_at (fs\<lparr>fs_tree := hm_remove k (fs_tree fs)\<rparr>) q = (if q = k then None else node_at fs q)"
  by (auto simp: node_at_def hm_get_remove)

lemma remove_link_shrunk:
  assumes "resolve_path fs p False = Inr k" and "node_at fs k = Some (Symlink t)" and "shrunk fs' fs"
  shows "shrunk (try_remove fs' p) fs"
proof (cases "resolve_path fs' p False")
  case (Inr q)
  show ?thesis
  proof (cases "node_at fs' q")
    case (Some nd)
    with shrunk_lookup [OF Inr Some assms(3)] assms(1,2) have q: "q = k" "nd = Symlink t" by auto
    have "k \<noteq> []" using assms(2) by (auto simp: node_at_def)
    have "try_remove fs' p = fs'\<lparr>fs_tree := hm_remove k (fs_tree fs')\<rparr>"
      using Inr Some q by (simp add: try_remove_def fs_remove_file_def)
    moreover have "shrunk (fs'\<lparr>fs_tree := hm_remove k (fs_tree fs')\<rparr>) fs'"
      using Some q \<open>k \<noteq> []\<close> by (simp add: shrunk_def node_at_remove)
    ultimately show ?thesis using shrunk_trans [OF _ assms(3)] by simp
  qed (use Inr assms(3) in \<open>simp add: try_remove_def fs_remove_file_def\<close>)
qed (use assms(3) in \<open>simp add: try_remove_def fs_remove_file_def\<close>)

lemma remove_dir_shrunk: "shrunk (try_remove_dir fs p) fs"
proof (cases "fs_remove_dir fs p")
  case (Inr fs')
  then obtain k where "fs' = fs\<lparr>fs_tree := hm_remove k (fs_tree fs)\<rparr>" "node_at fs k = Some Dir" "k \<noteq> []"
    by (auto simp: fs_remove_dir_def split: sum.splits option.splits fnode.splits if_splits)
  with Inr show ?thesis by (simp add: try_remove_dir_def shrunk_def node_at_remove)
qed (simp add: try_remove_dir_def shrunk_refl)

lemma link_entry:
  assumes "e \<in> set (di_entries fd)" and "read_dir fs p True = Inr fd" and "fe_entry_type e = FtDirLink \<or> fe_entry_type e = FtFileLink"
  shows "\<exists>k t. resolve_path fs (path_join p (fe_name e)) False = Inr k \<and> node_at fs k = Some (Symlink t)"
proof -
  obtain c where "dir_entry fs p True c = Some e"
    using assms(1,2) by (auto simp: read_dir_def List.map_filter_def split: sum.splits if_splits)
  with assms(3) show ?thesis
    by (auto simp: dir_entry_def Let_def split: if_splits sum.splits option.splits fnode.splits)
qed

lemma remove_all_shrunk: "shrunk (snd (remove_all_empty_dir n fs p)) fs"
proof (induction n arbitrary: fs p)
  case (Suc n)
  show ?case
  proof (cases "read_dir fs p True")
    case (Inr fd)
    let ?step = "\<lambda>entry fs. case fe_entry_type entry of
                 FtDir \<Rightarrow> snd (remove_all_empty_dir n fs (path_join p (fe_name entry)))
               | FtDirLink \<Rightarrow> try_remove fs (path_join p (fe_name entry))
               | FtFileLink \<Rightarrow> try_remove fs (path_join p (fe_name entry))
               | _ \<Rightarrow> fs"
    have step: "shrunk (?step e fs') fs" if "e \<in> set (di_entries fd)" "shrunk fs' fs" for e fs'
    proof (cases "fe_entry_type e")
      case FtDir
      with shrunk_trans [OF Suc.IH that(2)] show ?thesis by simp
    next
      case FtDirLink
      with link_entry [OF that(1) Inr] remove_link_shrunk [OF _ _ that(2)] show ?thesis by auto
    next
      case FtFileLink
      with link_entry [OF that(1) Inr] remove_link_shrunk [OF _ _ that(2)] show ?thesis by auto
    qed (use that(2) in simp_all)
    have "shrunk (fold ?step es fs') fs" if "set es \<subseteq> set (di_entries fd)" "shrunk fs' fs" for es fs'
      using that by (induction es arbitrary: fs') (auto intro: step)
    from shrunk_trans [OF remove_dir_shrunk this [OF subset_refl shrunk_refl]] Inr show ?thesis by simp
  qed (simp add: shrunk_refl)
qed (simp add: shrunk_refl)

text \<open>
  C16. Removing a directory tree through \<^verbatim>\<open>remove_all_empty_dir\<close> never loses data: whatever the tree,
  the path and the failures on the way, every regular file is still there with its contents, and
  nothing new appears; only empty directories and links can be gone.
\<close>

theorem remove_all_empty_dir_keeps_files:
  "let fs' = snd (remove_all_empty_dir n fs path)
   in (\<forall>k i. (node_at fs' k = Some (Regular i)) = (node_at fs k = Some (Regular i)))
      \<and> fs_data fs' = fs_data fs \<and> (\<forall>k. node_at fs' k \<in> {node_at fs k, None})"
  using remove_all_shrunk [of n fs path] unfolding shrunk_def Let_def
  by (metis insertCI option.distinct(1))

end
