(* ===== verification/Cm_Jobs.thy ===== *)
theory Cm_Jobs
  imports Directories
begin

text \<open>
  The connection manager's side of file transfer (\<^verbatim>\<open>src/ui_cm_interface.rs\<close>): the requests a
  connection sends it (\<^verbatim>\<open>ipc::FS\<close>), the write jobs it keeps, and, where reading is delegated to it,
  the read jobs with their periodic step; and in \<^verbatim>\<open>src/server/connection.rs\<close> the handlers that
  relay its results to the peer.

  Messages between the two processes are values; a directory travels as the list itself instead of
  its protobuf bytes. The printed form of an error is an argument.
\<close>

subsection \<open>Requests and results\<close>

datatype fs_req =
    ReadEmptyDirs string bool
  | ReadDir string bool
  | RemoveDir string int bool
  | RemoveFile string int int
  | CreateDir string int
  | NewWrite string int int "(string \<times> nat) list" bool nat int
  | CancelWrite int
  | WriteBlock int int bytes bool
  | WriteDone int int
  | WriteError int int string
  | WriteOffset int int nat
  | CheckDigest int int nat nat bool bool
  | SendConfirm confirm_request
  | Rename int string string
  | ReadFile string int int bool int bool
  | CancelRead int int
  | SendConfirmForRead int int bool nat int
  | ReadAllFiles string int bool int

datatype cm_out =
    RawMsg ft_msg
  | RawDigest transfer_digest bool
  | RawDir file_directory
  | RawEmptyDirs string "file_directory list"
  | ReadJobInitResult int int bool int "string + file_directory"
  | FileBlockFromCM int int bytes bool int
  | FileReadDone int int int
  | FileReadError int int string int
  | FileDigestFromCM int int nat nat bool int
  | AllFilesResult int int string "string + file_directory"
  | CmLog string

record cm_state =
  cm_write_jobs :: "transfer_job list"
  cm_read_jobs :: "transfer_job list"
  cm_fs :: fsys

record cm_env =
  cv_ft :: ft_env
  cv_show :: "ft_error \<Rightarrow> string"
  cv_max_files_option :: string
  cv_home :: string
  cv_logs :: bool

subsection \<open>Limits\<close>

definition DEFAULT_MAX_VALIDATED_FILES :: nat where "DEFAULT_MAX_VALIDATED_FILES = 10000"

text \<open>\<^verbatim>\<open>parse::<usize>()\<close>\<close>

definition char_digit :: "char \<Rightarrow> nat option" where
  "char_digit c = (let n = of_char c in if 48 \<le> n \<and> n \<le> 57 then Some (n - 48) else None)"

fun digits_nat :: "nat \<Rightarrow> string \<Rightarrow> nat option" where
  "digits_nat acc [] = Some acc"
| "digits_nat acc (c # cs) = (case char_digit c of Some d \<Rightarrow> digits_nat (acc * 10 + d) cs | None \<Rightarrow> None)"

definition parse_usize :: "string \<Rightarrow> nat option" where
  "parse_usize s =
     (let ds = (case s of c # r \<Rightarrow> if c = CHR ''+'' then r else s | [] \<Rightarrow> s) in
      if ds = [] then None
      else case digits_nat 0 ds of Some n \<Rightarrow> if n \<le> usize_MAX then Some n else None | None \<Rightarrow> None)"

definition get_max_validated_files :: "string \<Rightarrow> nat" where
  "get_max_validated_files opt =
     (let c = (case parse_usize (trim opt) of Some n \<Rightarrow> n | None \<Rightarrow> usize_MAX)
      in if c = 0 then DEFAULT_MAX_VALIDATED_FILES else c)"

definition check_file_count_limit :: "string \<Rightarrow> nat \<Rightarrow> string + unit" where
  "check_file_count_limit opt n =
     (let m = get_max_validated_files opt in
      if n > m then Inl (''file transfer rejected: too many files ('' @ show_nat n @ '' files exceeds limit of '' @ show_nat m
                         @ ''). Adjust 'file-transfer-max-files' option to increase limit.'')
      else Inr ())"

subsection \<open>Single requests\<close>

definition handle_result :: "ft_error option \<Rightarrow> int \<Rightarrow> int \<Rightarrow> cm_out list" where
  "handle_result res i file_num =
     (case res of Some err \<Rightarrow> [RawMsg (MsgError i err file_num)] | None \<Rightarrow> [RawMsg (MsgDone i file_num)])"

definition cm_read_dir :: "cm_env \<Rightarrow> fsys \<Rightarrow> string \<Rightarrow> bool \<Rightarrow> cm_out list" where
  "cm_read_dir env fs dir hidden =
     (case read_dir fs (if dir = [] then cv_home env else dir) hidden of Inr fd \<Rightarrow> [RawDir fd] | Inl _ \<Rightarrow> [])"

definition cm_read_empty_dirs :: "fsys \<Rightarrow> string \<Rightarrow> bool \<Rightarrow> cm_out list" where
  "cm_read_empty_dirs fs dir hidden =
     (case get_empty_dirs_recursive fs dir hidden of Inr fds \<Rightarrow> [RawEmptyDirs dir fds] | Inl _ \<Rightarrow> [])"

definition cm_remove_file :: "fsys \<Rightarrow> string \<Rightarrow> int \<Rightarrow> int \<Rightarrow> fsys \<times> cm_out list" where
  "cm_remove_file fs path i file_num =
     (case remove_file fs path of
        Inl e \<Rightarrow> (fs, handle_result (Some e) i file_num) | Inr fs \<Rightarrow> (fs, handle_result None i file_num))"

definition cm_create_dir :: "fsys \<Rightarrow> string \<Rightarrow> int \<Rightarrow> fsys \<times> cm_out list" where
  "cm_create_dir fs path i = (case create_dir fs path of (fs, e) \<Rightarrow> (fs, handle_result e i 0))"

definition cm_rename_file :: "fsys \<Rightarrow> string \<Rightarrow> string \<Rightarrow> int \<Rightarrow> fsys \<times> cm_out list" where
  "cm_rename_file fs path new_name i =
     (case rename_file fs path new_name of
        Inl e \<Rightarrow> (fs, handle_result (Some e) i 0) | Inr fs \<Rightarrow> (fs, handle_result None i 0))"

definition cm_remove_dir :: "fsys \<Rightarrow> string \<Rightarrow> int \<Rightarrow> bool \<Rightarrow> fsys \<times> cm_out list" where
  "cm_remove_dir fs path i recursive =
     (if recursive then
        (case remove_all_empty_dir (depth_bound fs) fs path of (e, fs) \<Rightarrow> (fs, handle_result e i 0))
      else (case fs_remove_dir fs path of
              Inl e \<Rightarrow> (fs, handle_result (Some (Io e)) i 0) | Inr fs \<Rightarrow> (fs, handle_result None i 0)))"

definition read_all_files :: "cm_env \<Rightarrow> fsys \<Rightarrow> string \<Rightarrow> bool \<Rightarrow> int \<Rightarrow> int \<Rightarrow> cm_out list" where
  "read_all_files env fs path hidden i conn_id =
     (let result = (case get_recursive_files fs path hidden of
          Inl e \<Rightarrow> Inl (cv_show env e)
        | Inr files \<Rightarrow>
            (case check_file_count_limit (cv_max_files_option env) (length files) of
               Inl msg \<Rightarrow> Inl msg
             | Inr _ \<Rightarrow> Inr \<lparr>di_id = i, di_path = path, di_entries = files\<rparr>))
      in [AllFilesResult i conn_id path result])"

definition start_read_job ::
  "cm_env \<Rightarrow> string \<Rightarrow> int \<Rightarrow> bool \<Rightarrow> int \<Rightarrow> int \<Rightarrow> bool \<Rightarrow> cm_state \<Rightarrow> cm_state \<times> cm_out list" where
  "start_read_job env path file_num hidden i conn_id od st =
     (case new_read (get_recursive_files (cm_fs st)) i Generic [] (FilePath path) file_num hidden True od of
        Inl e \<Rightarrow> (st, [ReadJobInitResult i file_num hidden conn_id (Inl (''validation failed: '' @ cv_show env e))])
      | Inr job \<Rightarrow>
          (case check_file_count_limit (cv_max_files_option env) (length (tj_files job)) of
             Inl msg \<Rightarrow> (st, [ReadJobInitResult i file_num hidden conn_id (Inl msg)])
           | Inr _ \<Rightarrow>
               (st\<lparr>cm_read_jobs := cm_read_jobs st @ [job\<lparr>tj_conn_id := conn_id\<rparr>]\<rparr>,
                [ReadJobInitResult i file_num hidden conn_id
                   (Inr \<lparr>di_id = i, di_path = path, di_entries = tj_files job\<rparr>)])))"

subsection \<open>Write jobs\<close>

text \<open>The job \<^verbatim>\<open>get_job\<close> returned, changed in place.\<close>

fun set_job :: "transfer_job \<Rightarrow> transfer_job list \<Rightarrow> transfer_job list" where
  "set_job j [] = []"
| "set_job j (x # xs) = (if tj_id x = tj_id j then j # xs else x # set_job j xs)"

definition file_entry_of :: "string \<times> nat \<Rightarrow> file_entry" where
  "file_entry_of f = \<lparr>fe_entry_type = FtDir, fe_name = fst f, fe_is_hidden = False, fe_size = 0, fe_modified_time = snd f\<rparr>"

definition new_write_job ::
  "string \<Rightarrow> int \<Rightarrow> int \<Rightarrow> (string \<times> nat) list \<Rightarrow> bool \<Rightarrow> nat \<Rightarrow> int \<Rightarrow> cm_state \<Rightarrow> cm_state \<times> cm_out list" where
  "new_write_job path i file_num files od total_size conn_id st =
     (case set_files (cm_fs st) (map file_entry_of files) (new_write i Generic [] (FilePath path) file_num False False od) of
        Inl e \<Rightarrow> (st, [RawMsg (MsgError i e file_num)])
      | Inr job \<Rightarrow>
          (st\<lparr>cm_write_jobs := cm_write_jobs st @ [job\<lparr>tj_total_size := total_size, tj_conn_id := conn_id\<rparr>]\<rparr>, []))"

definition job_log :: "cm_env \<Rightarrow> transfer_job \<Rightarrow> bool \<Rightarrow> bool \<Rightarrow> string \<Rightarrow> cm_out list" where
  "job_log env j is_done cancelled err = (if cv_logs env then [CmLog (en_serialize (cv_ft env) j is_done cancelled err)] else [])"

definition cancel_write :: "cm_env \<Rightarrow> int \<Rightarrow> cm_state \<Rightarrow> cm_state \<times> cm_out list" where
  "cancel_write env i st =
     (case remove_job i (cm_write_jobs st) of
        (None, jobs) \<Rightarrow> (st\<lparr>cm_write_jobs := jobs\<rparr>, [])
      | (Some job, jobs) \<Rightarrow>
          (st\<lparr>cm_write_jobs := jobs, cm_fs := remove_download_file job (cm_fs st)\<rparr>, job_log env job False True []))"

definition write_done :: "cm_env \<Rightarrow> int \<Rightarrow> int \<Rightarrow> cm_state \<Rightarrow> cm_state \<times> cm_out list" where
  "write_done env i file_num st =
     (case remove_job i (cm_write_jobs st) of
        (None, jobs) \<Rightarrow> (st\<lparr>cm_write_jobs := jobs\<rparr>, [])
      | (Some job, jobs) \<Rightarrow>
          (st\<lparr>cm_write_jobs := jobs, cm_fs := modify_time (cv_ft env) job (cm_fs st)\<rparr>,
           RawMsg (MsgDone i file_num) # job_log env job True False []))"

definition write_error :: "cm_env \<Rightarrow> int \<Rightarrow> int \<Rightarrow> string \<Rightarrow> cm_state \<Rightarrow> cm_state \<times> cm_out list" where
  "write_error env i file_num err st =
     (case remove_job i (cm_write_jobs st) of
        (None, jobs) \<Rightarrow> (st\<lparr>cm_write_jobs := jobs\<rparr>, [])
      | (Some job, jobs) \<Rightarrow>
          (st\<lparr>cm_write_jobs := jobs\<rparr>, job_log env job False False err @ [RawMsg (MsgError (tj_id job) (Bail err) file_num)]))"

definition write_block :: "cm_env \<Rightarrow> file_block \<Rightarrow> cm_state \<Rightarrow> cm_state \<times> cm_out list" where
  "write_block env b st =
     (case get_job (bk_id b) (cm_write_jobs st) of
        None \<Rightarrow> (st, [])
      | Some job \<Rightarrow>
          (case job_write (cv_ft env) b job (cm_fs st) of
             (err, job, fs) \<Rightarrow>
               (st\<lparr>cm_write_jobs := set_job job (cm_write_jobs st), cm_fs := fs\<rparr>,
                case err of Some e \<Rightarrow> [RawMsg (MsgError (bk_id b) e (bk_file_num b))] | None \<Rightarrow> [])))"

definition check_digest :: "cm_env \<Rightarrow> int \<Rightarrow> int \<Rightarrow> nat \<Rightarrow> nat \<Rightarrow> bool \<Rightarrow> bool \<Rightarrow> cm_state \<Rightarrow> cm_state \<times> cm_out list" where
  "check_digest env i file_num file_size last_modified is_upload is_resume st =
     (case get_job i (cm_write_jobs st) of
        None \<Rightarrow> (st, [])
      | Some job \<Rightarrow>
          let n = usize_of_i32 file_num;
              req = \<lparr>cr_id = i, cr_file_num = file_num, cr_union = Some (OffsetBlk 0)\<rparr>;
              digest = \<lparr>td_id = i, td_file_num = file_num, td_last_modified = last_modified, td_file_size = file_size,
                        td_is_identical = False, td_transferred_size = 0, td_is_resume = False\<rparr>
          in if n < length (tj_files job) then
               (case tj_data_source job of
                  MemoryCursor _ \<Rightarrow> (st, [])
                | FilePath p \<Rightarrow>
                    (case is_write_need_confirmation (cv_ft env) (cm_fs st) is_resume (job_join p (fe_name (tj_files job ! n))) digest of
                       Inl err \<Rightarrow> (st, [RawMsg (MsgError i err file_num)])
                     | Inr r \<Rightarrow>
                         (st\<lparr>cm_write_jobs := set_job (set_digest file_size last_modified job) (cm_write_jobs st)\<rparr>,
                          case r of
                            IsSame \<Rightarrow> [RawMsg (MsgSendConfirm (req\<lparr>cr_union := Some (Skip True)\<rparr>))]
                          | NeedConfirm d \<Rightarrow> [RawDigest d is_upload]
                          | NoSuchFile \<Rightarrow> [RawMsg (MsgSendConfirm req)])))
             else (st, []))"

definition send_confirm :: "confirm_request \<Rightarrow> cm_state \<Rightarrow> cm_state rust" where
  "send_confirm r st =
     (case get_job (cr_id r) (cm_write_jobs st) of
        None \<Rightarrow> Ret st
      | Some job \<Rightarrow>
          rust_bind (confirm r job (cm_fs st)) (\<lambda>(job, fs).
            Ret (st\<lparr>cm_write_jobs := set_job job (cm_write_jobs st), cm_fs := fs\<rparr>)))"

definition send_confirm_for_read :: "int \<Rightarrow> bool \<Rightarrow> nat \<Rightarrow> cm_state \<Rightarrow> cm_state rust" where
  "send_confirm_for_read i skip offset_blk st =
     (case get_job i (cm_read_jobs st) of
        None \<Rightarrow> Ret st
      | Some job \<Rightarrow>
          let req = \<lparr>cr_id = i, cr_file_num = tj_file_num job,
                     cr_union = Some (if skip then Skip True else OffsetBlk offset_blk)\<rparr>
          in rust_bind (confirm req job (cm_fs st)) (\<lambda>(job, fs).
               Ret (st\<lparr>cm_read_jobs := set_job job (cm_read_jobs st), cm_fs := fs\<rparr>)))"

definition cancel_read :: "cm_env \<Rightarrow> int \<Rightarrow> cm_state \<Rightarrow> cm_state \<times> cm_out list" where
  "cancel_read env i st =
     (case remove_job i (cm_read_jobs st) of
        (None, jobs) \<Rightarrow> (st\<lparr>cm_read_jobs := jobs\<rparr>, [])
      | (Some job, jobs) \<Rightarrow> (st\<lparr>cm_read_jobs := jobs\<rparr>, job_log env job False True []))"

fun handle_fs :: "cm_env \<Rightarrow> fs_req \<Rightarrow> cm_state \<Rightarrow> (cm_state \<times> cm_out list) rust" where
  "handle_fs env (ReadEmptyDirs dir hidden) st = Ret (st, cm_read_empty_dirs (cm_fs st) dir hidden)"
| "handle_fs env (ReadDir dir hidden) st = Ret (st, cm_read_dir env (cm_fs st) dir hidden)"
| "handle_fs env (RemoveDir path i recursive) st =
     (case cm_remove_dir (cm_fs st) path i recursive of (fs, out) \<Rightarrow> Ret (st\<lparr>cm_fs := fs\<rparr>, out))"
| "handle_fs env (RemoveFile path i file_num) st =
     (case cm_remove_file (cm_fs st) path i file_num of (fs, out) \<Rightarrow> Ret (st\<lparr>cm_fs := fs\<rparr>, out))"
| "handle_fs env (CreateDir path i) st =
     (case cm_create_dir (cm_fs st) path i of (fs, out) \<Rightarrow> Ret (st\<lparr>cm_fs := fs\<rparr>, out))"
| "handle_fs env (NewWrite path i file_num files od total_size conn_id) st =
     Ret (new_write_job path i file_num files od total_size conn_id st)"
| "handle_fs env (CancelWrite i) st = Ret (cancel_write env i st)"
| "handle_fs env (WriteDone i file_num) st = Ret (write_done env i file_num st)"
| "handle_fs env (WriteError i file_num err) st = Ret (write_error env i file_num err st)"
| "handle_fs env (WriteBlock i file_num data compressed) st =
     Ret (write_block env \<lparr>bk_id = i, bk_file_num = file_num, bk_data = data, bk_compressed = compressed\<rparr> st)"
| "handle_fs env (CheckDigest i file_num file_size last_modified is_upload is_resume) st =
     Ret (check_digest env i file_num file_size last_modified is_upload is_resume st)"
| "handle_fs env (SendConfirm r) st = rust_bind (send_confirm r st) (\<lambda>st. Ret (st, []))"
| "handle_fs env (Rename i path new_name) st =
     (case cm_rename_file (cm_fs st) path new_name i of (fs, out) \<Rightarrow> Ret (st\<lparr>cm_fs := fs\<rparr>, out))"
| "handle_fs env (ReadFile path i file_num hidden conn_id od) st = Ret (start_read_job env path file_num hidden i conn_id od st)"
| "handle_fs env (CancelRead i conn_id) st = Ret (cancel_read env i st)"
| "handle_fs env (SendConfirmForRead i file_num skip offset_blk conn_id) st =
     rust_bind (send_confirm_for_read i skip offset_blk st) (\<lambda>st. Ret (st, []))"
| "handle_fs env (ReadAllFiles path i hidden conn_id) st = Ret (st, read_all_files env (cm_fs st) path hidden i conn_id)"
| "handle_fs env (WriteOffset i file_num offset_blk) st = Ret (st, [])"


subsection \<open>The periodic step of the read jobs\<close>

definition init_read_job_for_cm :: "fsys \<Rightarrow> int \<Rightarrow> transfer_job \<Rightarrow> ft_error option \<times> transfer_job \<times> cm_out list" where
  "init_read_job_for_cm fs conn_id j =
     (case init_data_stream_for_cm fs j of
        (Inl e, j) \<Rightarrow> (Some e, j, [])
      | (Inr (Some (last_modified, file_size)), j) \<Rightarrow>
          (None, j, [FileDigestFromCM (tj_id j) (tj_file_num j) last_modified file_size (tj_is_resume j) conn_id])
      | (Inr None, j) \<Rightarrow> (None, j, []))"

text \<open>Reading a block of an initialised job: the job, the messages and whether the job is finished.\<close>

definition tick_read :: "cm_env \<Rightarrow> fsys \<Rightarrow> int \<Rightarrow> transfer_job \<Rightarrow> transfer_job \<times> cm_out list \<times> bool" where
  "tick_read env fs conn_id j =
     (case job_read (cv_ft env) fs j of
        (Inl err, j) \<Rightarrow> (j, [FileReadError (tj_id j) (tj_file_num j) (cv_show env err) conn_id], True)
      | (Inr (Some b), j) \<Rightarrow> (j, [FileBlockFromCM (bk_id b) (bk_file_num b) (bk_data b) (bk_compressed b) conn_id], False)
      | (Inr None, j) \<Rightarrow>
          if job_completed j then
            (j, case job_error j of
                  Some err \<Rightarrow> [FileReadError (tj_id j) (tj_file_num j) err conn_id]
                | None \<Rightarrow> [FileReadDone (tj_id j) (tj_file_num j) conn_id], True)
          else (j, [], False))"

text \<open>The loop over the jobs; the last component collects the ids of finished jobs.\<close>

fun tick_jobs :: "cm_env \<Rightarrow> fsys \<Rightarrow> int \<Rightarrow> transfer_job list \<Rightarrow> transfer_job list \<times> cm_out list \<times> int list" where
  "tick_jobs env fs conn_id [] = ([], [], [])"
| "tick_jobs env fs conn_id (j # js) =
     (if tj_is_last_job j then (case tick_jobs env fs conn_id js of (js', out, fin) \<Rightarrow> (j # js', out, fin))
      else case init_read_job_for_cm fs conn_id j of
        (Some err, j, out) \<Rightarrow>
          (case tick_jobs env fs conn_id js of
             (js', out', fin) \<Rightarrow>
               (j # js', out @ FileReadError (tj_id j) (tj_file_num j) (cv_show env err) conn_id # out', tj_id j # fin))
      | (None, j, out) \<Rightarrow>
          (case tick_read env fs conn_id j of
             (j, out', finished) \<Rightarrow> (j # js, out @ out', if finished then [tj_id j] else [])))"

definition handle_read_jobs_tick :: "cm_env \<Rightarrow> int \<Rightarrow> cm_state \<Rightarrow> cm_state \<times> cm_out list" where
  "handle_read_jobs_tick env conn_id st =
     (case tick_jobs env (cm_fs st) conn_id (cm_read_jobs st) of
        (js, out, fin) \<Rightarrow> (st\<lparr>cm_read_jobs := foldl (\<lambda>js i. snd (remove_job i js)) js fin\<rparr>, out))"

end
