(* ===== verification/File_Actions.thy ===== *)
theory File_Actions
  imports Login Cm_Jobs
begin

text \<open>
  The connection's side of file transfer (\<^verbatim>\<open>src/server/connection.rs\<close>): what it does with a
  \<^verbatim>\<open>FileAction\<close> or \<^verbatim>\<open>FileResponse\<close> of the peer and with the results the connection manager
  sends back, and the record of removed files.

  On the targets with an elevated manager process (\<^verbatim>\<open>need_fs_cm_send_files\<close>) the manager reads the
  files, elsewhere the connection does; the choice is an argument.
\<close>

subsection \<open>State and messages\<close>

datatype file_action =
    FaReadDir string bool
  | FaReadEmptyDirs string bool
  | FaAllFiles int string bool
  | FaSend int int string int bool
  | FaReceive int string int "file_entry list" nat
  | FaRemoveDir int string bool
  | FaRemoveFile int string int
  | FaCreate int string
  | FaCancel int
  | FaSendConfirm confirm_request
  | FaRename int string string

datatype file_response =
    FrBlock file_block
  | FrDone int int
  | FrDigest int int nat nat bool
  | FrError int string int
  | FrOther

datatype file_audit_type = RemoteSend | RemoteReceive

record file_audit =
  fu_type :: file_audit_type
  fu_path :: string
  fu_num :: nat
  fu_files :: "(string \<times> int) list"
  fu_is_file :: bool

record file_action_log =
  fl_id :: int
  fl_conn_id :: int
  fl_path :: string
  fl_dir :: bool

datatype transfer_log = ActionLog string file_action_log | RenameLog int string string | JobLog string | JobsLog "transfer_job list"

datatype conn_out =
    ToPeer ft_msg
  | ToPeerDigest transfer_digest bool
  | ToPeerEmptyDirs string "file_directory list"
  | ToCm fs_req
  | LogToCm transfer_log
  | PostAudit file_audit
  | FastTimer

record remove_log =
  rg_conn_id :: int
  rg_removed_files :: "(int \<times> string) list"
  rg_removed_dirs :: "(int \<times> string) list"

record conn_ft =
  cf_id :: int
  cf_version :: string
  cf_file_transfer :: bool
  cf_delayed_read_dir :: "(string \<times> bool) option"
  cf_read_jobs :: "transfer_job list"
  cf_cm_read_job_ids :: "int set"
  cf_printer_data :: "(string \<times> bytes) list"
  cf_file_transferred :: bool
  cf_remove_log :: remove_log

record fa_env =
  fv_cm :: cm_env
  fv_need_cm :: bool
  fv_one_way :: string
  fv_audit_server :: string

subsection \<open>Audit and removal log\<close>

definition get_files_for_audit :: "job_type \<Rightarrow> file_entry list \<Rightarrow> (string \<times> int) list" where
  "get_files_for_audit t files =
     map (\<lambda>f. (if t = Printer then ''Remote print'' else fe_name f, wrap_i64 (int (fe_size f)))) files"

definition post_file_audit :: "fa_env \<Rightarrow> file_audit_type \<Rightarrow> string \<Rightarrow> (string \<times> int) list \<Rightarrow> conn_out list" where
  "post_file_audit env t path files =
     (if fv_audit_server env = [] then []
      else let fs = take 10 (sort_key (\<lambda>f. - snd f) files)
           in [PostAudit \<lparr>fu_type = t, fu_path = path, fu_num = length files, fu_files = fs,
                          fu_is_file = (length fs = 1 \<and> fst (fs ! 0) = [])\<rparr>])"

definition direct_child :: "string \<Rightarrow> string \<Rightarrow> bool" where
  "direct_child parent child \<longleftrightarrow> map_option path_components (path_parent child) = Some (path_components parent)"

definition on_remove_file :: "int \<Rightarrow> string \<Rightarrow> remove_log \<Rightarrow> remove_log \<times> transfer_log" where
  "on_remove_file i path g =
     (g\<lparr>rg_removed_files := rg_removed_files g @ [(i, path)]\<rparr>,
      ActionLog ''remove'' \<lparr>fl_id = i, fl_conn_id = rg_conn_id g, fl_path = path, fl_dir = False\<rparr>)"

definition on_remove_dir :: "int \<Rightarrow> string \<Rightarrow> remove_log \<Rightarrow> remove_log \<times> transfer_log" where
  "on_remove_dir i path g =
     (let files = filter (\<lambda>f. \<not> direct_child (snd f) path) (rg_removed_files g);
          dirs = filter (\<lambda>x. \<not> direct_child path (snd x)) (rg_removed_dirs g)
      in (g\<lparr>rg_removed_files := files,
            rg_removed_dirs := (if list_ex (\<lambda>x. direct_child (snd x) path) dirs then dirs else dirs @ [(i, path)])\<rparr>,
          ActionLog ''remove'' \<lparr>fl_id = i, fl_conn_id = rg_conn_id g, fl_path = path, fl_dir = True\<rparr>))"

definition remove_log_on_timer :: "bool \<Rightarrow> remove_log \<Rightarrow> remove_log \<times> transfer_log list" where
  "remove_log_on_timer quiet_second g =
     (if \<not> quiet_second then (g, [])
      else (g\<lparr>rg_removed_files := [], rg_removed_dirs := []\<rparr>,
        map (\<lambda>f. ActionLog ''remove'' \<lparr>fl_id = fst f, fl_conn_id = rg_conn_id g, fl_path = snd f, fl_dir = False\<rparr>) (rg_removed_files g)
        @ map (\<lambda>d. ActionLog ''remove'' \<lparr>fl_id = fst d, fl_conn_id = rg_conn_id g, fl_path = snd d, fl_dir = True\<rparr>) (rg_removed_dirs g)))"

subsection \<open>Reading on the connection's side\<close>

definition can_enable_overwrite_detection :: "int \<Rightarrow> bool" where
  "can_enable_overwrite_detection version \<longleftrightarrow> version \<ge> get_version_number ''1.1.10''"

definition process_new_read_job :: "fa_env \<Rightarrow> transfer_job \<Rightarrow> string \<Rightarrow> conn_ft \<Rightarrow> conn_ft \<times> conn_out list" where
  "process_new_read_job env job path c =
     (c\<lparr>cf_read_jobs := cf_read_jobs c @ [job\<lparr>tj_is_remote := True, tj_conn_id := cf_id c\<rparr>]\<rparr>,
      ToPeer (MsgDir (tj_id job) path (tj_files job)) # FastTimer #
      post_file_audit env RemoteSend (if tj_type job = Printer then ''Remote print'' else path)
        (get_files_for_audit (tj_type job) (tj_files job)))"

definition create_and_start_read_job ::
  "fa_env \<Rightarrow> fsys \<Rightarrow> int \<Rightarrow> job_type \<Rightarrow> data_source \<Rightarrow> int \<Rightarrow> bool \<Rightarrow> bool \<Rightarrow> string \<Rightarrow> bool \<Rightarrow> conn_ft
     \<Rightarrow> conn_ft \<times> conn_out list" where
  "create_and_start_read_job env fs i t src file_num hidden od path check_limit c =
     (case new_read (get_recursive_files fs) i t [] src file_num hidden False od of
        Inl err \<Rightarrow> (c, [ToPeer (MsgError i err 0)])
      | Inr job \<Rightarrow>
          (case (if check_limit then check_file_count_limit (cv_max_files_option (fv_cm env)) (length (tj_files job)) else Inr ()) of
             Inl msg \<Rightarrow> (c, [ToPeer (MsgError i (Bail msg) (- 1))])
           | Inr _ \<Rightarrow> process_new_read_job env job path c))"

subsection \<open>Requests of the peer\<close>

definition one_way_job_id :: "file_action \<Rightarrow> int option" where
  "one_way_job_id fa =
     (case fa of
        FaSend i _ _ _ _ \<Rightarrow> Some i
      | FaRemoveFile i _ _ \<Rightarrow> Some i
      | FaRename i _ _ \<Rightarrow> Some i
      | FaCreate i _ \<Rightarrow> Some i
      | FaRemoveDir i _ _ \<Rightarrow> Some i
      | _ \<Rightarrow> None)"

fun take_printer_data :: "string \<Rightarrow> (string \<times> bytes) list \<Rightarrow> (bytes \<times> (string \<times> bytes) list) option" where
  "take_printer_data path [] = None"
| "take_printer_data path ((p, d) # ps) =
     (if p = path then Some (d, ps)
      else case take_printer_data path ps of Some (d', ps') \<Rightarrow> Some (d', (p, d) # ps') | None \<Rightarrow> None)"

definition handle_send_action ::
  "fa_env \<Rightarrow> fsys \<Rightarrow> int \<Rightarrow> int \<Rightarrow> string \<Rightarrow> int \<Rightarrow> bool \<Rightarrow> conn_ft \<Rightarrow> conn_ft \<times> conn_out list" where
  "handle_send_action env fs i file_type path file_num hidden c =
     (case job_type_of_i32 file_type of
        Generic \<Rightarrow>
          let od = can_enable_overwrite_detection (get_version_number (cf_version c)) in
          if fv_need_cm env then
            (c\<lparr>cf_cm_read_job_ids := insert i (cf_cm_read_job_ids c), cf_file_transferred := True\<rparr>,
             [ToCm (ReadFile path i file_num hidden (cf_id c) od)])
          else
            (case create_and_start_read_job env fs i Generic (FilePath path) file_num hidden od path True c of
               (c, out) \<Rightarrow> (c\<lparr>cf_file_transferred := True\<rparr>, out))
      | Printer \<Rightarrow>
          (case take_printer_data path (cf_printer_data c) of
             None \<Rightarrow> (c, [])
           | Some (data, rest) \<Rightarrow>
               (case create_and_start_read_job env fs i Printer (MemoryCursor \<lparr>cu_data = data, cu_pos = 0\<rparr>)
                       file_num hidden True path False (c\<lparr>cf_printer_data := rest\<rparr>) of
                  (c, out) \<Rightarrow> (c\<lparr>cf_file_transferred := True\<rparr>, out))))"

definition handle_all_files :: "fa_env \<Rightarrow> fsys \<Rightarrow> int \<Rightarrow> string \<Rightarrow> bool \<Rightarrow> conn_ft \<Rightarrow> conn_out list" where
  "handle_all_files env fs i path hidden c =
     (if fv_need_cm env then [ToCm (ReadAllFiles path i hidden (cf_id c))]
      else case get_recursive_files fs path hidden of
        Inl err \<Rightarrow> [ToPeer (MsgError i err (- 1))]
      | Inr files \<Rightarrow>
          (case check_file_count_limit (cv_max_files_option (fv_cm env)) (length files) of
             Inl msg \<Rightarrow> [ToPeer (MsgError i (Bail msg) (- 1))]
           | Inr _ \<Rightarrow> [ToPeer (MsgDir i path files)]))"

definition confirm_skip :: "confirm_request \<Rightarrow> bool" where
  "confirm_skip r = (case cr_union r of Some (Skip s) \<Rightarrow> s | _ \<Rightarrow> False)"

definition confirm_offset :: "confirm_request \<Rightarrow> nat" where
  "confirm_offset r = (case cr_union r of Some (OffsetBlk n) \<Rightarrow> n | _ \<Rightarrow> 0)"

definition handle_confirm_action ::
  "fsys \<Rightarrow> confirm_request \<Rightarrow> conn_ft \<Rightarrow> (fsys \<times> conn_ft \<times> conn_out list) rust" where
  "handle_confirm_action fs r c =
     (case get_job (cr_id r) (cf_read_jobs c) of
        Some job \<Rightarrow>
          rust_bind (confirm r job fs) (\<lambda>(job, fs). Ret (fs, c\<lparr>cf_read_jobs := set_job job (cf_read_jobs c)\<rparr>, []))
      | None \<Rightarrow>
          Ret (fs, c,
            [ToCm (if cr_id r \<in> cf_cm_read_job_ids c
                   then SendConfirmForRead (cr_id r) (cr_file_num r) (confirm_skip r) (confirm_offset r) (cf_id c)
                   else SendConfirm r)]))"

definition handle_cancel_action :: "fa_env \<Rightarrow> int \<Rightarrow> conn_ft \<Rightarrow> conn_ft \<times> conn_out list" where
  "handle_cancel_action env i c =
     (case remove_job i (cf_read_jobs c) of
        (removed, jobs) \<Rightarrow>
          (c\<lparr>cf_cm_read_job_ids := cf_cm_read_job_ids c - {i}, cf_read_jobs := jobs\<rparr>,
           [ToCm (CancelWrite i), ToCm (CancelRead i (cf_id c))]
           @ (case removed of
                Some job \<Rightarrow> [LogToCm (JobLog (en_serialize (cv_ft (fv_cm env)) job False True []))]
              | None \<Rightarrow> [])))"

fun dispatch_file_action ::
  "fa_env \<Rightarrow> fsys \<Rightarrow> file_action \<Rightarrow> conn_ft \<Rightarrow> (fsys \<times> conn_ft \<times> conn_out list) rust" where
  "dispatch_file_action env fs (FaReadEmptyDirs path hidden) c = Ret (fs, c, [ToCm (ReadEmptyDirs path hidden)])"
| "dispatch_file_action env fs (FaReadDir path hidden) c = Ret (fs, c, [ToCm (ReadDir path hidden)])"
| "dispatch_file_action env fs (FaAllFiles i path hidden) c = Ret (fs, c, handle_all_files env fs i path hidden c)"
| "dispatch_file_action env fs (FaSend i t path file_num hidden) c = Ret (fs, handle_send_action env fs i t path file_num hidden c)"
| "dispatch_file_action env fs (FaReceive i path file_num files total_size) c =
     Ret (fs, c\<lparr>cf_file_transferred := True\<rparr>,
       ToCm (NewWrite path i file_num (map (\<lambda>f. (fe_name f, fe_modified_time f)) files)
         (can_enable_overwrite_detection (get_version_number (cf_version c))) total_size (cf_id c))
       # post_file_audit env RemoteReceive path (get_files_for_audit Generic files))"
| "dispatch_file_action env fs (FaRemoveDir i path recursive) c =
     Ret (fs, c\<lparr>cf_remove_log := fst (on_remove_dir i path (cf_remove_log c))\<rparr>, [ToCm (RemoveDir path i recursive)])"
| "dispatch_file_action env fs (FaRemoveFile i path file_num) c =
     Ret (fs, c\<lparr>cf_remove_log := fst (on_remove_file i path (cf_remove_log c))\<rparr>, [ToCm (RemoveFile path i file_num)])"
| "dispatch_file_action env fs (FaCreate i path) c =
     Ret (fs, c, [ToCm (CreateDir path i),
       LogToCm (ActionLog ''create_dir'' \<lparr>fl_id = i, fl_conn_id = cf_id c, fl_path = path, fl_dir = True\<rparr>)])"
| "dispatch_file_action env fs (FaCancel i) c = Ret (fs, handle_cancel_action env i c)"
| "dispatch_file_action env fs (FaSendConfirm r) c = handle_confirm_action fs r c"
| "dispatch_file_action env fs (FaRename i path new_name) c =
     Ret (fs, c, [ToCm (Rename i path new_name), LogToCm (RenameLog (cf_id c) path new_name)])"

definition is_printer_send :: "file_action \<Rightarrow> bool" where
  "is_printer_send fa = (case fa of FaSend _ t _ _ _ \<Rightarrow> job_type_of_i32 t = Printer | _ \<Rightarrow> False)"

definition handle_file_action ::
  "fa_env \<Rightarrow> fsys \<Rightarrow> file_action \<Rightarrow> conn_ft \<Rightarrow> (fsys \<times> conn_ft \<times> conn_out list) rust" where
  "handle_file_action env fs fa c =
     (if \<not> (cf_file_transfer c \<or> is_printer_send fa) then Ret (fs, c, [])
      else if cf_delayed_read_dir c \<noteq> None then
        Ret (fs, (case fa of FaReadDir path hidden \<Rightarrow> c\<lparr>cf_delayed_read_dir := Some (path, hidden)\<rparr> | _ \<Rightarrow> c), [])
      else if fv_one_way env = ''Y'' \<and> one_way_job_id fa \<noteq> None then
        Ret (fs, c, [ToPeer (MsgError (the (one_way_job_id fa)) (Bail ''one-way-file-transfer-tip'') 0)])
      else dispatch_file_action env fs fa c)"

fun handle_file_response :: "file_response \<Rightarrow> conn_out list" where
  "handle_file_response (FrBlock b) = [ToCm (WriteBlock (bk_id b) (bk_file_num b) (bk_data b) (bk_compressed b))]"
| "handle_file_response (FrDone i file_num) = [ToCm (WriteDone i file_num)]"
| "handle_file_response (FrDigest i file_num file_size last_modified is_resume) =
     [ToCm (CheckDigest i file_num file_size last_modified True is_resume)]"
| "handle_file_response (FrError i err file_num) = [ToCm (WriteError i file_num err)]"
| "handle_file_response FrOther = []"

subsection \<open>Results of the connection manager\<close>

definition handle_read_job_init_result ::
  "fa_env \<Rightarrow> int \<Rightarrow> string + file_directory \<Rightarrow> conn_ft \<Rightarrow> conn_ft \<times> conn_out list" where
  "handle_read_job_init_result env i result c =
     (if i \<notin> cf_cm_read_job_ids c then (c, [])
      else case result of
        Inl err \<Rightarrow> (c\<lparr>cf_cm_read_job_ids := cf_cm_read_job_ids c - {i}\<rparr>, [ToPeer (MsgError i (Bail err) 0)])
      | Inr dir \<Rightarrow>
          (c\<lparr>cf_file_transferred := True\<rparr>,
           ToPeer (MsgDir i (di_path dir) (di_entries dir))
           # post_file_audit env RemoteSend (di_path dir) (get_files_for_audit Generic (di_entries dir))))"

definition handle_file_block_from_cm :: "file_block \<Rightarrow> conn_ft \<Rightarrow> conn_out list" where
  "handle_file_block_from_cm b c = (if bk_id b \<in> cf_cm_read_job_ids c then [ToPeer (MsgBlock b)] else [])"

definition handle_file_read_done :: "int \<Rightarrow> int \<Rightarrow> conn_ft \<Rightarrow> conn_ft \<times> conn_out list" where
  "handle_file_read_done i file_num c =
     (if i \<in> cf_cm_read_job_ids c
      then (c\<lparr>cf_cm_read_job_ids := cf_cm_read_job_ids c - {i}\<rparr>, [ToPeer (MsgDone i file_num)]) else (c, []))"

definition handle_file_read_error :: "int \<Rightarrow> int \<Rightarrow> string \<Rightarrow> conn_ft \<Rightarrow> conn_ft \<times> conn_out list" where
  "handle_file_read_error i file_num err c =
     (if i \<in> cf_cm_read_job_ids c
      then (c\<lparr>cf_cm_read_job_ids := cf_cm_read_job_ids c - {i}\<rparr>, [ToPeer (MsgError i (Bail err) file_num)]) else (c, []))"

definition handle_file_digest_from_cm :: "int \<Rightarrow> int \<Rightarrow> nat \<Rightarrow> nat \<Rightarrow> bool \<Rightarrow> conn_ft \<Rightarrow> conn_out list" where
  "handle_file_digest_from_cm i file_num last_modified file_size is_resume c =
     (if i \<in> cf_cm_read_job_ids c
      then [ToPeer (MsgDigest \<lparr>td_id = i, td_file_num = file_num, td_last_modified = last_modified, td_file_size = file_size,
              td_is_identical = False, td_transferred_size = 0, td_is_resume = is_resume\<rparr>)]
      else [])"

definition handle_all_files_result :: "int \<Rightarrow> string + file_directory \<Rightarrow> conn_out list" where
  "handle_all_files_result i result =
     (case result of
        Inl err \<Rightarrow> [ToPeer (MsgError i (Bail err) (- 1))]
      | Inr fd \<Rightarrow> [ToPeer (MsgDir (di_id fd) (di_path fd) (di_entries fd))])"

fun relay_cm :: "fa_env \<Rightarrow> cm_out \<Rightarrow> conn_ft \<Rightarrow> conn_ft \<times> conn_out list" where
  "relay_cm env (RawMsg m) c = (c, [ToPeer m])"
| "relay_cm env (RawDigest d is_upload) c = (c, [ToPeerDigest d is_upload])"
| "relay_cm env (RawDir fd) c = (c, [ToPeer (MsgDir (di_id fd) (di_path fd) (di_entries fd))])"
| "relay_cm env (RawEmptyDirs path fds) c = (c, [ToPeerEmptyDirs path fds])"
| "relay_cm env (ReadJobInitResult i file_num hidden conn_id result) c =
     (if conn_id = cf_id c then handle_read_job_init_result env i result c else (c, []))"
| "relay_cm env (FileBlockFromCM i file_num data compressed conn_id) c =
     (c, if conn_id = cf_id c
         then handle_file_block_from_cm \<lparr>bk_id = i, bk_file_num = file_num, bk_data = data, bk_compressed = compressed\<rparr> c
         else [])"
| "relay_cm env (FileReadDone i file_num conn_id) c = (if conn_id = cf_id c then handle_file_read_done i file_num c else (c, []))"
| "relay_cm env (FileReadError i file_num err conn_id) c =
     (if conn_id = cf_id c then handle_file_read_error i file_num err c else (c, []))"
| "relay_cm env (FileDigestFromCM i file_num last_modified file_size is_resume conn_id) c =
     (c, if conn_id = cf_id c then handle_file_digest_from_cm i file_num last_modified file_size is_resume c else [])"
| "relay_cm env (AllFilesResult i conn_id path result) c = (c, if conn_id = cf_id c then handle_all_files_result i result else [])"
| "relay_cm env (CmLog l) c = (c, [])"

end
