(* ===== verification/F32.thy ===== *)
theory F32
  imports Complex_Main Prelude
begin

text \<open>
  The binary32 arithmetic of the sources (\<^verbatim>\<open>f32\<close>) on the rationals: a finite value is the rational
  it denotes, and an operation is the exact result rounded to nearest, ties to even, with 24
  significant bits and the subnormal limit. Overflow to infinity and NaN do not arise in the code
  modelled with it: the operands are bounded and divisors are non-zero.
\<close>

type_synonym f32 = rat

fun bit_len :: "nat \<Rightarrow> nat" where
  "bit_len n = (if n = 0 then 0 else Suc (bit_len (n div 2)))"

declare bit_len.simps [simp del]

definition pow2 :: "int \<Rightarrow> rat" where
  "pow2 e = 2 powi e"

text \<open>The binary exponent of a positive rational.\<close>

definition exponent :: "rat \<Rightarrow> int" where
  "exponent x =
     (case quotient_of x of (n, d) \<Rightarrow>
        let k = int (bit_len (nat n)) - int (bit_len (nat d))
        in if pow2 k \<le> x then k else k - 1)"

definition round_half_even :: "rat \<Rightarrow> int" where
  "round_half_even m =
     (let f = floor m; d = m - of_int f
      in if d < 1 / 2 then f else if 1 / 2 < d then f + 1 else if even f then f else f + 1)"

definition f32_round :: "rat \<Rightarrow> f32" where
  "f32_round x =
     (if x = 0 then 0
      else let e = max (exponent \<bar>x\<bar> - 23) (- 149)
           in of_int (round_half_even (x / pow2 e)) * pow2 e)"

definition f32_mul :: "f32 \<Rightarrow> f32 \<Rightarrow> f32" where "f32_mul a b = f32_round (a * b)"
definition f32_div :: "f32 \<Rightarrow> f32 \<Rightarrow> f32" where "f32_div a b = f32_round (a / b)"
definition f32_add :: "f32 \<Rightarrow> f32 \<Rightarrow> f32" where "f32_add a b = f32_round (a + b)"
definition f32_sub :: "f32 \<Rightarrow> f32 \<Rightarrow> f32" where "f32_sub a b = f32_round (a - b)"

text \<open>\<^verbatim>\<open>n as f32\<close>, and \<^verbatim>\<open>x as u32\<close> (towards zero, saturating).\<close>

definition f32_of_nat :: "nat \<Rightarrow> f32" where "f32_of_nat n = f32_round (of_nat n)"

definition f32_to_u32 :: "f32 \<Rightarrow> nat" where
  "f32_to_u32 x = (if x \<le> 0 then 0 else min (nat (floor x)) (2 ^ 32 - 1))"

text \<open>\<^verbatim>\<open>clamp\<close> on numbers asserts that the bounds are in order.\<close>

definition rust_clamp :: "'a :: linorder \<Rightarrow> 'a \<Rightarrow> 'a \<Rightarrow> 'a rust" where
  "rust_clamp lo hi x = (if lo \<le> hi then Ret (max lo (min hi x)) else Panic)"

lemma rust_clamp_bounds: "rust_clamp lo hi x = Ret y \<Longrightarrow> lo \<le> y \<and> y \<le> hi"
  by (auto simp: rust_clamp_def split: if_splits)

lemma rust_clamp_total: "lo \<le> hi \<Longrightarrow> rust_clamp lo hi x = Ret (max lo (min hi x))"
  by (simp add: rust_clamp_def)

subsection \<open>Rounding is idempotent\<close>

lemma pow2_pos [simp]: "0 < pow2 e"
  by (simp add: pow2_def)

lemma pow2_nonzero [simp]: "pow2 e \<noteq> 0"
  by (simp add: pow2_def)

lemma pow2_abs [simp]: "\<bar>pow2 e\<bar> = pow2 e"
  by (simp add: less_imp_le)

lemma pow2_add: "pow2 (a + b) = pow2 a * pow2 b"
  by (simp add: pow2_def power_int_add)

lemma pow2_mono: "a \<le> b \<Longrightarrow> pow2 a \<le> pow2 b"
  by (simp add: pow2_def power_int_increasing)

lemma pow2_less_imp: "pow2 a < pow2 b \<Longrightarrow> a < b"
  using pow2_mono [of b a] by force

lemma pow2_nat: "0 \<le> e \<Longrightarrow> pow2 e = of_int (2 ^ nat e)"
  by (simp add: pow2_def power_int_def)

lemma bit_len_bounds: "0 < n \<Longrightarrow> 2 ^ (bit_len n - 1) \<le> n \<and> n < 2 ^ bit_len n \<and> 0 < bit_len n"
proof (induction n rule: bit_len.induct)
  case (1 n)
  show ?case
  proof (cases "n div 2 = 0")
    case True
    with "1.prems" have "n = 1" by linarith
    then show ?thesis by (simp add: bit_len.simps)
  next
    case False
    let ?k = "bit_len (n div 2)"
    have IH: "2 ^ (?k - 1) \<le> n div 2" "n div 2 < 2 ^ ?k" "0 < ?k"
      using "1.IH" "1.prems" False by auto
    have "2 * 2 ^ (?k - 1) = (2 :: nat) ^ ?k" using IH(3) by (metis power_minus_mult mult.commute)
    then have "2 ^ ?k \<le> n" "n < 2 ^ Suc ?k" using IH(1,2) by auto
    then show ?thesis using "1.prems" by (simp add: bit_len.simps [of n])
  qed
qed

lemma exponent_bounds:
  assumes "0 < x"
  shows "pow2 (exponent x) \<le> x \<and> x < pow2 (exponent x + 1)"
proof -
  obtain n d where q: "quotient_of x = (n, d)" by (cases "quotient_of x")
  have d: "0 < d" and x: "x = of_int n / of_int d"
    using quotient_of_denom_pos [OF q] quotient_of_div [OF q] by simp_all
  have n: "0 < n" using assms d x by (simp add: zero_less_divide_iff)
  let ?a = "bit_len (nat n)" and ?b = "bit_len (nat d)"
  have na: "(2 :: int) ^ (?a - 1) \<le> n" "n < 2 ^ ?a" "0 < ?a"
    using bit_len_bounds [of "nat n"] n by (auto simp: nat_less_iff le_nat_iff)
  have nb: "(2 :: int) ^ (?b - 1) \<le> d" "d < 2 ^ ?b" "0 < ?b"
    using bit_len_bounds [of "nat d"] d by (auto simp: nat_less_iff le_nat_iff)
  let ?k = "int ?a - int ?b"
  have p: "of_int (2 ^ j) = pow2 (int j)" for j by (simp add: pow2_def)
  have n1: "pow2 (int ?a - 1) \<le> of_int n" "of_int n < pow2 (int ?a)"
    using na p [of "?a - 1"] p [of ?a] by (metis of_int_le_iff of_nat_1 of_nat_diff Suc_leI One_nat_def) (metis na(2) p of_int_less_iff)
  have d1: "pow2 (int ?b - 1) \<le> of_int d" "of_int d < pow2 (int ?b)"
    using nb p [of "?b - 1"] p [of ?b] by (metis of_int_le_iff of_nat_1 of_nat_diff Suc_leI One_nat_def) (metis nb(2) p of_int_less_iff)
  have "pow2 (?k - 1) < x"
  proof -
    have "pow2 (?k - 1) * of_int d < pow2 (?k - 1) * pow2 (int ?b)" using d1(2) by simp
    also have "\<dots> = pow2 (int ?a - 1)" by (simp flip: pow2_add)
    finally have "pow2 (?k - 1) * of_int d < of_int n" using n1(1) by simp
    then show ?thesis using d by (simp add: x pos_less_divide_eq)
  qed
  moreover have "x < pow2 (?k + 1)"
  proof -
    have "pow2 (int ?a) = pow2 (?k + 1) * pow2 (int ?b - 1)" by (simp flip: pow2_add)
    also have "\<dots> \<le> pow2 (?k + 1) * of_int d" using d1(1) by simp
    finally have "of_int n < pow2 (?k + 1) * of_int d" using n1(2) by simp
    then show ?thesis using d by (simp add: x pos_divide_less_eq)
  qed
  ultimately show ?thesis
    by (auto simp: exponent_def q Let_def)
qed

text \<open>The values a binary32 can hold.\<close>

definition is_f32 :: "rat \<Rightarrow> bool" where
  "is_f32 x \<longleftrightarrow> (\<exists>m e. x = of_int m * pow2 e \<and> \<bar>m\<bar> < 2 ^ 24 \<and> - 149 \<le> e)"

lemma round_half_even_int [simp]: "round_half_even (of_int m) = m"
  by (simp add: round_half_even_def)

lemma floor_abs_bounds: "\<bar>y :: rat\<bar> < of_int k \<Longrightarrow> - k \<le> floor y \<and> floor y < k"
  by (auto simp: le_floor_iff floor_less_iff abs_less_iff)

lemma round_half_even_cases: "round_half_even m \<in> {floor m, floor m + 1}"
  by (auto simp: round_half_even_def Let_def)

lemma round_half_even_bound:
  assumes "\<bar>y\<bar> < of_int k"
  shows "\<bar>round_half_even y\<bar> \<le> k"
proof -
  have "round_half_even y = floor y \<or> round_half_even y = floor y + 1"
    using round_half_even_cases [of y] by simp
  then show ?thesis using floor_abs_bounds [OF assms] by arith
qed

lemma f32_round_id:
  assumes "is_f32 x"
  shows "f32_round x = x"
proof (cases "x = 0")
  case True
  then show ?thesis by (simp add: f32_round_def)
next
  case False
  obtain m e where x: "x = of_int m * pow2 e" and m: "\<bar>m\<bar> < 2 ^ 24" and e: "- 149 \<le> e"
    using assms by (auto simp: is_f32_def)
  define E where "E = max (exponent \<bar>x\<bar> - 23) (- 149)"
  have "\<bar>x\<bar> = of_int \<bar>m\<bar> * pow2 e" by (simp add: x abs_mult)
  also have "\<dots> < pow2 24 * pow2 e"
    using m pow2_nat [of 24] by (intro mult_strict_right_mono) (simp_all flip: of_int_less_iff)
  finally have "pow2 (exponent \<bar>x\<bar>) < pow2 (24 + e)"
    using exponent_bounds [of "\<bar>x\<bar>"] False by (simp add: pow2_add)
  then have "exponent \<bar>x\<bar> < 24 + e" by (rule pow2_less_imp)
  with e have "E \<le> e" by (simp add: E_def)
  then have "pow2 e = of_int (2 ^ nat (e - E)) * pow2 E"
    using pow2_nat [of "e - E"] pow2_add [of "e - E" E] by simp
  then have x': "x = of_int (m * 2 ^ nat (e - E)) * pow2 E" by (simp add: x)
  then have "x / pow2 E = of_int (m * 2 ^ nat (e - E))"
    by (simp add: nonzero_divide_eq_eq)
  then have "of_int (round_half_even (x / pow2 E)) * pow2 E = x"
    using x' by (metis round_half_even_int)
  then show ?thesis using False by (simp add: f32_round_def Let_def E_def)
qed

lemma is_f32_round: "is_f32 (f32_round x)"
proof (cases "x = 0")
  case True
  then show ?thesis by (auto simp: f32_round_def is_f32_def intro!: exI [of _ 0])
next
  case False
  let ?E = "max (exponent \<bar>x\<bar> - 23) (- 149)" and ?m = "round_half_even (x / pow2 (max (exponent \<bar>x\<bar> - 23) (- 149)))"
  have r: "f32_round x = of_int ?m * pow2 ?E" using False by (simp add: f32_round_def Let_def)
  have "\<bar>x\<bar> < pow2 (exponent \<bar>x\<bar> + 1)" using exponent_bounds [of "\<bar>x\<bar>"] False by simp
  also have "\<dots> \<le> pow2 (24 + ?E)" by (rule pow2_mono) simp
  finally have "\<bar>x / pow2 ?E\<bar> < of_int (2 ^ 24)"
    using pow2_nat [of 24] by (simp add: pow2_add pos_divide_less_eq)
  then have m: "\<bar>?m\<bar> \<le> 2 ^ 24" by (rule round_half_even_bound)
  show ?thesis
  proof (cases "\<bar>?m\<bar> = 2 ^ 24")
    case True
    then have "?m = sgn ?m * 2 ^ 24" by (metis abs_mult_sgn mult.commute)
    then have "f32_round x = of_int (sgn ?m * 2 ^ 23) * pow2 (?E + 1)"
      unfolding r pow2_add by (simp add: pow2_def)
    moreover have "\<bar>sgn ?m * 2 ^ 23\<bar> < (2 :: int) ^ 24" by (simp add: abs_mult abs_sgn_eq)
    moreover have "- 149 \<le> ?E + 1" by linarith
    ultimately show ?thesis unfolding is_f32_def by blast
  next
    case False
    with m r show ?thesis unfolding is_f32_def by (intro exI conjI) auto
  qed
qed

lemma f32_round_idem [simp]: "f32_round (f32_round x) = f32_round x"
  by (rule f32_round_id) (rule is_f32_round)

text \<open>Spot checks against the bit patterns of the literals \<^verbatim>\<open>0.67\<close> and \<^verbatim>\<open>0.1\<close>.\<close>

lemma f32_round_067: "f32_round (67 / 100) = 11240735 / 16777216"
  by code_simp

lemma f32_round_01: "f32_round (1 / 10) = 13421773 / 134217728"
  by code_simp

end
