(* ===== verification/Video_QoS.thy ===== *)
theory Video_QoS
  imports F32
begin

text \<open>
  The quality-of-service controller of the video services (\<^verbatim>\<open>src/server/video_qos.rs\<close>, with
  \<^verbatim>\<open>Quality\<close> of \<^verbatim>\<open>libs/scrap/src/common/codec.rs\<close>): per-user delay histories and round-trip
  estimates, the frame rate derived from them, and the bitrate ratio. \<^verbatim>\<open>u32\<close> values are \<^typ>\<open>nat\<close>
  with the wrap-around of sums written out, \<^verbatim>\<open>f32\<close> values are rationals rounded as in \<open>F32\<close>,
  \<^verbatim>\<open>Instant\<close>s are milliseconds and the current time is an argument, and a \<^verbatim>\<open>clamp\<close> with crossed
  bounds is \<^const>\<open>Panic\<close>. Hash maps are association lists in iteration order.
\<close>

subsection \<open>Quality\<close>

datatype quality = Best | Balanced | Low | Custom f32

definition BR_BEST :: f32 where "BR_BEST = f32_round (3 / 2)"
definition BR_BALANCED :: f32 where "BR_BALANCED = f32_round (67 / 100)"
definition BR_SPEED :: f32 where "BR_SPEED = f32_round (1 / 2)"

definition quality_ratio :: "quality \<Rightarrow> f32" where
  "quality_ratio q =
     (case q of Best \<Rightarrow> BR_BEST | Balanced \<Rightarrow> BR_BALANCED | Low \<Rightarrow> BR_SPEED | Custom v \<Rightarrow> v)"

subsection \<open>Constants\<close>

definition FPS :: nat where "FPS = 30"
definition MIN_FPS :: nat where "MIN_FPS = 1"
definition MAX_FPS :: nat where "MAX_FPS = 120"
definition INIT_FPS :: nat where "INIT_FPS = 15"

definition BR_MAX :: f32 where "BR_MAX = f32_round 40"
definition BR_MIN :: f32 where "BR_MIN = f32_round (1 / 5)"
definition BR_MIN_HIGH_RESOLUTION :: f32 where "BR_MIN_HIGH_RESOLUTION = f32_round (1 / 10)"
definition MAX_BR_MULTIPLE :: f32 where "MAX_BR_MULTIPLE = f32_round 1"

definition HISTORY_DELAY_LEN :: nat where "HISTORY_DELAY_LEN = 2"
definition ADJUST_RATIO_INTERVAL :: nat where "ADJUST_RATIO_INTERVAL = 3"
definition DYNAMIC_SCREEN_THRESHOLD :: nat where "DYNAMIC_SCREEN_THRESHOLD = 2"
definition DELAY_THRESHOLD_150MS :: nat where "DELAY_THRESHOLD_150MS = 150"

lemmas qos_consts = FPS_def MIN_FPS_def MAX_FPS_def INIT_FPS_def HISTORY_DELAY_LEN_def
  ADJUST_RATIO_INTERVAL_def DYNAMIC_SCREEN_THRESHOLD_def DELAY_THRESHOLD_150MS_def

definition u32_add :: "nat \<Rightarrow> nat \<Rightarrow> nat" where "u32_add a b = (a + b) mod 2 ^ 32"

subsection \<open>Round-trip estimation\<close>

record rtt_calculator =
  rtt_min :: "nat option"
  rtt_window_min :: "nat option"
  rtt_smoothed :: "nat option"
  rtt_samples :: "nat list"

definition rtt_default :: rtt_calculator where
  "rtt_default = \<lparr>rtt_min = None, rtt_window_min = None, rtt_smoothed = None, rtt_samples = []\<rparr>"

definition WINDOW_SAMPLES :: nat where "WINDOW_SAMPLES = 60"
definition MIN_SAMPLES :: nat where "MIN_SAMPLES = 10"
definition ALPHA :: f32 where "ALPHA = f32_round (1 / 2)"

definition list_min :: "nat list \<Rightarrow> nat option" where
  "list_min xs = (case xs of [] \<Rightarrow> None | y # ys \<Rightarrow> Some (fold min ys y))"

definition list_max :: "nat list \<Rightarrow> nat option" where
  "list_max xs = (case xs of [] \<Rightarrow> None | y # ys \<Rightarrow> Some (fold max ys y))"

definition rtt_update :: "nat \<Rightarrow> rtt_calculator \<Rightarrow> rtt_calculator" where
  "rtt_update delay r =
     (let r = (case rtt_min r of
                 Some min_rtt \<Rightarrow> if delay < min_rtt then r\<lparr>rtt_min := Some delay\<rparr> else r
               | None \<Rightarrow> r\<lparr>rtt_min := Some delay\<rparr>);
          samples = (if length (rtt_samples r) \<ge> WINDOW_SAMPLES then tl (rtt_samples r) else rtt_samples r);
          r = r\<lparr>rtt_samples := samples @ [delay]\<rparr>;
          r = r\<lparr>rtt_window_min := list_min (rtt_samples r)\<rparr>
      in if length (rtt_samples r) \<ge> WINDOW_SAMPLES
         then (case (rtt_min r, rtt_window_min r) of
                 (Some mn, Some window_min) \<Rightarrow>
                   let new_srtt = f32_to_u32 (f32_add (f32_mul (f32_sub 1 ALPHA) (f32_of_nat mn))
                                                      (f32_mul ALPHA (f32_of_nat window_min)))
                   in r\<lparr>rtt_smoothed := Some new_srtt\<rparr>
               | _ \<Rightarrow> r)
         else r)"

definition get_rtt :: "rtt_calculator \<Rightarrow> nat option" where
  "get_rtt r =
     (case rtt_smoothed r of
        Some rtt \<Rightarrow> Some rtt
      | None \<Rightarrow> if length (rtt_samples r) \<ge> MIN_SAMPLES then rtt_min r else None)"

subsection \<open>Users and displays\<close>

record user_delay =
  ud_response_delayed :: bool
  ud_delay_history :: "nat list"
  ud_fps :: "nat option"
  ud_rtt :: rtt_calculator
  ud_quick_increase_fps_count :: nat
  ud_increase_fps_count :: nat

definition add_delay :: "nat \<Rightarrow> user_delay \<Rightarrow> user_delay" where
  "add_delay delay u =
     (let u = u\<lparr>ud_rtt := rtt_update delay (ud_rtt u)\<rparr>;
          h = (if length (ud_delay_history u) > HISTORY_DELAY_LEN then tl (ud_delay_history u)
               else ud_delay_history u)
      in u\<lparr>ud_delay_history := h @ [delay]\<rparr>)"

definition avg_delay :: "user_delay \<Rightarrow> nat" where
  "avg_delay u =
     (let len = length (ud_delay_history u) in
      if len > 0 then
        let avg = (sum_list (ud_delay_history u) mod 2 ^ 32) div len
        in case get_rtt (ud_rtt u) of
             Some rtt \<Rightarrow> if avg > rtt then avg - rtt else avg
           | None \<Rightarrow> avg
      else DELAY_THRESHOLD_150MS)"

record user_data =
  us_auto_adjust_fps :: "nat option"
  us_custom_fps :: "nat option"
  us_quality :: "(int \<times> quality) option"
  us_delay :: user_delay
  us_record :: bool

definition user_delay_default :: user_delay where
  "user_delay_default = \<lparr>ud_response_delayed = False, ud_delay_history = [], ud_fps = None,
     ud_rtt = rtt_default, ud_quick_increase_fps_count = 0, ud_increase_fps_count = 0\<rparr>"

definition user_default :: user_data where
  "user_default = \<lparr>us_auto_adjust_fps = None, us_custom_fps = None, us_quality = None,
     us_delay = user_delay_default, us_record = False\<rparr>"

record display_data =
  dd_send_counter :: nat
  dd_support_changing_quality :: bool

definition display_default :: display_data where
  "display_default = \<lparr>dd_send_counter = 0, dd_support_changing_quality = False\<rparr>"

record video_qos =
  vq_fps :: nat
  vq_ratio :: f32
  vq_users :: "(int, user_data) hashmap"
  vq_displays :: "(string, display_data) hashmap"
  vq_bitrate_store :: nat
  vq_adjust_ratio_instant :: nat
  vq_abr_config :: bool
  vq_new_user_instant :: nat

definition qos_default :: "nat \<Rightarrow> video_qos" where
  "qos_default now = \<lparr>vq_fps = FPS, vq_ratio = BR_BALANCED, vq_users = [], vq_displays = [],
     vq_bitrate_store = 0, vq_adjust_ratio_instant = now, vq_abr_config = True, vq_new_user_instant = now\<rparr>"

text \<open>\<^verbatim>\<open>HashMap::get_mut\<close> followed by an assignment through the reference.\<close>

definition modify_user :: "int \<Rightarrow> (user_data \<Rightarrow> user_data) \<Rightarrow> video_qos \<Rightarrow> video_qos" where
  "modify_user i f q =
     (case hm_get (vq_users q) i of Some u \<Rightarrow> q\<lparr>vq_users := hm_insert i (f u) (vq_users q)\<rparr> | None \<Rightarrow> q)"

definition modify_display :: "string \<Rightarrow> (display_data \<Rightarrow> display_data) \<Rightarrow> video_qos \<Rightarrow> video_qos" where
  "modify_display n f q =
     (case hm_get (vq_displays q) n of
        Some d \<Rightarrow> q\<lparr>vq_displays := hm_insert n (f d) (vq_displays q)\<rparr> | None \<Rightarrow> q)"

subsection \<open>Basic functionality\<close>

definition qos_fps :: "video_qos \<Rightarrow> nat" where
  "qos_fps q = (if vq_fps q \<ge> MIN_FPS \<and> vq_fps q \<le> MAX_FPS then vq_fps q else FPS)"

text \<open>\<^verbatim>\<open>spf\<close> in seconds, as the argument of \<^verbatim>\<open>Duration::from_secs_f32\<close>.\<close>

definition qos_spf :: "video_qos \<Rightarrow> f32" where
  "qos_spf q = f32_div 1 (f32_of_nat (qos_fps q))"

definition store_bitrate :: "nat \<Rightarrow> video_qos \<Rightarrow> video_qos" where
  "store_bitrate b q = q\<lparr>vq_bitrate_store := b\<rparr>"

definition qos_bitrate :: "video_qos \<Rightarrow> nat" where
  "qos_bitrate q = vq_bitrate_store q"

definition qos_get_ratio :: "video_qos \<Rightarrow> f32 \<times> video_qos" where
  "qos_get_ratio q =
     (let q = (if vq_ratio q < BR_MIN_HIGH_RESOLUTION \<or> vq_ratio q > BR_MAX
               then q\<lparr>vq_ratio := BR_BALANCED\<rparr> else q)
      in (vq_ratio q, q))"

definition qos_record :: "video_qos \<Rightarrow> bool" where
  "qos_record q = list_ex (\<lambda>u. us_record (snd u)) (vq_users q)"

definition set_support_changing_quality :: "string \<Rightarrow> bool \<Rightarrow> video_qos \<Rightarrow> video_qos" where
  "set_support_changing_quality n support q =
     modify_display n (\<lambda>d. d\<lparr>dd_support_changing_quality := support\<rparr>) q"

definition in_vbr_state :: "video_qos \<Rightarrow> bool" where
  "in_vbr_state q \<longleftrightarrow>
     vq_abr_config q \<and> list_all (\<lambda>e. dd_support_changing_quality (snd e)) (vq_displays q)"

subsection \<open>Common adjust functions\<close>

definition new_display :: "string \<Rightarrow> video_qos \<Rightarrow> video_qos" where
  "new_display n q = q\<lparr>vq_displays := hm_insert n display_default (vq_displays q)\<rparr>"

definition remove_display :: "string \<Rightarrow> video_qos \<Rightarrow> video_qos" where
  "remove_display n q = q\<lparr>vq_displays := hm_remove n (vq_displays q)\<rparr>"

definition user_highest_fps :: "user_data \<Rightarrow> nat" where
  "user_highest_fps u =
     (let fps = (case us_custom_fps u of Some f \<Rightarrow> f | None \<Rightarrow> FPS)
      in case us_auto_adjust_fps u of
           Some a \<Rightarrow> if fps = 0 \<or> a < fps then a else fps
         | None \<Rightarrow> fps)"

definition highest_fps :: "video_qos \<Rightarrow> nat rust" where
  "highest_fps q =
     (let fps = (case list_min (filter (\<lambda>u. u \<ge> MIN_FPS) (map (\<lambda>u. user_highest_fps (snd u)) (vq_users q))) of
                   Some f \<Rightarrow> f | None \<Rightarrow> FPS)
      in rust_clamp MIN_FPS MAX_FPS fps)"

text \<open>
  \<^verbatim>\<open>max_by\<close> on the times, over the users with a quality: the last of the greatest elements, in
  iteration order.
\<close>

fun latest :: "(int \<times> quality) option \<Rightarrow> (int \<times> user_data) list \<Rightarrow> (int \<times> quality) option" where
  "latest best [] = best"
| "latest best (u # us) =
     (case us_quality (snd u) of
        None \<Rightarrow> latest best us
      | Some q \<Rightarrow>
          (case best of
             None \<Rightarrow> latest (Some q) us
           | Some b \<Rightarrow> if fst b > fst q then latest (Some b) us else latest (Some q) us))"

definition latest_quality :: "video_qos \<Rightarrow> quality" where
  "latest_quality q = (case latest None (vq_users q) of Some b \<Rightarrow> snd b | None \<Rightarrow> Balanced)"

definition ratio_min :: "quality \<Rightarrow> f32 option \<Rightarrow> f32" where
  "ratio_min target_quality ratio_1mbps =
     (case target_quality of
        Best \<Rightarrow>
          let mn = f32_div BR_BEST (f32_round (5 / 2));
              mn = (case ratio_1mbps of Some r \<Rightarrow> if mn > r then r else mn | None \<Rightarrow> mn)
          in max mn BR_MIN
      | Balanced \<Rightarrow>
          let mn = min (f32_div BR_BALANCED (f32_round 2)) (f32_round (2 / 5));
              mn = (case ratio_1mbps of Some r \<Rightarrow> if mn > r then r else mn | None \<Rightarrow> mn)
          in max mn BR_MIN_HIGH_RESOLUTION
      | Low \<Rightarrow> BR_MIN_HIGH_RESOLUTION
      | Custom _ \<Rightarrow> BR_MIN_HIGH_RESOLUTION)"

definition ratio_step :: "nat \<Rightarrow> bool \<Rightarrow> f32 \<Rightarrow> f32" where
  "ratio_step max_delay dynamic_screen current_ratio =
     (if max_delay < 50 then
        (if dynamic_screen then f32_mul current_ratio (f32_round (115 / 100)) else current_ratio)
      else if max_delay < 100 then
        (if dynamic_screen then f32_mul current_ratio (f32_round (11 / 10)) else current_ratio)
      else if max_delay < DELAY_THRESHOLD_150MS then
        (if dynamic_screen then f32_mul current_ratio (f32_round (105 / 100)) else current_ratio)
      else if max_delay < 200 then f32_mul current_ratio (f32_round (95 / 100))
      else if max_delay < 300 then f32_mul current_ratio (f32_round (9 / 10))
      else if max_delay < 500 then f32_mul current_ratio (f32_round (85 / 100))
      else f32_mul current_ratio (f32_round (8 / 10)))"

definition adjust_ratio :: "nat \<Rightarrow> bool \<Rightarrow> video_qos \<Rightarrow> video_qos rust" where
  "adjust_ratio now dynamic_screen q =
     (if \<not> in_vbr_state q then Ret q
      else case list_max (map (\<lambda>u. avg_delay (us_delay (snd u))) (vq_users q)) of
        None \<Rightarrow> Ret q
      | Some max_delay \<Rightarrow>
          let target_quality = latest_quality q;
              target_ratio = quality_ratio (latest_quality q);
              current_ratio = vq_ratio q;
              current_bitrate = qos_bitrate q;
              ratio_1mbps =
                (if current_bitrate > 0
                 then Some (max (f32_div (f32_mul current_ratio (f32_round 1000)) (f32_of_nat current_bitrate))
                                BR_MIN_HIGH_RESOLUTION)
                 else None);
              ratio_add_150kbps =
                (if current_bitrate > 0
                 then Some (f32_div (f32_mul (f32_of_nat (u32_add current_bitrate 150)) current_ratio)
                                    (f32_of_nat current_bitrate))
                 else None);
              mn = ratio_min target_quality ratio_1mbps;
              mx = f32_mul target_ratio MAX_BR_MULTIPLE;
              v = ratio_step max_delay dynamic_screen current_ratio;
              v = (case ratio_add_150kbps of
                     Some r \<Rightarrow> if v > r \<and> r > current_ratio \<and> current_ratio \<ge> BR_SPEED then r else v
                   | None \<Rightarrow> v)
          in rust_bind (rust_clamp mn mx v) (\<lambda>r.
               Ret (q\<lparr>vq_ratio := r, vq_adjust_ratio_instant := now\<rparr>)))"

definition adjust_fps :: "nat \<Rightarrow> video_qos \<Rightarrow> video_qos rust" where
  "adjust_fps now q =
     rust_bind (highest_fps q) (\<lambda>highest.
       let fps = (case list_min (map (\<lambda>u. case ud_fps (us_delay (snd u)) of Some f \<Rightarrow> f | None \<Rightarrow> INIT_FPS)
                                     (vq_users q)) of
                    Some f \<Rightarrow> f | None \<Rightarrow> INIT_FPS);
           fps = (if list_ex (\<lambda>u. ud_response_delayed (us_delay (snd u))) (vq_users q)
                  then (if fps > MIN_FPS + 1 then MIN_FPS + 1 else fps) else fps);
           fps = (if (now - vq_new_user_instant q) div 1000 < 1
                  then (if fps > INIT_FPS then INIT_FPS else fps) else fps)
       in rust_bind (rust_clamp MIN_FPS highest fps) (\<lambda>f. Ret (q\<lparr>vq_fps := f\<rparr>)))"

definition update_display_data :: "nat \<Rightarrow> string \<Rightarrow> nat \<Rightarrow> video_qos \<Rightarrow> video_qos rust" where
  "update_display_data now n send_counter q =
     (let q = modify_display n (\<lambda>d. d\<lparr>dd_send_counter := (dd_send_counter d + send_counter) mod 2 ^ 32\<rparr>) q
      in rust_bind (adjust_fps now q) (\<lambda>q.
         if in_vbr_state q then
           (if (now - vq_adjust_ratio_instant q) div 1000 \<ge> ADJUST_RATIO_INTERVAL then
              let dynamic_screen = list_ex (\<lambda>d. dd_send_counter (snd d)
                    \<ge> ADJUST_RATIO_INTERVAL * DYNAMIC_SCREEN_THRESHOLD) (vq_displays q);
                  q = q\<lparr>vq_displays := map (\<lambda>(k, d). (k, d\<lparr>dd_send_counter := 0\<rparr>)) (vq_displays q)\<rparr>
              in adjust_ratio now dynamic_screen q
            else Ret q)
         else Ret (q\<lparr>vq_ratio := quality_ratio (latest_quality q)\<rparr>)))"

subsection \<open>User session management\<close>

definition on_connection_open :: "nat \<Rightarrow> string \<Rightarrow> int \<Rightarrow> video_qos \<Rightarrow> video_qos" where
  "on_connection_open now enable_abr i q =
     q\<lparr>vq_users := hm_insert i user_default (vq_users q),
       vq_abr_config := (enable_abr \<noteq> ''N''),
       vq_new_user_instant := now\<rparr>"

definition on_connection_close :: "nat \<Rightarrow> int \<Rightarrow> video_qos \<Rightarrow> video_qos" where
  "on_connection_close now i q =
     (let q = q\<lparr>vq_users := hm_remove i (vq_users q)\<rparr>
      in if vq_users q = [] then qos_default now else q)"

definition user_custom_fps :: "int \<Rightarrow> nat \<Rightarrow> video_qos \<Rightarrow> video_qos" where
  "user_custom_fps i fps q =
     (if fps < MIN_FPS \<or> fps > MAX_FPS then q else modify_user i (\<lambda>u. u\<lparr>us_custom_fps := Some fps\<rparr>) q)"

definition user_auto_adjust_fps :: "int \<Rightarrow> nat \<Rightarrow> video_qos \<Rightarrow> video_qos" where
  "user_auto_adjust_fps i fps q =
     (if fps < MIN_FPS \<or> fps > MAX_FPS then q else modify_user i (\<lambda>u. u\<lparr>us_auto_adjust_fps := Some fps\<rparr>) q)"

text \<open>\<^verbatim>\<open>ImageQuality\<close>: Low = 2, Balanced = 3, Best = 4; \<open>(q div 256) mod 4096\<close> is \<^verbatim>\<open>q >> 8 & 0xFFF\<close>.\<close>

definition convert_quality :: "int \<Rightarrow> quality rust" where
  "convert_quality q =
     (if q = 3 then Ret Balanced
      else if q = 2 then Ret Low
      else if q = 4 then Ret Best
      else rust_bind (rust_clamp BR_MIN BR_MAX
                        (f32_div (f32_of_nat (nat ((q div 256) mod 4096 * 2))) (f32_round 100)))
             (\<lambda>b. Ret (Custom b)))"

definition user_image_quality :: "int \<Rightarrow> int \<Rightarrow> int \<Rightarrow> video_qos \<Rightarrow> video_qos rust" where
  "user_image_quality time i image_quality q =
     rust_bind (convert_quality image_quality) (\<lambda>c.
       case hm_get (vq_users q) i of
         Some _ \<Rightarrow>
           (let q = modify_user i (\<lambda>u. u\<lparr>us_quality := Some (time, c)\<rparr>) q
            in Ret (q\<lparr>vq_ratio := quality_ratio (latest_quality q)\<rparr>))
       | None \<Rightarrow> Ret q)"

definition user_record :: "int \<Rightarrow> bool \<Rightarrow> video_qos \<Rightarrow> video_qos" where
  "user_record i v q = modify_user i (\<lambda>u. u\<lparr>us_record := v\<rparr>) q"

text \<open>The frame rate proposed for a measured average delay, and the updated counters.\<close>

definition fps_for_delay ::
  "nat \<Rightarrow> nat \<Rightarrow> nat \<Rightarrow> nat \<Rightarrow> nat \<Rightarrow> user_delay \<Rightarrow> nat \<times> user_delay" where
  "fps_for_delay min_fps normal_fps avg old_avg fps u =
     (if avg < 50 then
        let u = u\<lparr>ud_quick_increase_fps_count := ud_quick_increase_fps_count u + 1\<rparr>;
            step = (if fps < normal_fps then 1 else 0)
        in if ud_quick_increase_fps_count u \<ge> 3
           then (max min_fps (u32_add fps 5), u\<lparr>ud_quick_increase_fps_count := 0\<rparr>)
           else (max min_fps (u32_add fps step), u)
      else if avg < 100 then
        let step = (if avg < old_avg then if fps < normal_fps then 1 else 0 else 0)
        in (max min_fps (u32_add fps step), u)
      else if avg < DELAY_THRESHOLD_150MS then (max min_fps fps, u)
      else
        let devide_fps = f32_to_u32 (of_int (ceiling (f32_div (f32_of_nat fps)
              (f32_div (f32_of_nat avg) (f32_of_nat DELAY_THRESHOLD_150MS)))));
            dividend_ms = DELAY_THRESHOLD_150MS * min_fps
        in if avg < 200 then (max min_fps devide_fps, u)
           else if avg < 300 then (min min_fps devide_fps, u)
           else if avg < 600 then (dividend_ms div avg, u)
           else (min (dividend_ms div avg) devide_fps, u))"

definition fps_band :: "f32 \<Rightarrow> nat \<times> nat" where
  "fps_band target_ratio =
     (if target_ratio \<ge> BR_BEST then (8, 16)
      else if target_ratio \<ge> BR_BALANCED then (10, 20)
      else (12, 24))"

definition delay_user :: "nat \<Rightarrow> nat \<Rightarrow> nat \<Rightarrow> nat \<Rightarrow> nat \<Rightarrow> user_delay \<Rightarrow> user_delay rust" where
  "delay_user min_fps normal_fps highest cur_fps delay u =
     (let delay = max delay 10;
          old_avg = avg_delay u;
          u = add_delay delay u;
          avg = max (avg_delay u) 10
      in case fps_for_delay min_fps normal_fps avg old_avg cur_fps u of
           (fps, u) \<Rightarrow>
             let u = (if avg < DELAY_THRESHOLD_150MS
                      then u\<lparr>ud_increase_fps_count := ud_increase_fps_count u + 1\<rparr>
                      else u\<lparr>ud_increase_fps_count := 0\<rparr>);
                 fps_u = (if ud_increase_fps_count u \<ge> 3
                          then (u32_add fps 1, u\<lparr>ud_increase_fps_count := 0\<rparr>) else (fps, u));
                 u = (if avg > 50 then (snd fps_u)\<lparr>ud_quick_increase_fps_count := 0\<rparr> else snd fps_u)
             in rust_bind (rust_clamp MIN_FPS highest (fst fps_u)) (\<lambda>f. Ret (u\<lparr>ud_fps := Some f\<rparr>)))"

definition user_network_delay :: "nat \<Rightarrow> bool \<Rightarrow> int \<Rightarrow> nat \<Rightarrow> video_qos \<Rightarrow> video_qos rust" where
  "user_network_delay now linux i delay q =
     rust_bind (highest_fps q) (\<lambda>highest.
       let target_ratio = quality_ratio (latest_quality q);
           band = fps_band target_ratio
       in rust_bind
            (case hm_get (vq_users q) i of
               Some u \<Rightarrow>
                 rust_bind (delay_user (fst band) (snd band) highest (vq_fps q) delay (us_delay u)) (\<lambda>d.
                   Ret (modify_user i (\<lambda>u. u\<lparr>us_delay := d\<rparr>) q, ud_fps (us_delay u) = None))
             | None \<Rightarrow> Ret (q, False))
            (\<lambda>(q, first). rust_bind (adjust_fps now q) (\<lambda>q.
               if first \<and> \<not> linux then adjust_ratio now False q else Ret q)))"

definition user_delay_response_elapsed :: "nat \<Rightarrow> int \<Rightarrow> nat \<Rightarrow> video_qos \<Rightarrow> video_qos rust" where
  "user_delay_response_elapsed now i elapsed q =
     (case hm_get (vq_users q) i of
        None \<Rightarrow> Ret q
      | Some u \<Rightarrow>
          let d = (us_delay u)\<lparr>ud_response_delayed := elapsed > 2000\<rparr>
          in if elapsed > 2000
             then adjust_fps now (modify_user i (\<lambda>u. u\<lparr>us_delay := add_delay (elapsed mod 2 ^ 32) d\<rparr>) q)
             else Ret (modify_user i (\<lambda>u. u\<lparr>us_delay := d\<rparr>) q))"

subsection \<open>Calls\<close>

text \<open>The operations other threads call on the shared controller, with the clock where they read it.\<close>

datatype qos_call =
    Open nat string int | Close nat int | CustomFps int nat | AutoFps int nat
  | ImageQuality int int int | Record int bool | NetworkDelay nat bool int nat | DelayElapsed nat int nat
  | NewDisplay string | RemoveDisplay string | UpdateDisplay nat string nat | SupportQuality string bool
  | StoreBitrate nat | GetRatio

fun qos_apply :: "qos_call \<Rightarrow> video_qos \<Rightarrow> video_qos rust" where
  "qos_apply (Open now abr i) q = Ret (on_connection_open now abr i q)"
| "qos_apply (Close now i) q = Ret (on_connection_close now i q)"
| "qos_apply (CustomFps i f) q = Ret (user_custom_fps i f q)"
| "qos_apply (AutoFps i f) q = Ret (user_auto_adjust_fps i f q)"
| "qos_apply (ImageQuality t i v) q = user_image_quality t i v q"
| "qos_apply (Record i v) q = Ret (user_record i v q)"
| "qos_apply (NetworkDelay now linux i d) q = user_network_delay now linux i d q"
| "qos_apply (DelayElapsed now i e) q = user_delay_response_elapsed now i e q"
| "qos_apply (NewDisplay n) q = Ret (new_display n q)"
| "qos_apply (RemoveDisplay n) q = Ret (remove_display n q)"
| "qos_apply (UpdateDisplay now n c) q = update_display_data now n c q"
| "qos_apply (SupportQuality n b) q = Ret (set_support_changing_quality n b q)"
| "qos_apply (StoreBitrate b) q = Ret (store_bitrate b q)"
| "qos_apply GetRatio q = Ret (snd (qos_get_ratio q))"

fun qos_run :: "qos_call list \<Rightarrow> video_qos \<Rightarrow> video_qos rust" where
  "qos_run [] q = Ret q"
| "qos_run (c # cs) q = rust_bind (qos_apply c q) (qos_run cs)"

subsection \<open>Invariant\<close>

definition fps_in_range :: "nat option \<Rightarrow> bool" where
  "fps_in_range f = (case f of None \<Rightarrow> True | Some v \<Rightarrow> MIN_FPS \<le> v \<and> v \<le> MAX_FPS)"

definition quality_ok :: "quality \<Rightarrow> bool" where
  "quality_ok q = (case q of Custom v \<Rightarrow> BR_MIN \<le> v \<and> v \<le> BR_MAX \<and> is_f32 v | _ \<Rightarrow> True)"

definition delay_ok :: "user_delay \<Rightarrow> bool" where
  "delay_ok d \<longleftrightarrow> fps_in_range (ud_fps d) \<and> length (ud_delay_history d) \<le> HISTORY_DELAY_LEN + 1
     \<and> length (rtt_samples (ud_rtt d)) \<le> WINDOW_SAMPLES
     \<and> ud_quick_increase_fps_count d < 3 \<and> ud_increase_fps_count d < 3"

definition user_ok :: "user_data \<Rightarrow> bool" where
  "user_ok u \<longleftrightarrow> fps_in_range (us_custom_fps u) \<and> fps_in_range (us_auto_adjust_fps u)
     \<and> (case us_quality u of None \<Rightarrow> True | Some q \<Rightarrow> quality_ok (snd q)) \<and> delay_ok (us_delay u)"

definition qos_ok :: "video_qos \<Rightarrow> bool" where
  "qos_ok q \<longleftrightarrow> MIN_FPS \<le> vq_fps q \<and> vq_fps q \<le> MAX_FPS
     \<and> BR_MIN_HIGH_RESOLUTION \<le> vq_ratio q \<and> vq_ratio q \<le> BR_MAX
     \<and> hm_wf (vq_users q) \<and> hm_wf (vq_displays q) \<and> (\<forall>u \<in> snd ` set (vq_users q). user_ok u)"

text \<open>The constants, as they are in binary32.\<close>

lemma BR_values:
  "BR_BEST = 3 / 2" "BR_BALANCED = 11240735 / 16777216" "BR_SPEED = 1 / 2" "BR_MAX = 40"
  "BR_MIN = 13421773 / 67108864" "BR_MIN_HIGH_RESOLUTION = 13421773 / 134217728" "MAX_BR_MULTIPLE = 1"
  by code_simp+

lemma best_floor: "f32_div BR_BEST (f32_round (5 / 2)) = 10066330 / 16777216"
  by code_simp

lemma balanced_half: "f32_div BR_BALANCED (f32_round 2) = 11240735 / 33554432"
proof -
  have "is_f32 (11240735 / 33554432)"
    unfolding is_f32_def
    by (rule exI [of _ 11240735], rule exI [of _ "- 25"]) (simp add: pow2_def power_int_minus)
  moreover have "f32_round 2 = 2" by code_simp
  ultimately show ?thesis by (simp add: f32_div_def BR_values f32_round_id)
qed

lemma balanced_cap: "f32_round (2 / 5) = 13421773 / 33554432"
  by code_simp

lemma BR_is_f32: "is_f32 BR_BEST" "is_f32 BR_BALANCED" "is_f32 BR_SPEED" "is_f32 BR_MAX" "is_f32 BR_MIN"
  by (simp_all add: BR_BEST_def BR_BALANCED_def BR_SPEED_def BR_MAX_def BR_MIN_def is_f32_round)

lemma quality_ratio_bounds:
  assumes "quality_ok c"
  shows "BR_MIN \<le> quality_ratio c \<and> quality_ratio c \<le> BR_MAX \<and> is_f32 (quality_ratio c)"
  using assms BR_is_f32 by (cases c) (simp_all add: quality_ratio_def quality_ok_def BR_values)

lemma ratio_min_bounds:
  assumes "quality_ok c"
  shows "BR_MIN_HIGH_RESOLUTION \<le> ratio_min c r \<and> ratio_min c r \<le> quality_ratio c"
proof (cases c)
  case Best
  let ?x = "case r of Some r \<Rightarrow> if 10066330 / 16777216 > r then r else 10066330 / 16777216
      | None \<Rightarrow> 10066330 / 16777216"
  have r: "ratio_min c r = max ?x BR_MIN"
    unfolding ratio_min_def Best best_floor by (simp only: Let_def quality.case)
  have "?x \<le> 10066330 / 16777216" by (simp split: option.split)
  then have "?x \<le> 3 / 2" by (rule order.trans) simp
  moreover have "BR_MIN_HIGH_RESOLUTION \<le> BR_MIN" "BR_MIN \<le> 3 / 2" by (simp_all add: BR_values)
  ultimately show ?thesis
    unfolding r by (simp add: Best quality_ratio_def BR_values(1) max.coboundedI2)
next
  case Balanced
  let ?x = "case r of Some r \<Rightarrow> if 11240735 / 33554432 > r then r else 11240735 / 33554432
      | None \<Rightarrow> 11240735 / 33554432"
  have m: "min (11240735 / 33554432) (13421773 / 33554432) = (11240735 / 33554432 :: rat)" by simp
  have r: "ratio_min c r = max ?x BR_MIN_HIGH_RESOLUTION"
    unfolding ratio_min_def Balanced balanced_half balanced_cap m by (simp only: Let_def quality.case)
  have "?x \<le> 11240735 / 33554432" by (simp split: option.split)
  then have "?x \<le> BR_BALANCED" by (rule order.trans) (simp add: BR_values)
  moreover have "BR_MIN_HIGH_RESOLUTION \<le> BR_BALANCED" by (simp add: BR_values)
  ultimately show ?thesis unfolding r by (simp add: Balanced quality_ratio_def)
next
  case Low
  then show ?thesis by (simp add: ratio_min_def quality_ratio_def BR_values)
next
  case (Custom v)
  with assms show ?thesis by (simp add: ratio_min_def quality_ratio_def quality_ok_def BR_values)
qed

subsection \<open>Every operation keeps the invariant\<close>

lemma latest_ok:
  assumes "\<forall>u \<in> snd ` set us. user_ok u" and "\<forall>b. best = Some b \<longrightarrow> quality_ok (snd b)"
    and "latest best us = Some r"
  shows "quality_ok (snd r)"
  using assms
proof (induction best us rule: latest.induct)
  case (2 best u us)
  then show ?case
    by (auto simp: user_ok_def split: option.splits if_splits)
next
  case (1 best)
  then show ?case by (cases r) auto
qed

lemma latest_quality_ok: "\<forall>u \<in> snd ` set (vq_users q). user_ok u \<Longrightarrow> quality_ok (latest_quality q)"
  using latest_ok [of "vq_users q" None]
  by (auto simp: latest_quality_def quality_ok_def split: option.split)

lemma highest_fps_total:
  obtains h where "highest_fps q = Ret h" "MIN_FPS \<le> h" "h \<le> MAX_FPS"
proof -
  have "MIN_FPS \<le> MAX_FPS" by (simp add: qos_consts)
  then obtain h where "highest_fps q = Ret h" by (auto simp: highest_fps_def rust_clamp_def Let_def)
  moreover from this have "MIN_FPS \<le> h \<and> h \<le> MAX_FPS"
    unfolding highest_fps_def Let_def by (rule rust_clamp_bounds)
  ultimately show ?thesis using that by blast
qed

lemma adjust_fps_ok:
  assumes "qos_ok q"
  obtains q' f where "adjust_fps now q = Ret q'" "q' = q\<lparr>vq_fps := f\<rparr>" "qos_ok q'"
proof -
  obtain h where h: "highest_fps q = Ret h" "MIN_FPS \<le> h" "h \<le> MAX_FPS" by (rule highest_fps_total)
  let ?q = "\<lambda>f. q\<lparr>vq_fps := max MIN_FPS (min h f)\<rparr>"
  have "\<exists>f. adjust_fps now q = Ret (?q f)"
    unfolding adjust_fps_def h(1) rust_bind.simps Let_def rust_clamp_total [OF h(2)] by blast
  moreover have "qos_ok (?q f)" for f using assms h by (simp add: qos_ok_def)
  ultimately show ?thesis using that by blast
qed

lemma adjust_ratio_ok:
  assumes "qos_ok q"
  obtains q' where "adjust_ratio now dyn q = Ret q'" "qos_ok q'"
proof -
  let ?c = "latest_quality q"
  have c: "quality_ok ?c" using assms by (intro latest_quality_ok) (simp add: qos_ok_def)
  note b = quality_ratio_bounds [OF c]
  have mx: "f32_mul (quality_ratio ?c) MAX_BR_MULTIPLE = quality_ratio ?c"
    using b by (simp add: f32_mul_def BR_values f32_round_id)
  have "\<exists>q'. adjust_ratio now dyn q = Ret q' \<and>
      (q' = q \<or> (\<exists>r v. q' = q\<lparr>vq_ratio := max (ratio_min ?c r) (min (quality_ratio ?c) v), vq_adjust_ratio_instant := now\<rparr>))"
    using ratio_min_bounds [OF c]
    by (auto simp: adjust_ratio_def mx rust_clamp_total Let_def split: option.split)
  moreover have "qos_ok (q\<lparr>vq_ratio := max (ratio_min ?c r) (min (quality_ratio ?c) v), vq_adjust_ratio_instant := now\<rparr>)" for r v
    using assms b ratio_min_bounds [OF c, of r]
    by (auto simp: qos_ok_def le_max_iff_disj intro: order.trans)
  ultimately show ?thesis using that assms by blast
qed

lemma qos_user_ok: "qos_ok q \<Longrightarrow> hm_get (vq_users q) i = Some u \<Longrightarrow> user_ok u"
  unfolding qos_ok_def by (elim conjE) (rule hm_get_all)

lemma modify_user_ok:
  assumes "qos_ok q" and "\<And>u. user_ok u \<Longrightarrow> hm_get (vq_users q) i = Some u \<Longrightarrow> user_ok (f u)"
  shows "qos_ok (modify_user i f q)"
proof (cases "hm_get (vq_users q) i")
  case None
  then show ?thesis using assms(1) by (simp add: modify_user_def)
next
  case (Some u)
  have old: "\<forall>v \<in> snd ` set (vq_users q). user_ok v" using assms(1) by (simp add: qos_ok_def)
  from hm_get_all [OF this Some] have "user_ok u" .
  then have "user_ok (f u)" using Some by (rule assms(2))
  note hm_insert_all [OF old this, of i]
  with Some assms(1) show ?thesis by (simp add: modify_user_def qos_ok_def hm_wf_insert)
qed

lemma modify_display_ok: "qos_ok q \<Longrightarrow> qos_ok (modify_display n f q)"
  by (auto simp: modify_display_def qos_ok_def hm_wf_insert split: option.split)

lemma rtt_update_samples:
  "length (rtt_samples r) \<le> WINDOW_SAMPLES \<Longrightarrow> length (rtt_samples (rtt_update d r)) \<le> WINDOW_SAMPLES"
  by (auto simp: rtt_update_def WINDOW_SAMPLES_def Let_def split: option.splits)

lemma add_delay_ok: "delay_ok u \<Longrightarrow> delay_ok (add_delay d u)"
  using rtt_update_samples [of "ud_rtt u" d]
  by (auto simp: delay_ok_def add_delay_def qos_consts Let_def)

lemma fps_for_delay_counts:
  assumes "fps_for_delay mn nm avg old fps u = (f, u')"
  shows "ud_fps u' = ud_fps u \<and> ud_delay_history u' = ud_delay_history u \<and> ud_rtt u' = ud_rtt u
    \<and> ud_increase_fps_count u' = ud_increase_fps_count u
    \<and> (ud_quick_increase_fps_count u < 3 \<longrightarrow> ud_quick_increase_fps_count u' < 3)"
  using assms by (auto simp: fps_for_delay_def Let_def split: if_splits)

lemma delay_user_ok:
  assumes "delay_ok u" and "MIN_FPS \<le> highest" and "highest \<le> MAX_FPS"
  obtains d where "delay_user mn nm highest cur delay u = Ret d" "delay_ok d"
proof -
  let ?u1 = "add_delay (max delay 10) u" and ?avg = "max (avg_delay (add_delay (max delay 10) u)) 10"
  have u1: "delay_ok ?u1" using assms(1) by (rule add_delay_ok)
  obtain f u2 where f: "fps_for_delay mn nm ?avg (avg_delay u) cur ?u1 = (f, u2)" by (cases "fps_for_delay mn nm ?avg (avg_delay u) cur ?u1")
  note c = fps_for_delay_counts [OF f]
  have r: "fps_in_range (Some (max MIN_FPS (min highest v)))" for v
    using assms(2,3) by (simp add: fps_in_range_def)
  have "\<exists>d. delay_user mn nm highest cur delay u = Ret d \<and> delay_ok d"
    unfolding delay_user_def Let_def f prod.case rust_clamp_total [OF assms(2)] rust_bind.simps
    using u1 c r by (auto simp: delay_ok_def)
  then show ?thesis using that by blast
qed

lemma on_connection_open_ok: "qos_ok q \<Longrightarrow> qos_ok (on_connection_open now abr i q)"
proof -
  assume q: "qos_ok q"
  have "user_ok user_default"
    by (simp add: user_ok_def user_default_def fps_in_range_def delay_ok_def user_delay_default_def rtt_default_def)
  moreover have "\<forall>u \<in> snd ` set (vq_users q). user_ok u" using q by (simp add: qos_ok_def)
  ultimately have "\<forall>u \<in> snd ` set (hm_insert i user_default (vq_users q)). user_ok u"
    by (rule hm_insert_all [rotated])
  with q show ?thesis by (simp add: qos_ok_def on_connection_open_def hm_wf_insert)
qed

lemma qos_default_ok: "qos_ok (qos_default now)"
  by (simp add: qos_ok_def qos_default_def qos_consts BR_values)

lemma on_connection_close_ok: "qos_ok q \<Longrightarrow> qos_ok (on_connection_close now i q)"
  using hm_remove_all [of "vq_users q" user_ok i]
  by (simp add: on_connection_close_def qos_default_ok Let_def) (simp add: qos_ok_def hm_wf_remove)

lemma convert_quality_ok:
  obtains c where "convert_quality v = Ret c" "quality_ok c"
proof -
  have mono: "is_f32 (max BR_MIN (min BR_MAX x))" if "is_f32 x" for x
    using that BR_is_f32 by (simp add: max_def min_def)
  have "BR_MIN \<le> BR_MAX" by (simp add: BR_values)
  then have "\<exists>c. convert_quality v = Ret c \<and> quality_ok c"
    using mono by (auto simp: convert_quality_def rust_clamp_total quality_ok_def f32_div_def is_f32_round)
  then show ?thesis using that by blast
qed

lemma set_ratio_latest_ok: "qos_ok q \<Longrightarrow> qos_ok (q\<lparr>vq_ratio := quality_ratio (latest_quality q)\<rparr>)"
proof -
  assume q: "qos_ok q"
  then have "quality_ok (latest_quality q)" by (intro latest_quality_ok) (simp add: qos_ok_def)
  from quality_ratio_bounds [OF this] have "BR_MIN_HIGH_RESOLUTION \<le> quality_ratio (latest_quality q)"
    by (auto simp: BR_values)
  with quality_ratio_bounds [OF \<open>quality_ok (latest_quality q)\<close>] q show ?thesis by (simp add: qos_ok_def)
qed

lemma user_image_quality_ok:
  assumes "qos_ok q"
  obtains q' where "user_image_quality t i v q = Ret q'" "qos_ok q'"
proof -
  obtain c where c: "convert_quality v = Ret c" "quality_ok c" by (rule convert_quality_ok)
  have "qos_ok (modify_user i (\<lambda>u. u\<lparr>us_quality := Some (t, c)\<rparr>) q)"
    using assms c(2) by (intro modify_user_ok) (simp_all add: user_ok_def)
  then have "\<exists>q'. user_image_quality t i v q = Ret q' \<and> qos_ok q'"
    using assms c(1) by (auto simp: user_image_quality_def Let_def set_ratio_latest_ok split: option.split)
  then show ?thesis using that by blast
qed

lemma user_network_delay_ok:
  assumes "qos_ok q"
  obtains q' where "user_network_delay now linux i d q = Ret q'" "qos_ok q'"
proof -
  obtain h where h: "highest_fps q = Ret h" "MIN_FPS \<le> h" "h \<le> MAX_FPS" by (rule highest_fps_total)
  let ?b = "fps_band (quality_ratio (latest_quality q))"
  have step: "\<exists>q' first. (case hm_get (vq_users q) i of
               Some u \<Rightarrow>
                 rust_bind (delay_user (fst ?b) (snd ?b) h (vq_fps q) d (us_delay u)) (\<lambda>d.
                   Ret (modify_user i (\<lambda>u. u\<lparr>us_delay := d\<rparr>) q, ud_fps (us_delay u) = None))
             | None \<Rightarrow> Ret (q, False)) = Ret (q', first) \<and> qos_ok q'"
  proof (cases "hm_get (vq_users q) i")
    case (Some u)
    with assms have "user_ok u" by (rule qos_user_ok)
    then have "delay_ok (us_delay u)" by (simp add: user_ok_def)
    from this h(2,3) obtain e where e: "delay_user (fst ?b) (snd ?b) h (vq_fps q) d (us_delay u) = Ret e" "delay_ok e"
      by (rule delay_user_ok)
    have "qos_ok (modify_user i (\<lambda>u. u\<lparr>us_delay := e\<rparr>) q)"
      using assms e(2) by (intro modify_user_ok) (simp_all add: user_ok_def)
    with Some e(1) show ?thesis by simp
  next
    case None
    then show ?thesis using assms by (intro exI [of _ q] exI [of _ False]) simp
  qed
  then obtain q1 first where q1: "(case hm_get (vq_users q) i of
               Some u \<Rightarrow>
                 rust_bind (delay_user (fst ?b) (snd ?b) h (vq_fps q) d (us_delay u)) (\<lambda>d.
                   Ret (modify_user i (\<lambda>u. u\<lparr>us_delay := d\<rparr>) q, ud_fps (us_delay u) = None))
             | None \<Rightarrow> Ret (q, False)) = Ret (q1, first)" "qos_ok q1" by blast
  obtain q2 f where q2: "adjust_fps now q1 = Ret q2" "q2 = q1\<lparr>vq_fps := f\<rparr>" "qos_ok q2"
    using adjust_fps_ok [OF q1(2)] by blast
  obtain q3 where q3: "adjust_ratio now False q2 = Ret q3" "qos_ok q3" using adjust_ratio_ok [OF q2(3)] by blast
  have "user_network_delay now linux i d q = (if first \<and> \<not> linux then Ret q3 else Ret q2)"
    unfolding user_network_delay_def h(1) rust_bind.simps Let_def q1(1) prod.case q2(1) q3(1) ..
  with q2(3) q3(2) that show ?thesis by (cases "first \<and> \<not> linux") simp_all
qed

lemma user_delay_response_elapsed_ok:
  assumes "qos_ok q"
  obtains q' where "user_delay_response_elapsed now i e q = Ret q'" "qos_ok q'"
proof (cases "hm_get (vq_users q) i")
  case None
  then show ?thesis using that assms by (simp add: user_delay_response_elapsed_def)
next
  case (Some u)
  let ?d = "(us_delay u)\<lparr>ud_response_delayed := e > 2000\<rparr>"
  have "user_ok u" using assms Some by (rule qos_user_ok)
  then have d: "delay_ok ?d" by (simp add: user_ok_def delay_ok_def)
  have "qos_ok (modify_user i (\<lambda>u. u\<lparr>us_delay := x\<rparr>) q)" if "delay_ok x" for x
    using assms that by (intro modify_user_ok) (simp_all add: user_ok_def)
  note m = this [OF d] this [OF add_delay_ok [OF d]]
  obtain q' f where "adjust_fps now (modify_user i (\<lambda>u. u\<lparr>us_delay := add_delay (e mod 2 ^ 32) ?d\<rparr>) q) = Ret q'" "qos_ok q'"
    using adjust_fps_ok [OF m(2)] by blast
  with m(1) Some that show ?thesis
    by (cases "e > 2000") (simp_all add: user_delay_response_elapsed_def Let_def)
qed

lemma update_display_data_ok:
  assumes "qos_ok q"
  obtains q' where "update_display_data now n c q = Ret q'" "qos_ok q'"
proof -
  let ?q = "modify_display n (\<lambda>d. d\<lparr>dd_send_counter := (dd_send_counter d + c) mod 2 ^ 32\<rparr>) q"
  obtain q1 f where q1: "adjust_fps now ?q = Ret q1" "qos_ok q1"
    using adjust_fps_ok [OF modify_display_ok [OF assms]] by blast
  let ?q2 = "q1\<lparr>vq_displays := map (\<lambda>(k, d). (k, d\<lparr>dd_send_counter := 0\<rparr>)) (vq_displays q1)\<rparr>"
  have "qos_ok ?q2" using q1(2) by (simp add: qos_ok_def hm_keys_map del: map_map)
  then have "\<exists>q'. adjust_ratio now x ?q2 = Ret q' \<and> qos_ok q'" for x using adjust_ratio_ok by metis
  then have "\<exists>q'. update_display_data now n c q = Ret q' \<and> qos_ok q'"
    using q1 set_ratio_latest_ok [OF q1(2)] by (simp add: update_display_data_def Let_def)
  then show ?thesis using that by blast
qed

lemma qos_get_ratio_ok: "qos_ok q \<Longrightarrow> qos_get_ratio q = (vq_ratio q, q)"
  by (simp add: qos_get_ratio_def qos_ok_def)

lemma qos_apply_ok:
  assumes "qos_ok q"
  shows "\<exists>q'. qos_apply c q = Ret q' \<and> qos_ok q'"
proof (cases c)
  case (CustomFps i f)
  have "qos_ok (user_custom_fps i f q)"
    using assms by (auto simp: user_custom_fps_def user_ok_def fps_in_range_def intro!: modify_user_ok)
  then show ?thesis by (simp add: CustomFps)
next
  case (AutoFps i f)
  have "qos_ok (user_auto_adjust_fps i f q)"
    using assms by (auto simp: user_auto_adjust_fps_def user_ok_def fps_in_range_def intro!: modify_user_ok)
  then show ?thesis by (simp add: AutoFps)
next
  case (Record i v)
  have "qos_ok (user_record i v q)"
    using assms by (auto simp: user_record_def user_ok_def intro!: modify_user_ok)
  then show ?thesis by (simp add: Record)
next
  case (ImageQuality t i v)
  then show ?thesis using user_image_quality_ok [OF assms] by simp metis
next
  case (NetworkDelay now l i d)
  then show ?thesis using user_network_delay_ok [OF assms] by simp metis
next
  case (DelayElapsed now i e)
  then show ?thesis using user_delay_response_elapsed_ok [OF assms] by simp metis
next
  case (UpdateDisplay now n k)
  then show ?thesis using update_display_data_ok [OF assms] by simp metis
next
  case (NewDisplay n)
  then show ?thesis using assms by (simp add: new_display_def qos_ok_def hm_wf_insert)
next
  case (RemoveDisplay n)
  then show ?thesis using assms by (simp add: remove_display_def qos_ok_def hm_wf_remove)
next
  case (StoreBitrate b)
  then show ?thesis using assms by (simp add: store_bitrate_def qos_ok_def)
qed (simp_all add: assms on_connection_open_ok on_connection_close_ok set_support_changing_quality_def
       modify_display_ok qos_get_ratio_ok)

lemma qos_run_keeps: "qos_ok q \<Longrightarrow> \<exists>q'. qos_run cs q = Ret q' \<and> qos_ok q'"
proof (induction cs arbitrary: q)
  case (Cons c cs)
  from qos_apply_ok [OF Cons.prems, of c] obtain q1 where "qos_apply c q = Ret q1" "qos_ok q1" by blast
  with Cons.IH show ?case by simp
qed simp

text \<open>
  C9. Whatever sequence of calls reaches a fresh controller, with any arguments and clocks, none of
  them panics (no \<^verbatim>\<open>clamp\<close> has crossed bounds) and the state stays well formed: frame rate between 1
  and 120, ratio between the global bounds, per-user rates in range, at most three delays and sixty
  samples per user, both counters below three. So the getters never fall back to their defaults.
\<close>

theorem qos_run_ok:
  "\<exists>q. qos_run calls (qos_default now) = Ret q \<and> qos_ok q
     \<and> qos_fps q = vq_fps q \<and> qos_get_ratio q = (vq_ratio q, q)"
  using qos_run_keeps [OF qos_default_ok, of calls now]
  by (auto simp: qos_get_ratio_ok) (auto simp: qos_fps_def qos_ok_def)

subsection \<open>The frame rate\<close>

lemma list_min_Min: "list_min xs = (if xs = [] then None else Some (Min (set xs)))"
  by (cases xs) (simp_all add: list_min_def Min.set_eq_fold del: list.set)

lemma list_min_mem: "x \<in> set xs \<Longrightarrow> \<exists>m. list_min xs = Some m \<and> m \<le> x"
  by (auto simp: list_min_Min)

definition user_fps :: "user_data \<Rightarrow> nat" where
  "user_fps u = (case ud_fps (us_delay u) of Some f \<Rightarrow> f | None \<Rightarrow> INIT_FPS)"

lemma adjust_fps_value:
  assumes "adjust_fps now q = Ret q'" and "highest_fps q = Ret h"
  obtains fps where "q' = q\<lparr>vq_fps := max MIN_FPS (min h fps)\<rparr>" "MIN_FPS \<le> h"
    "\<And>u. u \<in> snd ` set (vq_users q) \<Longrightarrow> fps \<le> user_fps u"
    "list_ex (\<lambda>u. ud_response_delayed (us_delay (snd u))) (vq_users q) \<Longrightarrow> fps \<le> MIN_FPS + 1"
    "(now - vq_new_user_instant q) div 1000 < 1 \<Longrightarrow> fps \<le> INIT_FPS"
proof -
  let ?x = "map (\<lambda>u. user_fps (snd u)) (vq_users q)"
  let ?a = "case list_min ?x of Some f \<Rightarrow> f | None \<Rightarrow> INIT_FPS"
  let ?b = "if list_ex (\<lambda>u. ud_response_delayed (us_delay (snd u))) (vq_users q)
    then (if ?a > MIN_FPS + 1 then MIN_FPS + 1 else ?a) else ?a"
  let ?c = "if (now - vq_new_user_instant q) div 1000 < 1 then (if ?b > INIT_FPS then INIT_FPS else ?b) else ?b"
  obtain h' where h': "highest_fps q = Ret h'" "MIN_FPS \<le> h'" by (rule highest_fps_total)
  with assms(2) have h: "MIN_FPS \<le> h" by simp
  have a: "?a \<le> user_fps u" if "u \<in> snd ` set (vq_users q)" for u
  proof -
    from that have "user_fps u \<in> set ?x" by auto
    from list_min_mem [OF this] show ?thesis by auto
  qed
  have c: "?c \<le> ?a" by simp
  have "q' = q\<lparr>vq_fps := max MIN_FPS (min h ?c)\<rparr>"
    using assms(1) unfolding adjust_fps_def assms(2) rust_bind.simps Let_def rust_clamp_total [OF h] user_fps_def by simp
  then show ?thesis
  proof (rule that [OF _ h])
    show "?c \<le> user_fps u" if "u \<in> snd ` set (vq_users q)" for u using order.trans [OF c a [OF that]] .
  qed simp_all
qed

lemma highest_fps_le:
  assumes "highest_fps q = Ret h" and "u \<in> snd ` set (vq_users q)" and "MIN_FPS \<le> user_highest_fps u"
  shows "h \<le> user_highest_fps u"
proof -
  let ?x = "filter (\<lambda>u. u \<ge> MIN_FPS) (map (\<lambda>u. user_highest_fps (snd u)) (vq_users q))"
  have "user_highest_fps u \<in> set ?x" using assms(2,3) by auto
  then obtain m where m: "list_min ?x = Some m" "m \<le> user_highest_fps u" using list_min_mem by blast
  have "MIN_FPS \<le> MAX_FPS" by (simp add: qos_consts)
  from rust_clamp_total [OF this, of m] have "h = max MIN_FPS (min MAX_FPS m)"
    using assms(1) m(1) by (simp add: highest_fps_def)
  with m(2) assms(3) show ?thesis by simp
qed

text \<open>
  C10. The frame rate chosen by \<^verbatim>\<open>adjust_fps\<close> honours every user: it exceeds neither the rate derived
  for any connected user nor any user's own limit, drops to at most 2 while a response is overdue,
  is at most 15 in the first second after a connection, and is the only field that changes.
\<close>

theorem adjust_fps_bounds:
  assumes "adjust_fps now q = Ret q'"
  shows "q' = q\<lparr>vq_fps := vq_fps q'\<rparr> \<and> 1 \<le> vq_fps q' \<and> vq_fps q' \<le> 120
    \<and> (\<forall>u \<in> snd ` set (vq_users q). vq_fps q' \<le> max 1 (user_fps u)
         \<and> (1 \<le> user_highest_fps u \<longrightarrow> vq_fps q' \<le> user_highest_fps u))
    \<and> (list_ex (\<lambda>u. ud_response_delayed (us_delay (snd u))) (vq_users q) \<longrightarrow> vq_fps q' \<le> 2)
    \<and> (now - vq_new_user_instant q < 1000 \<longrightarrow> vq_fps q' \<le> 15)"
proof -
  obtain h where h: "highest_fps q = Ret h" "MIN_FPS \<le> h" "h \<le> MAX_FPS" by (rule highest_fps_total)
  obtain fps where f: "q' = q\<lparr>vq_fps := max MIN_FPS (min h fps)\<rparr>"
    "\<And>u. u \<in> snd ` set (vq_users q) \<Longrightarrow> fps \<le> user_fps u"
    "list_ex (\<lambda>u. ud_response_delayed (us_delay (snd u))) (vq_users q) \<Longrightarrow> fps \<le> MIN_FPS + 1"
    "(now - vq_new_user_instant q) div 1000 < 1 \<Longrightarrow> fps \<le> INIT_FPS"
    using adjust_fps_value [OF assms h(1)] by blast
  have v: "vq_fps q' = max 1 (min h fps)" using f(1) by (simp add: qos_consts)
  have "vq_fps q' \<le> max 1 (user_fps u) \<and> (1 \<le> user_highest_fps u \<longrightarrow> vq_fps q' \<le> user_highest_fps u)"
    if "u \<in> snd ` set (vq_users q)" for u
    using f(2) [OF that] highest_fps_le [OF h(1) that] h(2) unfolding v by (auto simp: qos_consts)
  moreover have "q' = q\<lparr>vq_fps := vq_fps q'\<rparr>" using f(1) by simp
  moreover have "1 \<le> vq_fps q'" "vq_fps q' \<le> 120" using v h(2,3) by (simp_all add: qos_consts)
  moreover have "list_ex (\<lambda>u. ud_response_delayed (us_delay (snd u))) (vq_users q) \<longrightarrow> vq_fps q' \<le> 2"
    using v f(3) by (auto simp: qos_consts numeral_2_eq_2)
  moreover have "now - vq_new_user_instant q < 1000 \<longrightarrow> vq_fps q' \<le> 15"
    using v f(4) by (simp add: qos_consts min.coboundedI2)
  ultimately show ?thesis by blast
qed

theorem adjust_fps_bounds_witness:
  "\<exists>q'. adjust_fps 500 (on_connection_open 0 [] 7 (qos_default 0)) = Ret q' \<and> vq_fps q' \<le> 15"
proof -
  obtain q' where q: "adjust_fps 500 (on_connection_open 0 [] 7 (qos_default 0)) = Ret q'"
    using adjust_fps_ok [OF on_connection_open_ok [OF qos_default_ok]] by metis
  from adjust_fps_bounds [OF q] have "vq_fps q' \<le> 15" by (simp add: on_connection_open_def qos_default_def)
  with q show ?thesis by blast
qed

lemma avg_delay_cong:
  "ud_delay_history u = ud_delay_history v \<Longrightarrow> ud_rtt u = ud_rtt v \<Longrightarrow> avg_delay u = avg_delay v"
  by (simp add: avg_delay_def)

lemma avg_delay_upd [simp]:
  "avg_delay (u\<lparr>ud_fps := f\<rparr>) = avg_delay u"
  "avg_delay (u\<lparr>ud_increase_fps_count := n\<rparr>) = avg_delay u"
  "avg_delay (u\<lparr>ud_quick_increase_fps_count := n\<rparr>) = avg_delay u"
  by (simp_all add: avg_delay_def)

text \<open>What \<^const>\<open>fps_for_delay\<close> proposes in each band of the average delay.\<close>

lemma fps_for_delay_bands:
  assumes "fps_for_delay mn nm avg old cur u = (f, u')"
  shows "(avg < 200 \<longrightarrow> mn \<le> f) \<and> (200 \<le> avg \<longrightarrow> f \<le> mn)
    \<and> (300 \<le> avg \<longrightarrow> f \<le> mn div 2) \<and> (600 \<le> avg \<longrightarrow> f \<le> mn div 4)"
proof -
  have q: "150 * mn div avg \<le> mn div 2" if "300 \<le> avg"
  proof -
    have "150 * mn div avg \<le> 150 * mn div 300" using that by (intro div_le_mono2) simp_all
    then show ?thesis by simp
  qed
  have r: "150 * mn div avg \<le> mn div 4" if "600 \<le> avg"
  proof -
    have "150 * mn div avg \<le> 150 * mn div 600" using that by (intro div_le_mono2) simp_all
    then show ?thesis by simp
  qed
  have h: "mn div 2 \<le> mn" by simp
  show ?thesis
    using assms q r h order.trans [OF q h]
    by (auto simp: fps_for_delay_def qos_consts Let_def min.coboundedI1 split: if_splits)
qed

lemma fps_for_delay_small:
  assumes "fps_for_delay mn nm avg old cur u = (f, u')" and "avg < 150" and "mn < 2 ^ 31" and "cur \<le> MAX_FPS"
  shows "f < 2 ^ 32 - 1"
proof -
  have "u32_add cur k = cur + k" if "k \<le> 5" for k using that assms(4) by (simp add: u32_add_def qos_consts)
  then show ?thesis
    using assms by (auto simp: fps_for_delay_def qos_consts Let_def split: if_splits)
qed

lemma delay_user_bands:
  assumes "delay_user mn nm h cur d u = Ret u'" and "MIN_FPS \<le> h" and "mn < 2 ^ 31" and "cur \<le> MAX_FPS"
  obtains f where "ud_fps u' = Some f" "1 \<le> f" "f \<le> h"
    "max (avg_delay u') 10 < 200 \<Longrightarrow> min mn h \<le> f"
    "200 \<le> max (avg_delay u') 10 \<Longrightarrow> f \<le> max 1 mn"
    "300 \<le> max (avg_delay u') 10 \<Longrightarrow> f \<le> max 1 (mn div 2)"
    "600 \<le> max (avg_delay u') 10 \<Longrightarrow> f \<le> max 1 (mn div 4)"
proof -
  let ?u1 = "add_delay (max d 10) u" and ?avg = "max (avg_delay (add_delay (max d 10) u)) 10"
  obtain g u2 where g: "fps_for_delay mn nm ?avg (avg_delay u) cur ?u1 = (g, u2)"
    by (cases "fps_for_delay mn nm ?avg (avg_delay u) cur ?u1")
  note c = fps_for_delay_counts [OF g] and b = fps_for_delay_bands [OF g]
  have avg: "avg_delay u2 = avg_delay ?u1" using c by (intro avg_delay_cong) simp_all
  define g' where "g' = (if ?avg < 150 \<and> 3 \<le> ud_increase_fps_count ?u1 + 1 then u32_add g 1 else g)"
  have "u32_add g 1 = g + 1" if "?avg < 150"
    using fps_for_delay_small [OF g that assms(3,4)] by (simp add: u32_add_def)
  then have g': "(?avg < 200 \<longrightarrow> mn \<le> g') \<and> (200 \<le> ?avg \<longrightarrow> g' = g)"
    using b by (auto simp: g'_def)
  have cnt: "ud_increase_fps_count u2 = ud_increase_fps_count ?u1" using c by simp
  have u': "ud_fps u' = Some (max MIN_FPS (min h g')) \<and> avg_delay u' = avg_delay ?u1"
    using assms(1) unfolding delay_user_def Let_def g prod.case rust_clamp_total [OF assms(2)] rust_bind.simps
    by (cases "?avg < 150"; cases "3 \<le> ud_increase_fps_count ?u1 + 1"; cases "?avg > 50")
      (simp_all only: g'_def qos_consts cnt avg avg_delay_upd if_True if_False user_delay.simps fst_conv snd_conv rust.inject simp_thms,
       auto simp: avg avg_delay_upd)
  show ?thesis
  proof (rule that)
    show "ud_fps u' = Some (max 1 (min h g'))" using u' by (simp add: qos_consts)
  qed (use u' g' b assms(2) in \<open>auto simp: qos_consts min_le_iff_disj le_max_iff_disj\<close>)
qed

lemma adjust_ratio_frame: "adjust_ratio now dyn q = Ret q' \<Longrightarrow> vq_users q' = vq_users q \<and> vq_fps q' = vq_fps q"
  by (cases "in_vbr_state q"; cases "list_max (map (\<lambda>u. avg_delay (us_delay (snd u))) (vq_users q))")
    (auto simp: adjust_ratio_def Let_def rust_clamp_def split: if_splits)

lemma fps_band_small: "fst (fps_band r) < 2 ^ 31"
  by (simp add: fps_band_def)

lemma user_network_delay_steps:
  assumes "user_network_delay now linux i d q = Ret q'" and "hm_get (vq_users q) i = Some u"
    and "highest_fps q = Ret h"
  obtains e q2 where
    "delay_user (fst (fps_band (quality_ratio (latest_quality q)))) (snd (fps_band (quality_ratio (latest_quality q))))
       h (vq_fps q) d (us_delay u) = Ret e"
    "adjust_fps now (modify_user i (\<lambda>u. u\<lparr>us_delay := e\<rparr>) q) = Ret q2"
    "vq_users q' = vq_users q2" "vq_fps q' = vq_fps q2"
proof -
  let ?d = "delay_user (fst (fps_band (quality_ratio (latest_quality q)))) (snd (fps_band (quality_ratio (latest_quality q))))
       h (vq_fps q) d (us_delay u)"
  from assms obtain e where e: "?d = Ret e"
    by (cases ?d) (simp_all add: user_network_delay_def Let_def)
  let ?a = "adjust_fps now (modify_user i (\<lambda>u. u\<lparr>us_delay := e\<rparr>) q)"
  from assms e obtain q2 where q2: "?a = Ret q2"
    by (cases ?a) (simp_all add: user_network_delay_def Let_def)
  from assms e q2 have "adjust_ratio now False q2 = Ret q' \<or> q' = q2"
    by (simp add: user_network_delay_def Let_def split: if_splits)
  with adjust_ratio_frame have "vq_users q' = vq_users q2 \<and> vq_fps q' = vq_fps q2" by blast
  with e q2 that show ?thesis by blast
qed

text \<open>
  What a network-delay report does. The reporting user's rate is between 1 and the highest
  allowed, and the rate of the service never exceeds it. With an average delay below 200 ms the
  user keeps at least the band's minimum rate (10 for balanced quality); from 200 ms on he gets at
  most that minimum, from 300 ms at most half, from 600 ms at most a quarter of it (but at least 1).
\<close>

theorem network_delay_bands:
  assumes "qos_ok q" and "hm_get (vq_users q) i = Some u" and "highest_fps q = Ret h"
    and "user_network_delay now linux i d q = Ret q'"
    and "mn = fst (fps_band (quality_ratio (latest_quality q)))"
  shows "\<exists>u' f. hm_get (vq_users q') i = Some u' \<and> ud_fps (us_delay u') = Some f
    \<and> 1 \<le> f \<and> f \<le> h \<and> vq_fps q' \<le> f
    \<and> (max (avg_delay (us_delay u')) 10 < 200 \<longrightarrow> min mn h \<le> f)
    \<and> (200 \<le> max (avg_delay (us_delay u')) 10 \<longrightarrow> f \<le> mn)
    \<and> (300 \<le> max (avg_delay (us_delay u')) 10 \<longrightarrow> f \<le> mn div 2)
    \<and> (600 \<le> max (avg_delay (us_delay u')) 10 \<longrightarrow> f \<le> mn div 4)"
proof -
  from user_network_delay_steps [OF assms(4,2,3)] obtain e q2 where
    e: "delay_user mn (snd (fps_band (quality_ratio (latest_quality q)))) h (vq_fps q) d (us_delay u) = Ret e"
    and q2: "adjust_fps now (modify_user i (\<lambda>u. u\<lparr>us_delay := e\<rparr>) q) = Ret q2"
    and q': "vq_users q' = vq_users q2" "vq_fps q' = vq_fps q2"
    unfolding assms(5) by blast
  have mn: "8 \<le> mn" "mn < 2 ^ 31" unfolding assms(5) by (auto simp: fps_band_def)
  have h: "MIN_FPS \<le> h" using assms(3) by (metis highest_fps_total rust.inject)
  have cur: "vq_fps q \<le> MAX_FPS" using assms(1) by (simp add: qos_ok_def)
  obtain f where f: "ud_fps e = Some f" "1 \<le> f" "f \<le> h"
    "max (avg_delay e) 10 < 200 \<Longrightarrow> min mn h \<le> f"
    "200 \<le> max (avg_delay e) 10 \<Longrightarrow> f \<le> max 1 mn"
    "300 \<le> max (avg_delay e) 10 \<Longrightarrow> f \<le> max 1 (mn div 2)"
    "600 \<le> max (avg_delay e) 10 \<Longrightarrow> f \<le> max 1 (mn div 4)"
    using delay_user_bands [OF e h mn(2) cur] by blast
  let ?u = "u\<lparr>us_delay := e\<rparr>" and ?q = "modify_user i (\<lambda>u. u\<lparr>us_delay := e\<rparr>) q"
  have get: "hm_get (vq_users ?q) i = Some ?u" using assms(2) by (simp add: modify_user_def hm_get_insert)
  obtain h' where h': "highest_fps ?q = Ret h'" "MIN_FPS \<le> h'" "h' \<le> MAX_FPS" by (rule highest_fps_total)
  obtain fps where a: "q2 = ?q\<lparr>vq_fps := max MIN_FPS (min h' fps)\<rparr>"
    "\<And>u. u \<in> snd ` set (vq_users ?q) \<Longrightarrow> fps \<le> user_fps u"
    using adjust_fps_value [OF q2 h'(1)] by blast
  have "?u \<in> snd ` set (vq_users ?q)" using map_of_SomeD [OF get] by force
  with a(2) f(1) have "fps \<le> f" by (force simp: user_fps_def)
  then have "vq_fps q' \<le> f" using q'(2) a(1) f(2) by (simp add: qos_consts)
  moreover have "hm_get (vq_users q') i = Some ?u" using q'(1) a(1) get by simp
  moreover have "max 1 mn = mn" "max 1 (mn div 2) = mn div 2" "max 1 (mn div 4) = mn div 4" using mn(1) by simp_all
  ultimately show ?thesis using f by (intro exI [of _ ?u] exI [of _ f]) simp
qed

theorem network_delay_bands_witness:
  "\<exists>q' f. user_network_delay 5000 False 7 700 (on_connection_open 0 [] 7 (qos_default 0)) = Ret q'
     \<and> 1 \<le> f \<and> f \<le> 30 \<and> vq_fps q' \<le> f"
proof -
  let ?q = "on_connection_open 0 [] 7 (qos_default 0)"
  have ok: "qos_ok ?q" by (rule on_connection_open_ok [OF qos_default_ok])
  obtain q' where q': "user_network_delay 5000 False 7 700 ?q = Ret q'" using user_network_delay_ok [OF ok] by blast
  have g: "hm_get (vq_users ?q) 7 = Some user_default" by (simp add: on_connection_open_def hm_get_insert)
  have h: "highest_fps ?q = Ret 30"
    by (simp add: highest_fps_def list_min_def on_connection_open_def qos_default_def user_highest_fps_def
        user_default_def rust_clamp_def qos_consts)
  from network_delay_bands [OF ok g h q' refl] q' show ?thesis by blast
qed

subsection \<open>The quality a user asked for\<close>

lemma latest_keep:
  assumes "\<forall>u \<in> set us. \<forall>p. us_quality (snd u) = Some p \<longrightarrow> fst p < t"
  shows "latest (Some (t, c)) us = Some (t, c)"
  using assms by (induction us) (auto split: option.split)

lemma latest_newest:
  assumes "(i, u) \<in> set us" and "us_quality u = Some (t, c)" and "hm_wf us"
    and "\<forall>w \<in> set us. fst w \<noteq> i \<longrightarrow> (\<forall>p. us_quality (snd w) = Some p \<longrightarrow> fst p < t)"
    and "\<forall>b. best = Some b \<longrightarrow> fst b < t"
  shows "latest best us = Some (t, c)"
  using assms
proof (induction us arbitrary: best)
  case (Cons w us)
  show ?case
  proof (cases "w = (i, u)")
    case True
    with Cons.prems(3,4) have "\<forall>w \<in> set us. \<forall>p. us_quality (snd w) = Some p \<longrightarrow> fst p < t" by force
    from latest_keep [OF this] True Cons.prems(2,5) show ?thesis by (auto split: option.split)
  next
    case False
    with Cons.prems(1) have mem: "(i, u) \<in> set us" by simp
    then have "i \<in> fst ` set us" using image_eqI [of i fst "(i, u)"] by simp
    with Cons.prems(3) have w: "fst w \<noteq> i" by auto
    have rest: "hm_wf us" "\<forall>w \<in> set us. fst w \<noteq> i \<longrightarrow> (\<forall>p. us_quality (snd w) = Some p \<longrightarrow> fst p < t)"
      using Cons.prems(3,4) by simp_all
    note IH = Cons.IH [OF mem Cons.prems(2) rest]
    have "\<forall>p. us_quality (snd w) = Some p \<longrightarrow> fst p < t" using Cons.prems(4) w by simp
    from IH [OF this] IH [OF Cons.prems(5)]
    have "latest b us = Some (t, c)" if "b = best \<or> b = us_quality (snd w)" for b using that by blast
    then show ?thesis by (auto split: option.split)
  qed
qed simp

text \<open>
  A quality request that is newer than every other user's takes effect at once: the call
  stores it for the requesting user and sets the service's ratio to that of the requested quality,
  leaving frame rate, displays and bitrate as they were.
\<close>

theorem image_quality_takes_effect:
  assumes "hm_wf (vq_users q)" and "hm_get (vq_users q) i = Some u" and "convert_quality v = Ret c"
    and "\<forall>w \<in> set (vq_users q). fst w \<noteq> i \<longrightarrow> (\<forall>p. us_quality (snd w) = Some p \<longrightarrow> fst p < t)"
  shows "\<exists>q'. user_image_quality t i v q = Ret q' \<and> vq_ratio q' = quality_ratio c
    \<and> hm_get (vq_users q') i = Some (u\<lparr>us_quality := Some (t, c)\<rparr>)
    \<and> (\<forall>j. j \<noteq> i \<longrightarrow> hm_get (vq_users q') j = hm_get (vq_users q) j)
    \<and> vq_fps q' = vq_fps q \<and> vq_displays q' = vq_displays q \<and> vq_bitrate_store q' = vq_bitrate_store q"
proof -
  let ?u = "u\<lparr>us_quality := Some (t, c)\<rparr>"
  let ?us = "hm_insert i ?u (vq_users q)"
  have m: "modify_user i (\<lambda>u. u\<lparr>us_quality := Some (t, c)\<rparr>) q = q\<lparr>vq_users := ?us\<rparr>"
    using assms(2) by (simp add: modify_user_def)
  have wf: "hm_wf ?us" using assms(1) by (rule hm_wf_insert)
  have i: "(i, ?u) \<in> set ?us" by (rule map_of_SomeD) (simp add: hm_get_insert)
  have "\<forall>w \<in> set ?us. fst w \<noteq> i \<longrightarrow> (\<forall>p. us_quality (snd w) = Some p \<longrightarrow> fst p < t)"
  proof (intro ballI impI allI)
    fix w p
    assume w: "w \<in> set ?us" "fst w \<noteq> i" "us_quality (snd w) = Some p"
    from w(1) wf have "hm_get ?us (fst w) = Some (snd w)" by simp
    with w(2) have "hm_get (vq_users q) (fst w) = Some (snd w)" by (simp add: hm_get_insert)
    then have "w \<in> set (vq_users q)" by (metis map_of_SomeD prod.collapse)
    with w(2,3) assms(4) show "fst p < t" by blast
  qed
  from latest_newest [OF i _ wf this] have "latest None ?us = Some (t, c)" by simp
  with m assms(2,3) show ?thesis
    by (simp add: user_image_quality_def latest_quality_def hm_get_insert)
qed

theorem image_quality_takes_effect_witness:
  "\<exists>q'. user_image_quality 9 7 4 (on_connection_open 0 [] 7 (qos_default 0)) = Ret q' \<and> vq_ratio q' = 3 / 2"
proof -
  let ?q = "on_connection_open 0 [] 7 (qos_default 0)"
  have a: "hm_wf (vq_users ?q)" "hm_get (vq_users ?q) 7 = Some user_default" "convert_quality 4 = Ret Best"
    "\<forall>w \<in> set (vq_users ?q). fst w \<noteq> 7 \<longrightarrow> (\<forall>p. us_quality (snd w) = Some p \<longrightarrow> fst p < 9)"
    by (simp_all add: on_connection_open_def qos_default_def hm_get_insert convert_quality_def)
  from image_quality_takes_effect [OF a] show ?thesis by (auto simp: quality_ratio_def BR_values)
qed

end
