(* ===== verification/Session_Scope.thy ===== *)
theory Session_Scope
  imports Login Codec_Negotiation File_Actions Video_QoS
begin

text \<open>
  The messages of the peer and the filter that keeps an authorised connection within its scope
  (\<^verbatim>\<open>src/server/connection.rs\<close>): which messages and which options a file transfer, port forwarding,
  camera or terminal session may send. The two builds that are modelled are Android and Linux (with
  the Flutter interface, without file copy and paste and plugins).

  An enumeration of the wire format is its number: a value outside the enumeration is
  \<^verbatim>\<open>Err\<close> for \<^verbatim>\<open>enum_value\<close>.
\<close>

subsection \<open>Messages\<close>

datatype bool_option = NotSet | No | Yes

definition bool_option_of :: "int \<Rightarrow> bool_option option" where
  "bool_option_of v = (if v = 0 then Some NotSet else if v = 1 then Some No else if v = 2 then Some Yes else None)"

definition image_quality_of :: "int \<Rightarrow> int option" where
  "image_quality_of v = (if v \<in> {0, 2, 3, 4} then Some v else None)"

record option_message =
  om_image_quality :: int
  om_lock_after_session_end :: int
  om_show_remote_cursor :: int
  om_privacy_mode :: int
  om_block_input :: int
  om_custom_image_quality :: int
  om_disable_audio :: int
  om_disable_clipboard :: int
  om_enable_file_transfer :: int
  om_supported_decoding :: "supported_decoding option"
  om_custom_fps :: int
  om_disable_keyboard :: int
  om_follow_remote_cursor :: int
  om_follow_remote_window :: int
  om_disable_camera :: int
  om_terminal_persistent :: int
  om_show_my_cursor :: int

definition option_message_new :: option_message where
  "option_message_new = \<lparr>om_image_quality = 0, om_lock_after_session_end = 0, om_show_remote_cursor = 0, om_privacy_mode = 0,
     om_block_input = 0, om_custom_image_quality = 0, om_disable_audio = 0, om_disable_clipboard = 0, om_enable_file_transfer = 0,
     om_supported_decoding = None, om_custom_fps = 0, om_disable_keyboard = 0, om_follow_remote_cursor = 0,
     om_follow_remote_window = 0, om_disable_camera = 0, om_terminal_persistent = 0, om_show_my_cursor = 0\<rparr>"

datatype misc =
    ChatMessage string
  | SwitchDisplay int int int
  | OptionMsg option_message
  | AudioFormat nat nat
  | CloseReason string
  | RefreshVideo bool
  | VideoReceived bool
  | RestartRemoteDevice bool
  | SwitchSidesRequest bytes
  | ChangeResolution int int
  | AutoAdjustFps nat
  | ClientRecordStatus bool
  | CaptureDisplays "int list" "int list" "int list"
  | RefreshVideoDisplay int
  | ToggleVirtualDisplay int bool
  | TogglePrivacyMode string bool
  | SelectedSid nat
  | ChangeDisplayResolution int int int
  | MessageQuery int
  | FollowCurrentDisplay int
  | MiscOther
  | MiscEmpty

datatype key_union = ControlKey int | Chr nat | UnicodeKey nat | SeqKey string | OtherKey

record key_event =
  ke_down :: bool
  ke_press :: bool
  ke_union :: key_union
  ke_mode :: int

datatype touch = PanStart int int | PanUpdate int int | PanEnd int int | OtherTouch

datatype message =
    MLogin login_request
  | MTestDelay int bool
  | MSwitchSidesResponse
  | MAuth2fa string bytes
  | MMouse int int int
  | MPointer touch
  | MKey key_event
  | MClipboard bytes
  | MMultiClipboards "bytes list"
  | MCliprdr
  | MFileAction "file_action option"
  | MFileResponse file_response
  | MMisc misc
  | MAudioFrame bytes
  | MVoiceCallRequest int bool
  | MVoiceCallResponse
  | MScreenshotRequest int string
  | MScreenshotResponse
  | MTerminalAction bytes
  | MTerminalResponse
  | MOther
  | MEmpty

subsection \<open>Options\<close>

definition is_bool_option_not_set :: "int \<Rightarrow> bool" where
  "is_bool_option_not_set v \<longleftrightarrow> bool_option_of v = Some NotSet"

definition option_has_non_terminal_login_field :: "option_message \<Rightarrow> bool" where
  "option_has_non_terminal_login_field o1 \<longleftrightarrow>
     image_quality_of (om_image_quality o1) \<noteq> Some 0
     \<or> om_custom_image_quality o1 \<noteq> 0
     \<or> om_custom_fps o1 \<noteq> 0
     \<or> om_supported_decoding o1 \<noteq> None
     \<or> \<not> is_bool_option_not_set (om_lock_after_session_end o1)
     \<or> \<not> is_bool_option_not_set (om_show_remote_cursor o1)
     \<or> \<not> is_bool_option_not_set (om_privacy_mode o1)
     \<or> \<not> is_bool_option_not_set (om_block_input o1)
     \<or> \<not> is_bool_option_not_set (om_disable_audio o1)
     \<or> \<not> is_bool_option_not_set (om_disable_clipboard o1)
     \<or> \<not> is_bool_option_not_set (om_enable_file_transfer o1)
     \<or> \<not> is_bool_option_not_set (om_disable_keyboard o1)
     \<or> \<not> is_bool_option_not_set (om_follow_remote_cursor o1)
     \<or> \<not> is_bool_option_not_set (om_follow_remote_window o1)
     \<or> \<not> is_bool_option_not_set (om_disable_camera o1)
     \<or> \<not> is_bool_option_not_set (om_show_my_cursor o1)"

definition option_has_any_field :: "option_message \<Rightarrow> bool" where
  "option_has_any_field o1 \<longleftrightarrow> option_has_non_terminal_login_field o1 \<or> \<not> is_bool_option_not_set (om_terminal_persistent o1)"

definition option_has_non_view_camera_login_field :: "option_message \<Rightarrow> bool" where
  "option_has_non_view_camera_login_field o1 \<longleftrightarrow>
     \<not> (is_bool_option_not_set (om_lock_after_session_end o1)
        \<and> is_bool_option_not_set (om_show_remote_cursor o1)
        \<and> is_bool_option_not_set (om_privacy_mode o1)
        \<and> is_bool_option_not_set (om_block_input o1)
        \<and> is_bool_option_not_set (om_disable_clipboard o1)
        \<and> is_bool_option_not_set (om_enable_file_transfer o1)
        \<and> is_bool_option_not_set (om_disable_keyboard o1)
        \<and> is_bool_option_not_set (om_follow_remote_cursor o1)
        \<and> is_bool_option_not_set (om_follow_remote_window o1)
        \<and> is_bool_option_not_set (om_disable_camera o1)
        \<and> is_bool_option_not_set (om_terminal_persistent o1)
        \<and> is_bool_option_not_set (om_show_my_cursor o1))"

definition scoped_terminal_login_option :: "option_message \<Rightarrow> option_message option \<times> string option" where
  "scoped_terminal_login_option o1 =
     (let known = bool_option_of (om_terminal_persistent o1) \<noteq> None;
          scoped = (if known then option_message_new\<lparr>om_terminal_persistent := om_terminal_persistent o1\<rparr> else option_message_new);
          violation = (\<not> known \<or> option_has_non_terminal_login_field o1)
      in (if option_has_any_field scoped then Some scoped else None, if violation then Some ''login.option'' else None))"

definition scoped_view_camera_option :: "option_message \<Rightarrow> option_message option \<times> string option" where
  "scoped_view_camera_option o1 =
     (let s = option_message_new;
          s = (if image_quality_of (om_image_quality o1) \<noteq> None then s\<lparr>om_image_quality := om_image_quality o1\<rparr> else s);
          s = (if om_custom_image_quality o1 \<ge> 0 then s\<lparr>om_custom_image_quality := om_custom_image_quality o1\<rparr> else s);
          s = (if om_custom_fps o1 \<ge> 0 then s\<lparr>om_custom_fps := om_custom_fps o1\<rparr> else s);
          s = s\<lparr>om_supported_decoding := om_supported_decoding o1\<rparr>;
          s = (if bool_option_of (om_disable_audio o1) \<noteq> None then s\<lparr>om_disable_audio := om_disable_audio o1\<rparr> else s)
      in (if option_has_any_field s then Some s else None,
          if option_has_non_view_camera_login_field o1 then Some ''login.option'' else None))"

definition scoped_login_option :: "auth_conn_type \<Rightarrow> option_message \<Rightarrow> option_message option \<times> string option" where
  "scoped_login_option t o1 =
     (case t of
        Remote \<Rightarrow> (Some o1, None)
      | ViewCameraConn \<Rightarrow> scoped_view_camera_option o1
      | TerminalConn \<Rightarrow> scoped_terminal_login_option o1
      | FileTransferConn \<Rightarrow> (None, if option_has_any_field o1 then Some ''login.option'' else None)
      | PortForwardConn \<Rightarrow> (None, if option_has_any_field o1 then Some ''login.option'' else None))"

definition scoped_update_option_message :: "auth_conn_type option \<Rightarrow> option_message \<Rightarrow> option_message option" where
  "scoped_update_option_message t o1 =
     (case t of
        Some ViewCameraConn \<Rightarrow> fst (scoped_view_camera_option o1)
      | Some TerminalConn \<Rightarrow> fst (scoped_terminal_login_option o1)
      | _ \<Rightarrow> None)"

definition is_supported_decoding_only_option :: "option_message \<Rightarrow> bool" where
  "is_supported_decoding_only_option o1 \<longleftrightarrow>
     om_supported_decoding o1 \<noteq> None
     \<and> image_quality_of (om_image_quality o1) = Some 0
     \<and> om_custom_image_quality o1 = 0
     \<and> om_custom_fps o1 = 0
     \<and> is_bool_option_not_set (om_lock_after_session_end o1)
     \<and> is_bool_option_not_set (om_show_remote_cursor o1)
     \<and> is_bool_option_not_set (om_privacy_mode o1)
     \<and> is_bool_option_not_set (om_block_input o1)
     \<and> is_bool_option_not_set (om_disable_audio o1)
     \<and> is_bool_option_not_set (om_disable_clipboard o1)
     \<and> is_bool_option_not_set (om_enable_file_transfer o1)
     \<and> is_bool_option_not_set (om_disable_keyboard o1)
     \<and> is_bool_option_not_set (om_follow_remote_cursor o1)
     \<and> is_bool_option_not_set (om_follow_remote_window o1)
     \<and> is_bool_option_not_set (om_disable_camera o1)
     \<and> is_bool_option_not_set (om_terminal_persistent o1)
     \<and> is_bool_option_not_set (om_show_my_cursor o1)"

subsection \<open>The filter\<close>

fun is_connection_housekeeping_message :: "message \<Rightarrow> bool" where
  "is_connection_housekeeping_message (MLogin lr) = True"
| "is_connection_housekeeping_message (MTestDelay t from_client) = True"
| "is_connection_housekeeping_message (MMisc (CloseReason r)) = True"
| "is_connection_housekeeping_message _ = False"

fun is_render_broadcast_noop_compat_message :: "message \<Rightarrow> bool" where
  "is_render_broadcast_noop_compat_message (MMisc (RefreshVideo b)) = True"
| "is_render_broadcast_noop_compat_message (MMisc (RefreshVideoDisplay d)) = True"
| "is_render_broadcast_noop_compat_message (MMisc (OptionMsg o1)) = is_supported_decoding_only_option o1"
| "is_render_broadcast_noop_compat_message _ = False"

fun is_text_clipboard_noop_compat_message :: "message \<Rightarrow> bool" where
  "is_text_clipboard_noop_compat_message (MClipboard c) = True"
| "is_text_clipboard_noop_compat_message (MMultiClipboards cs) = True"
| "is_text_clipboard_noop_compat_message _ = False"

fun is_file_transfer_scoped_message :: "message \<Rightarrow> bool" where
  "is_file_transfer_scoped_message (MFileAction fa) = True"
| "is_file_transfer_scoped_message (MFileResponse fr) = True"
| "is_file_transfer_scoped_message _ = False"

fun is_terminal_scoped_misc :: "misc \<Rightarrow> bool" where
  "is_terminal_scoped_misc (ChatMessage t) = True"
| "is_terminal_scoped_misc (OptionMsg o1) = (snd (scoped_terminal_login_option o1) = None)"
| "is_terminal_scoped_misc _ = False"

fun is_terminal_scoped_message :: "message \<Rightarrow> bool" where
  "is_terminal_scoped_message (MTerminalAction a) = True"
| "is_terminal_scoped_message (MMisc m) = is_terminal_scoped_misc m"
| "is_terminal_scoped_message _ = False"

fun is_view_camera_scoped_misc :: "misc \<Rightarrow> bool" where
  "is_view_camera_scoped_misc (SwitchDisplay d w h) = True"
| "is_view_camera_scoped_misc (CaptureDisplays a s t) = True"
| "is_view_camera_scoped_misc (RefreshVideo b) = True"
| "is_view_camera_scoped_misc (RefreshVideoDisplay d) = True"
| "is_view_camera_scoped_misc (VideoReceived b) = True"
| "is_view_camera_scoped_misc (ChatMessage t) = True"
| "is_view_camera_scoped_misc (AudioFormat r c) = True"
| "is_view_camera_scoped_misc (ClientRecordStatus b) = True"
| "is_view_camera_scoped_misc (MessageQuery d) = True"
| "is_view_camera_scoped_misc (TogglePrivacyMode k on) = True"
| "is_view_camera_scoped_misc (ToggleVirtualDisplay d on) = True"
| "is_view_camera_scoped_misc (ChangeResolution w h) = True"
| "is_view_camera_scoped_misc (ChangeDisplayResolution d w h) = True"
| "is_view_camera_scoped_misc (OptionMsg o1) = (snd (scoped_view_camera_option o1) = None)"
| "is_view_camera_scoped_misc _ = False"

fun is_view_camera_scoped_message :: "message \<Rightarrow> bool" where
  "is_view_camera_scoped_message (MScreenshotRequest d sid) = True"
| "is_view_camera_scoped_message (MMisc m) = is_view_camera_scoped_misc m"
| "is_view_camera_scoped_message (MMouse m x y) = True"
| "is_view_camera_scoped_message (MPointer t) = True"
| "is_view_camera_scoped_message (MKey k) = True"
| "is_view_camera_scoped_message (MAudioFrame d) = True"
| "is_view_camera_scoped_message (MVoiceCallRequest t c) = True"
| "is_view_camera_scoped_message MVoiceCallResponse = True"
| "is_view_camera_scoped_message _ = False"

fun misc_message_family :: "misc \<Rightarrow> string" where
  "misc_message_family (ChatMessage _) = ''misc.chat_message''"
| "misc_message_family (SwitchDisplay _ _ _) = ''misc.switch_display''"
| "misc_message_family (OptionMsg _) = ''misc.option''"
| "misc_message_family (AudioFormat _ _) = ''misc.audio_format''"
| "misc_message_family (CaptureDisplays _ _ _) = ''misc.capture_displays''"
| "misc_message_family (ClientRecordStatus _) = ''misc.client_record_status''"
| "misc_message_family (TogglePrivacyMode _ _) = ''misc.toggle_privacy_mode''"
| "misc_message_family (ToggleVirtualDisplay _ _) = ''misc.toggle_virtual_display''"
| "misc_message_family (SelectedSid _) = ''misc.selected_sid''"
| "misc_message_family (ChangeResolution _ _) = ''misc.change_resolution''"
| "misc_message_family (ChangeDisplayResolution _ _ _) = ''misc.change_display_resolution''"
| "misc_message_family (MessageQuery _) = ''misc.message_query''"
| "misc_message_family (FollowCurrentDisplay _) = ''misc.follow_current_display''"
| "misc_message_family MiscEmpty = ''misc.empty''"
| "misc_message_family _ = ''misc.other''"

fun message_family :: "message \<Rightarrow> string" where
  "message_family (MMouse _ _ _) = ''mouse_event''"
| "message_family (MAudioFrame _) = ''audio_frame''"
| "message_family (MPointer _) = ''pointer_device_event''"
| "message_family (MKey _) = ''key_event''"
| "message_family (MClipboard _) = ''clipboard''"
| "message_family (MFileAction _) = ''file_action''"
| "message_family (MFileResponse _) = ''file_response''"
| "message_family (MVoiceCallRequest _ _) = ''voice_call_request''"
| "message_family MVoiceCallResponse = ''voice_call_response''"
| "message_family (MMultiClipboards _) = ''multi_clipboards''"
| "message_family (MScreenshotRequest _ _) = ''screenshot_request''"
| "message_family MScreenshotResponse = ''screenshot_response''"
| "message_family (MTerminalAction _) = ''terminal_action''"
| "message_family MTerminalResponse = ''terminal_response''"
| "message_family (MMisc m) = misc_message_family m"
| "message_family MEmpty = ''empty''"
| "message_family _ = ''message.other''"

definition authorized_message_scope_violation :: "auth_conn_type \<Rightarrow> message \<Rightarrow> string option" where
  "authorized_message_scope_violation t msg =
     (if is_connection_housekeeping_message msg then None
      else
        let noop_compat = (case t of
              FileTransferConn \<Rightarrow> is_render_broadcast_noop_compat_message msg \<or> is_text_clipboard_noop_compat_message msg
            | TerminalConn \<Rightarrow> is_render_broadcast_noop_compat_message msg \<or> is_text_clipboard_noop_compat_message msg
            | PortForwardConn \<Rightarrow> is_render_broadcast_noop_compat_message msg
            | ViewCameraConn \<Rightarrow> is_text_clipboard_noop_compat_message msg
            | Remote \<Rightarrow> False);
            allowed = (case t of
              Remote \<Rightarrow> True
            | FileTransferConn \<Rightarrow> is_file_transfer_scoped_message msg
            | PortForwardConn \<Rightarrow> False
            | ViewCameraConn \<Rightarrow> is_view_camera_scoped_message msg
            | TerminalConn \<Rightarrow> is_terminal_scoped_message msg)
        in if noop_compat \<or> allowed then None else Some (message_family msg))"

definition authorized_scope_violation :: "auth_conn_type option \<Rightarrow> message \<Rightarrow> string option" where
  "authorized_scope_violation t msg =
     (case t of
        None \<Rightarrow> if is_connection_housekeeping_message msg then None else Some ''session.auth_type''
      | Some t \<Rightarrow> authorized_message_scope_violation t msg)"

end
