(* ===== verification/Services.thy ===== *)
theory Services
  imports Prelude
begin

text \<open>
  The services a controlled machine offers to its connections (\<^verbatim>\<open>src/server/service.rs\<close>) and the
  registry that holds them (\<^verbatim>\<open>struct Server\<close> in \<^verbatim>\<open>src/server.rs\<close>): who is subscribed to what,
  and what each subscriber is sent. A connection is its id; \<open>sv_sent\<close> is what has been put into each
  connection's channel, in order.

  A service thread and the connections share a service under a lock, so the operations below, each
  of which takes the lock once, are the atomic steps; the snapshot for new subscribers takes it
  several times and is a sequence of steps.
\<close>

subsection \<open>One service\<close>

record 'm service =
  sv_name :: string
  sv_subscribes :: "int set"
  sv_new_subscribes :: "int set"
  sv_active :: bool
  sv_need_snapshot :: bool
  sv_options :: "(string, string) hashmap"
  sv_sent :: "int \<Rightarrow> 'm list"

definition service_new :: "string \<Rightarrow> bool \<Rightarrow> 'm service" where
  "service_new name need_snapshot =
     \<lparr>sv_name = name, sv_subscribes = {}, sv_new_subscribes = {}, sv_active = True, sv_need_snapshot = need_snapshot,
      sv_options = [], sv_sent = (\<lambda>_. [])\<rparr>"

definition is_subed :: "int \<Rightarrow> 'm service \<Rightarrow> bool" where
  "is_subed i s \<longleftrightarrow> i \<in> sv_subscribes s \<or> i \<in> sv_new_subscribes s"

definition on_subscribe :: "int \<Rightarrow> 'm service \<Rightarrow> 'm service" where
  "on_subscribe i s =
     (if i \<in> sv_subscribes s then s
      else if sv_need_snapshot s then s\<lparr>sv_new_subscribes := insert i (sv_new_subscribes s)\<rparr>
      else s\<lparr>sv_subscribes := insert i (sv_subscribes s)\<rparr>)"

definition on_unsubscribe :: "int \<Rightarrow> 'm service \<Rightarrow> 'm service" where
  "on_unsubscribe i s =
     (if i \<in> sv_subscribes s then s\<lparr>sv_subscribes := sv_subscribes s - {i}\<rparr>
      else s\<lparr>sv_new_subscribes := sv_new_subscribes s - {i}\<rparr>)"

definition service_join :: "'m service \<Rightarrow> 'm service" where
  "service_join s = s\<lparr>sv_active := False\<rparr>"

definition get_option :: "string \<Rightarrow> 'm service \<Rightarrow> string option" where
  "get_option opt s = hm_get (sv_options s) opt"

definition set_option :: "string \<Rightarrow> string \<Rightarrow> 'm service \<Rightarrow> 'm service" where
  "set_option opt val s = s\<lparr>sv_options := hm_insert opt val (sv_options s)\<rparr>"

definition is_option_true :: "string \<Rightarrow> 'm service \<Rightarrow> bool" where
  "is_option_true opt s \<longleftrightarrow> get_option opt s = Some ''1''"

definition set_option_bool :: "string \<Rightarrow> bool \<Rightarrow> 'm service \<Rightarrow> 'm service" where
  "set_option_bool opt val s = set_option opt (if val then ''1'' else ''0'') s"

definition has_subscribes :: "'m service \<Rightarrow> bool" where
  "has_subscribes s \<longleftrightarrow> sv_subscribes s \<noteq> {} \<or> sv_new_subscribes s \<noteq> {}"

definition service_ok :: "'m service \<Rightarrow> bool" where
  "service_ok s \<longleftrightarrow> sv_active s \<and> has_subscribes s"

subsection \<open>Sending\<close>

definition send_among :: "int set \<Rightarrow> 'm \<Rightarrow> 'm service \<Rightarrow> 'm service" where
  "send_among ids m s = s\<lparr>sv_sent := (\<lambda>i. if i \<in> ids then sv_sent s i @ [m] else sv_sent s i)\<rparr>"

definition send_shared :: "'m \<Rightarrow> 'm service \<Rightarrow> 'm service" where
  "send_shared m s = send_among (sv_subscribes s) m s"

definition send_to :: "'m \<Rightarrow> int \<Rightarrow> 'm service \<Rightarrow> 'm service" where
  "send_to m i s = (if i \<in> sv_subscribes s then send_among {i} m s else s)"

definition send_to_others :: "'m \<Rightarrow> int \<Rightarrow> 'm service \<Rightarrow> 'm service" where
  "send_to_others m i s = send_among (sv_subscribes s - {i}) m s"

definition send_video_frame :: "'m \<Rightarrow> 'm service \<Rightarrow> 'm service \<times> int set" where
  "send_video_frame m s = (send_shared m s, sv_subscribes s)"

definition send_without :: "'m \<Rightarrow> int \<Rightarrow> 'm service \<Rightarrow> 'm service" where
  "send_without m i s = send_among (sv_subscribes s - {i}) m s"

definition send_new_subscribes :: "'m \<Rightarrow> 'm service \<Rightarrow> 'm service" where
  "send_new_subscribes m s = send_among (sv_new_subscribes s) m s"

definition swap_new_subscribes :: "'m service \<Rightarrow> 'm service" where
  "swap_new_subscribes s = s\<lparr>sv_subscribes := sv_subscribes s \<union> sv_new_subscribes s, sv_new_subscribes := {}\<rparr>"

text \<open>
  \<^verbatim>\<open>snapshot\<close> without interference: the callback sends some messages through the \<^verbatim>\<open>ServiceSwap\<close>,
  and dropping it, after success or failure, makes the new subscribers ordinary ones.
\<close>

definition snapshot :: "'m list \<Rightarrow> 'm service \<Rightarrow> 'm service" where
  "snapshot ms s =
     (if sv_new_subscribes s = {} then s else swap_new_subscribes (fold send_new_subscribes ms s))"

subsection \<open>The registry\<close>

datatype video_source = Monitor | Camera

definition service_name_prefix :: "video_source \<Rightarrow> string" where
  "service_name_prefix src = (case src of Monitor \<Rightarrow> ''monitor'' | Camera \<Rightarrow> ''camera'')"

definition get_service_name :: "video_source \<Rightarrow> nat \<Rightarrow> string" where
  "get_service_name src idx = service_name_prefix src @ show_nat idx"

definition is_video_service_name :: "string \<Rightarrow> bool" where
  "is_video_service_name name \<longleftrightarrow> prefix (service_name_prefix Monitor) name \<or> prefix (service_name_prefix Camera) name"

record 'm server =
  sr_connections :: "int set"
  sr_services :: "(string, 'm service) hashmap"
  sr_id_count :: int

definition add_service :: "'m service \<Rightarrow> 'm server \<Rightarrow> 'm server" where
  "add_service s sr = sr\<lparr>sr_services := hm_insert (sv_name s) s (sr_services sr)\<rparr>"

definition contains :: "string \<Rightarrow> 'm server \<Rightarrow> bool" where
  "contains name sr \<longleftrightarrow> hm_get (sr_services sr) name \<noteq> None"

definition on_services :: "(string \<Rightarrow> 'm service \<Rightarrow> 'm service) \<Rightarrow> 'm server \<Rightarrow> 'm server" where
  "on_services f sr = sr\<lparr>sr_services := map (\<lambda>(n, s). (n, f n s)) (sr_services sr)\<rparr>"

definition video_service_new :: "video_source \<Rightarrow> nat \<Rightarrow> 'm service" where
  "video_service_new src idx = service_new (get_service_name src idx) True"

definition ensure_video_service :: "video_source \<Rightarrow> nat \<Rightarrow> 'm server \<Rightarrow> 'm server" where
  "ensure_video_service src idx sr =
     (if contains (get_service_name src idx) sr then sr else add_service (video_service_new src idx) sr)"

definition PRIMARY_CAMERA_IDX :: nat where "PRIMARY_CAMERA_IDX = 0"

definition try_add_primary_camera_service :: "bool \<Rightarrow> 'm server \<Rightarrow> 'm server" where
  "try_add_primary_camera_service camera_exists sr =
     (if \<not> camera_exists then sr else ensure_video_service Camera PRIMARY_CAMERA_IDX sr)"

definition try_add_primay_video_service :: "nat \<Rightarrow> 'm server \<Rightarrow> 'm server" where
  "try_add_primay_video_service primary sr = ensure_video_service Monitor primary sr"

definition add_camera_connection :: "bool \<Rightarrow> int \<Rightarrow> 'm server \<Rightarrow> 'm server" where
  "add_camera_connection camera_exists i sr =
     (let name = get_service_name Camera PRIMARY_CAMERA_IDX;
          sr = (if camera_exists then on_services (\<lambda>n s. if n = name then on_subscribe i s else s) sr else sr)
      in sr\<lparr>sr_connections := insert i (sr_connections sr)\<rparr>)"

definition add_connection :: "nat \<Rightarrow> int \<Rightarrow> string list \<Rightarrow> 'm server \<Rightarrow> 'm server" where
  "add_connection primary i noperms sr =
     (let name = get_service_name Monitor primary;
          sr = on_services (\<lambda>n s. if is_video_service_name (sv_name s) \<and> sv_name s \<noteq> name then s
                                  else if sv_name s \<notin> set noperms then on_subscribe i s else s) sr
      in sr\<lparr>sr_connections := insert i (sr_connections sr)\<rparr>)"

definition remove_connection :: "int \<Rightarrow> 'm server \<Rightarrow> 'm server" where
  "remove_connection i sr =
     (on_services (\<lambda>_. on_unsubscribe i) sr)\<lparr>sr_connections := sr_connections sr - {i}\<rparr>"

definition subscribe :: "string \<Rightarrow> int \<Rightarrow> bool \<Rightarrow> 'm server \<Rightarrow> 'm server" where
  "subscribe name i sub sr =
     on_services (\<lambda>n s. if n \<noteq> name \<or> is_subed i s = sub then s
                        else if sub then on_subscribe i s else on_unsubscribe i s) sr"

definition get_new_id :: "'m server \<Rightarrow> int \<times> 'm server" where
  "get_new_id sr = (let n = wrap_i32 (sr_id_count sr + 1) in (n, sr\<lparr>sr_id_count := n\<rparr>))"

definition set_video_service_opt :: "(video_source \<times> nat) option \<Rightarrow> string \<Rightarrow> string \<Rightarrow> 'm server \<Rightarrow> 'm server" where
  "set_video_service_opt display opt val sr =
     on_services (\<lambda>n s. if (case display of Some (src, d) \<Rightarrow> n \<noteq> get_service_name src d | None \<Rightarrow> False) then s
                        else if is_video_service_name n then set_option opt val s else s) sr"

definition subed_at :: "string \<Rightarrow> int \<Rightarrow> 'm server \<Rightarrow> bool" where
  "subed_at name i sr = (case hm_get (sr_services sr) name of Some s \<Rightarrow> is_subed i s | None \<Rightarrow> False)"

definition get_subbed_displays_count :: "int \<Rightarrow> 'm server \<Rightarrow> nat" where
  "get_subbed_displays_count i sr =
     length (filter (\<lambda>k. is_video_service_name k \<and> subed_at k i sr) (map fst (sr_services sr)))"

definition capture_displays_at :: "int \<Rightarrow> video_source \<Rightarrow> nat list \<Rightarrow> bool \<Rightarrow> bool \<Rightarrow> 'm server \<Rightarrow> 'm server" where
  "capture_displays_at i src displays inc exc sr =
     (let names = map (get_service_name src) displays in
      foldl (\<lambda>sr name.
          if is_video_service_name name then
            (if name \<in> set names then (if inc then subscribe name i True sr else sr)
             else if exc then subscribe name i False sr else sr)
          else sr) sr (map fst (sr_services sr)))"

text \<open>
  The services \<^verbatim>\<open>server::new\<close> registers on Linux under X11 with a separate cursor and on Android.
\<close>

definition NAME_AUDIO :: string where "NAME_AUDIO = ''audio''"
definition NAME_DISPLAY :: string where "NAME_DISPLAY = ''display''"
definition NAME_CLIPBOARD :: string where "NAME_CLIPBOARD = ''clipboard''"
definition NAME_CURSOR :: string where "NAME_CURSOR = ''mouse_cursor''"
definition NAME_POS :: string where "NAME_POS = ''mouse_pos''"
definition NAME_WINDOW_FOCUS :: string where "NAME_WINDOW_FOCUS = ''window_focus''"

definition takes_snapshot :: "string \<Rightarrow> bool" where
  "takes_snapshot name \<longleftrightarrow> name \<in> {NAME_AUDIO, NAME_DISPLAY, NAME_CURSOR}"

definition server_new :: "bool \<Rightarrow> int \<Rightarrow> 'm server" where
  "server_new mobile r =
     \<lparr>sr_connections = {},
      sr_services = map (\<lambda>n. (n, service_new n (takes_snapshot n)))
        ([NAME_AUDIO, NAME_DISPLAY, NAME_CLIPBOARD] @ (if mobile then [] else [NAME_CURSOR, NAME_POS, NAME_WINDOW_FOCUS])),
      sr_id_count = (if r \<ge> 0 then r mod 1000 else - ((- r) mod 1000)) + 1000\<rparr>"

subsection \<open>The registry keeps its shape\<close>

definition service_wf :: "string \<Rightarrow> 'm service \<Rightarrow> bool" where
  "service_wf n s \<longleftrightarrow> sv_name s = n \<and> sv_subscribes s \<inter> sv_new_subscribes s = {} \<and> (\<not> sv_need_snapshot s \<longrightarrow> sv_new_subscribes s = {})"

definition registry_ok :: "'m server \<Rightarrow> bool" where
  "registry_ok sr \<longleftrightarrow> hm_wf (sr_services sr) \<and> (\<forall>(n, s) \<in> set (sr_services sr). service_wf n s)"

named_theorems service_wf_intros

lemma on_subscribe_wf [service_wf_intros]: "service_wf n s \<Longrightarrow> service_wf n (on_subscribe i s)"
  by (auto simp: service_wf_def on_subscribe_def)

lemma on_unsubscribe_wf [service_wf_intros]: "service_wf n s \<Longrightarrow> service_wf n (on_unsubscribe i s)"
  by (auto simp: service_wf_def on_unsubscribe_def)

lemma set_option_wf [service_wf_intros]: "service_wf n s \<Longrightarrow> service_wf n (set_option opt val s)"
  by (simp add: service_wf_def set_option_def)

lemma service_new_wf [service_wf_intros]: "service_wf n (service_new n b)"
  by (simp add: service_wf_def service_new_def)

lemma is_subed_simps:
  "service_wf n s \<Longrightarrow> is_subed j (on_subscribe i s) \<longleftrightarrow> j = i \<or> is_subed j s"
  "service_wf n s \<Longrightarrow> is_subed j (on_unsubscribe i s) \<longleftrightarrow> j \<noteq> i \<and> is_subed j s"
  "is_subed j (set_option opt val s) = is_subed j s"
  "\<not> is_subed j (service_new n b)"
  by (auto simp: service_wf_def is_subed_def on_subscribe_def on_unsubscribe_def set_option_def service_new_def)

lemma hm_get_map: "hm_get (map (\<lambda>(k, v). (k, f k v)) m) k = map_option (f k) (hm_get m k)"
  by (induction m) auto

lemma registry_on_services:
  assumes "registry_ok sr" and "\<And>n s. service_wf n s \<Longrightarrow> service_wf n (f n s)"
  shows "registry_ok (on_services f sr)"
proof -
  have "map fst (sr_services (on_services f sr)) = map fst (sr_services sr)"
    by (simp add: on_services_def hm_keys_map del: map_map)
  then have "hm_wf (sr_services (on_services f sr))" using assms(1) by (simp only: registry_ok_def)
  then show ?thesis using assms by (auto simp: registry_ok_def on_services_def)
qed

lemma registry_get: "registry_ok sr \<Longrightarrow> hm_get (sr_services sr) n = Some s \<Longrightarrow> service_wf n s"
  by (auto simp: registry_ok_def dest!: map_of_SomeD)

lemma contains_on_services [simp]: "contains n (on_services f sr) = contains n sr"
  by (simp add: contains_def on_services_def hm_get_map)

lemma subed_connections [simp]: "subed_at n i (sr\<lparr>sr_connections := c\<rparr>) = subed_at n i sr"
  by (simp add: subed_at_def)

lemma registry_connections [simp]: "registry_ok (sr\<lparr>sr_connections := c\<rparr>) = registry_ok sr"
  by (simp add: registry_ok_def)

lemma registry_subscribe: "registry_ok sr \<Longrightarrow> registry_ok (subscribe name i b sr)"
  unfolding subscribe_def by (rule registry_on_services) (auto intro: service_wf_intros)

lemma subed_subscribe:
  assumes "registry_ok sr"
  shows "subed_at n j (subscribe name i b sr)
    \<longleftrightarrow> (if n = name \<and> j = i then b \<and> contains n sr else subed_at n j sr)"
  using registry_get [OF assms, of n]
  by (auto simp: subscribe_def subed_at_def contains_def on_services_def hm_get_map is_subed_simps split: option.splits)

lemma contains_subscribe [simp]: "contains n (subscribe name i b sr) = contains n sr"
  by (simp add: subscribe_def)

text \<open>What a client of the registry may rely on, and what follows for whoever guards its subscriptions.\<close>

locale subscription_registry =
  fixes sub :: "string \<Rightarrow> int \<Rightarrow> bool \<Rightarrow> 'r \<Rightarrow> 'r" and subed :: "string \<Rightarrow> int \<Rightarrow> 'r \<Rightarrow> bool" and valid :: "'r \<Rightarrow> bool"
  assumes sub_valid: "valid r \<Longrightarrow> valid (sub n i b r)"
    and sub_self: "valid r \<Longrightarrow> subed n i (sub n i b r) \<Longrightarrow> b"
    and sub_other: "valid r \<Longrightarrow> n \<noteq> m \<or> i \<noteq> j \<Longrightarrow> subed n i (sub m j b r) = subed n i r"
begin

lemma sub_guarded:
  assumes "valid r" and "\<And>n. n \<noteq> m \<Longrightarrow> subed n i r \<Longrightarrow> g n" and "b \<Longrightarrow> g m" and "subed n i (sub m i b r)"
  shows "g n"
  using assms sub_self [of r m i b] sub_other [of r n m i i b] by (cases "n = m") auto

lemma sub_elsewhere: "valid r \<Longrightarrow> i \<noteq> j \<Longrightarrow> subed n i (sub m j b r) = subed n i r"
  by (simp add: sub_other)

end

interpretation registry: subscription_registry subscribe subed_at registry_ok
  by unfold_locales (auto simp: registry_subscribe subed_subscribe)

subsection \<open>The other operations of the registry\<close>

lemma registry_add_service: "registry_ok sr \<Longrightarrow> service_wf (sv_name s) s \<Longrightarrow> registry_ok (add_service s sr)"
  unfolding registry_ok_def add_service_def server.simps
  by (auto simp: hm_wf_insert dest!: hm_set_insert)

lemma registry_ensure: "registry_ok sr \<Longrightarrow> registry_ok (ensure_video_service src d sr)"
  by (auto simp: ensure_video_service_def video_service_new_def intro!: registry_add_service service_wf_intros)
    (simp add: service_new_def service_wf_def)

lemma subed_ensure [simp]: "subed_at n i (ensure_video_service src d sr) = subed_at n i sr"
  by (auto simp: ensure_video_service_def video_service_new_def add_service_def subed_at_def contains_def hm_get_insert
      service_new_def is_subed_def)

lemma registry_set_video_service_opt: "registry_ok sr \<Longrightarrow> registry_ok (set_video_service_opt d opt val sr)"
  unfolding set_video_service_opt_def by (rule registry_on_services) (auto intro: service_wf_intros)

lemma subed_set_video_service_opt [simp]: "subed_at n i (set_video_service_opt d opt val sr) = subed_at n i sr"
  by (auto simp: set_video_service_opt_def subed_at_def on_services_def hm_get_map is_subed_simps split: option.splits)

text \<open>Only video services of the given source are newly subscribed when displays are chosen.\<close>

lemma capture_displays_at_registry:
  assumes "registry_ok sr"
  shows "registry_ok (capture_displays_at i src ds inc exc sr)
    \<and> (subed_at n j (capture_displays_at i src ds inc exc sr) \<longrightarrow> subed_at n j sr \<or> j = i \<and> n \<in> get_service_name src ` set ds)"
proof -
  define step where "step = (\<lambda>sr name. if is_video_service_name name then
            (if name \<in> set (map (get_service_name src) ds) then (if inc then subscribe name i True sr else sr)
             else if exc then subscribe name i False sr else sr)
          else (sr :: 'a server))"
  have step: "registry_ok (step sr k)
      \<and> (subed_at n j (step sr k) \<longrightarrow> subed_at n j sr \<or> j = i \<and> n \<in> get_service_name src ` set ds)" if "registry_ok sr" for sr k
    using that by (auto simp: step_def subed_subscribe registry_subscribe split: if_split_asm)
  have "registry_ok (foldl step sr ks) \<and> (subed_at n j (foldl step sr ks) \<longrightarrow> subed_at n j sr \<or> j = i \<and> n \<in> get_service_name src ` set ds)" for ks
    using assms
  proof (induction ks arbitrary: sr)
    case (Cons k ks)
    then show ?case using step [OF Cons.prems, of k] Cons.IH [of "step sr k"] by auto
  qed auto
  then show ?thesis by (simp add: capture_displays_at_def Let_def step_def [symmetric])
qed

lemma registry_add_connection: "registry_ok sr \<Longrightarrow> registry_ok (add_connection primary i noperms sr)"
  unfolding add_connection_def Let_def registry_connections by (rule registry_on_services) (auto intro: service_wf_intros)

lemma subed_add_connection:
  assumes "registry_ok sr"
  shows "subed_at n j (add_connection primary i noperms sr)
    \<longrightarrow> subed_at n j sr \<or> j = i \<and> n \<notin> set noperms \<and> (is_video_service_name n \<longrightarrow> n = get_service_name Monitor primary)"
  using registry_get [OF assms, of n]
  by (auto simp: add_connection_def Let_def subed_at_def on_services_def hm_get_map is_subed_simps service_wf_def
      split: option.splits if_split_asm)

lemma registry_add_camera_connection: "registry_ok sr \<Longrightarrow> registry_ok (add_camera_connection b i sr)"
  by (auto simp: add_camera_connection_def Let_def intro!: registry_on_services service_wf_intros)

lemma subed_add_camera_connection:
  assumes "registry_ok sr"
  shows "subed_at n j (add_camera_connection b i sr)
    \<longrightarrow> subed_at n j sr \<or> j = i \<and> n = get_service_name Camera PRIMARY_CAMERA_IDX"
  using registry_get [OF assms, of n]
  by (auto simp: add_camera_connection_def Let_def subed_at_def on_services_def hm_get_map is_subed_simps
      split: option.splits if_split_asm)

lemma remove_connection_unsubscribes:
  assumes "registry_ok sr"
  shows "registry_ok (remove_connection i sr) \<and> subed_at n j (remove_connection i sr) = (j \<noteq> i \<and> subed_at n j sr)"
  using assms registry_get [OF assms, of n]
  by (auto simp: remove_connection_def subed_at_def on_services_def hm_get_map is_subed_simps
      intro!: registry_on_services [unfolded on_services_def] service_wf_intros split: option.splits)

lemma registry_server_new: "registry_ok (server_new mobile r)"
  by (auto simp: registry_ok_def server_new_def service_wf_def service_new_def NAME_AUDIO_def NAME_DISPLAY_def NAME_CLIPBOARD_def
      NAME_CURSOR_def NAME_POS_def NAME_WINDOW_FOCUS_def)

lemma video_names:
  "is_video_service_name (get_service_name src d)"
  "get_service_name Monitor d \<noteq> get_service_name Camera e"
  "\<not> is_video_service_name NAME_AUDIO" "\<not> is_video_service_name NAME_DISPLAY" "\<not> is_video_service_name NAME_CLIPBOARD"
  "\<not> is_video_service_name NAME_CURSOR" "\<not> is_video_service_name NAME_POS" "\<not> is_video_service_name NAME_WINDOW_FOCUS"
  by (auto simp: is_video_service_name_def get_service_name_def service_name_prefix_def NAME_AUDIO_def NAME_DISPLAY_def
      NAME_CLIPBOARD_def NAME_CURSOR_def NAME_POS_def NAME_WINDOW_FOCUS_def split: video_source.splits)

subsection \<open>Snapshots\<close>

text \<open>
  One connection's view of a service: not subscribed, waiting for the snapshot, or following the
  updates, with what it was sent. When snapshots are not disturbed by subscriptions, a connection
  that follows first received the whole snapshot; a subscription that falls between the snapshot and
  the swap is swapped in with the others and never gets one.
\<close>

datatype 'm sv_event = Subscribe int | Unsubscribe int | UpdateAll 'm | Snapshot "'m list"

fun sv_step :: "'m sv_event \<Rightarrow> 'm service \<Rightarrow> 'm service" where
  "sv_step (Subscribe i) s = on_subscribe i s"
| "sv_step (Unsubscribe i) s = on_unsubscribe i s"
| "sv_step (UpdateAll m) s = send_shared m s"
| "sv_step (Snapshot ms) s = snapshot ms s"

datatype view = Absent | Waiting | Following

definition view_of :: "int \<Rightarrow> 'm service \<Rightarrow> view \<times> 'm list" where
  "view_of i s = (if i \<in> sv_subscribes s then Following else if i \<in> sv_new_subscribes s then Waiting else Absent, sv_sent s i)"

fun view_step :: "int \<Rightarrow> 'm sv_event \<Rightarrow> view \<times> 'm list \<Rightarrow> view \<times> 'm list" where
  "view_step i (Subscribe j) (v, ms) = (if i = j \<and> v = Absent then (Waiting, ms) else (v, ms))"
| "view_step i (Unsubscribe j) (v, ms) = (if i = j then (Absent, ms) else (v, ms))"
| "view_step i (UpdateAll m) (v, ms) = (if v = Following then (v, ms @ [m]) else (v, ms))"
| "view_step i (Snapshot sn) (v, ms) = (if v = Waiting then (Following, ms @ sn) else (v, ms))"

lemma fold_send_new:
  "sv_subscribes (fold send_new_subscribes ms s) = sv_subscribes s"
  "sv_new_subscribes (fold send_new_subscribes ms s) = sv_new_subscribes s"
  "sv_sent (fold send_new_subscribes ms s) i = (if i \<in> sv_new_subscribes s then sv_sent s i @ ms else sv_sent s i)"
  by (induction ms arbitrary: s) (auto simp: send_new_subscribes_def send_among_def)

lemma service_refines_views:
  assumes "service_wf n s" and "sv_need_snapshot s"
  shows "view_of i (sv_step e s) = view_step i e (view_of i s)"
proof (cases e)
  case (Subscribe j)
  with assms show ?thesis by (auto simp: view_of_def on_subscribe_def)
next
  case (Unsubscribe j)
  have "i \<in> sv_subscribes s \<Longrightarrow> i \<notin> sv_new_subscribes s" using assms(1) by (auto simp: service_wf_def)
  with Unsubscribe show ?thesis by (cases "i = j"; cases "j \<in> sv_subscribes s") (simp_all add: view_of_def on_unsubscribe_def)
next
  case (UpdateAll m)
  then show ?thesis by (simp add: view_of_def send_shared_def send_among_def)
next
  case (Snapshot ms)
  have "i \<in> sv_subscribes s \<Longrightarrow> i \<notin> sv_new_subscribes s" using assms(1) by (auto simp: service_wf_def)
  with Snapshot show ?thesis
    by (cases "sv_new_subscribes s = {}"; cases "i \<in> sv_subscribes s"; cases "i \<in> sv_new_subscribes s")
      (simp_all add: view_of_def snapshot_def swap_new_subscribes_def fold_send_new)
qed

lemma late_subscriber_misses_snapshot:
  "let s = on_subscribe 2 (send_new_subscribes m (on_subscribe 1 (service_new name True)))
   in view_of 1 (swap_new_subscribes s) = (Following, [m]) \<and> view_of 2 (swap_new_subscribes s) = (Following, [])"
  by (simp add: view_of_def on_subscribe_def service_new_def send_new_subscribes_def send_among_def swap_new_subscribes_def)

end
