(* ===== verification/File_Sessions.thy ===== *)
theory File_Sessions
  imports File_Actions
begin

text \<open>
  A connection and its manager together: every request the connection hands over is served by
  \<^verbatim>\<open>handle_fs\<close> and its answers are relayed before the next event, which is the order of the two
  first-in-first-out channels. The theorems are about whole sessions: what a peer without the file
  transfer permission or under one-way transfer can reach, and that reading in the manager
  simulates reading in the connection.
\<close>

subsection \<open>The connection and its manager together\<close>

text \<open>
  Sending to the peer succeeds here; a failed send closes the connection, which ends the run. The
  list of jobs that goes to the log is kept as it is, its text form is not modelled.
\<close>

record ft_sys =
  fy_conn :: conn_ft
  fy_cm :: cm_state
  fy_out :: "conn_out list"

datatype ft_event2 = Action file_action | Response file_response | ConnTimer | CmTimer | Files fsys

fun relay_all :: "fa_env \<Rightarrow> cm_out list \<Rightarrow> conn_ft \<Rightarrow> conn_ft \<times> conn_out list" where
  "relay_all env [] c = (c, [])"
| "relay_all env (o1 # os) c =
     (case relay_cm env o1 c of (c, out) \<Rightarrow> (case relay_all env os c of (c, out') \<Rightarrow> (c, out @ out')))"

definition relayed :: "fa_env \<Rightarrow> cm_state \<Rightarrow> cm_out list \<Rightarrow> ft_sys \<Rightarrow> ft_sys" where
  "relayed env st outs s =
     (case relay_all env outs (fy_conn s) of (c, out) \<Rightarrow> s\<lparr>fy_conn := c, fy_cm := st, fy_out := fy_out s @ out\<rparr>)"

fun deliver :: "fa_env \<Rightarrow> conn_out list \<Rightarrow> ft_sys \<Rightarrow> ft_sys rust" where
  "deliver env [] s = Ret s"
| "deliver env (ToCm req # os) s =
     rust_bind (handle_fs (fv_cm env) req (fy_cm s)) (\<lambda>(st, outs).
       deliver env os (relayed env st outs (s\<lparr>fy_out := fy_out s @ [ToCm req]\<rparr>)))"
| "deliver env (o1 # os) s = deliver env os (s\<lparr>fy_out := fy_out s @ [o1]\<rparr>)"

definition good_peer :: peer where
  "good_peer = \<lparr>pe_sent = [], pe_fails = (\<lambda>_. False)\<rparr>"

definition conn_file_tick :: "fa_env \<Rightarrow> fsys \<Rightarrow> conn_ft \<Rightarrow> conn_ft \<times> conn_out list" where
  "conn_file_tick env fs c =
     (if cf_read_jobs c = [] then (c, [])
      else case handle_read_jobs (cv_ft (fv_cm env)) fs (cf_read_jobs c) good_peer of
        (r, jobs, p) \<Rightarrow>
          (c\<lparr>cf_read_jobs := jobs\<rparr>,
           LogToCm (JobsLog (cf_read_jobs c)) # map ToPeer (pe_sent p)
             @ (case r of Inr l \<Rightarrow> if l = [] then [] else [LogToCm (JobLog l)] | Inl _ \<Rightarrow> [])))"

fun sys_step :: "fa_env \<Rightarrow> ft_event2 \<Rightarrow> ft_sys \<Rightarrow> ft_sys rust" where
  "sys_step env (Action fa) s =
     rust_bind (handle_file_action env (cm_fs (fy_cm s)) fa (fy_conn s)) (\<lambda>(fs, c, out).
       deliver env out (s\<lparr>fy_conn := c, fy_cm := (fy_cm s)\<lparr>cm_fs := fs\<rparr>\<rparr>))"
| "sys_step env (Response fr) s = deliver env (handle_file_response fr) s"
| "sys_step env ConnTimer s =
     (case conn_file_tick env (cm_fs (fy_cm s)) (fy_conn s) of (c, out) \<Rightarrow> Ret (s\<lparr>fy_conn := c, fy_out := fy_out s @ out\<rparr>))"
| "sys_step env CmTimer s =
     (if cm_read_jobs (fy_cm s) = [] then Ret s
      else case handle_read_jobs_tick (fv_cm env) (cf_id (fy_conn s)) (fy_cm s) of (st, outs) \<Rightarrow> Ret (relayed env st outs s))"
| "sys_step env (Files fs) s = Ret (s\<lparr>fy_cm := (fy_cm s)\<lparr>cm_fs := fs\<rparr>\<rparr>)"

abbreviation sys_run :: "fa_env \<Rightarrow> ft_event2 list \<Rightarrow> ft_sys \<Rightarrow> ft_sys rust" where
  "sys_run env \<equiv> rust_run (sys_step env)"

text \<open>What the peer received of file transfers.\<close>

definition peer_msgs :: "conn_out list \<Rightarrow> ft_msg list" where
  "peer_msgs outs = concat (map (\<lambda>x. case x of ToPeer m \<Rightarrow> [m] | _ \<Rightarrow> []) outs)"

subsection \<open>One-way transfer\<close>

fun carries_data :: "ft_msg \<Rightarrow> bool" where
  "carries_data (MsgBlock b) = True"
| "carries_data (MsgDigest d) = True"
| "carries_data _ = False"

text \<open>Requests that read file contents for the peer or change files at its wish other than by receiving.\<close>

fun restricted :: "fs_req \<Rightarrow> bool" where
  "restricted (ReadFile path i file_num hidden conn_id od) = True"
| "restricted (RemoveDir path i recursive) = True"
| "restricted (RemoveFile path i file_num) = True"
| "restricted (CreateDir path i) = True"
| "restricted (Rename i path new_name) = True"
| "restricted _ = False"

fun cm_quiet :: "cm_out \<Rightarrow> bool" where
  "cm_quiet (RawMsg m) = (\<not> carries_data m)"
| "cm_quiet (FileBlockFromCM i file_num data compressed conn_id) = False"
| "cm_quiet (FileDigestFromCM i file_num last_modified file_size is_resume conn_id) = False"
| "cm_quiet _ = True"

fun conn_quiet :: "conn_out \<Rightarrow> bool" where
  "conn_quiet (ToPeer m) = (\<not> carries_data m)"
| "conn_quiet (ToCm req) = (\<not> restricted req)"
| "conn_quiet _ = True"

lemmas single_request_defs = cm_read_empty_dirs_def cm_read_dir_def cm_remove_dir_def cm_remove_file_def cm_create_dir_def
  cm_rename_file_def handle_result_def read_all_files_def

lemmas write_request_defs = new_write_job_def cancel_write_def write_done_def write_error_def write_block_def check_digest_def
  send_confirm_def send_confirm_for_read_def cancel_read_def job_log_def

lemma handle_fs_quiet:
  assumes "handle_fs env req st = Ret (st', outs)" and "cm_read_jobs st = []" and "\<not> restricted req"
  shows "cm_read_jobs st' = [] \<and> list_all cm_quiet outs"
  using assms
  by (cases req)
    (auto simp: single_request_defs write_request_defs rust_bind_Ret get_job_def Let_def
      split: if_split_asm sum.splits option.splits prod.splits data_source.splits digest_check_result.splits)

lemma relay_quiet: "cm_quiet x \<Longrightarrow> relay_cm env x c = (c', outs)
  \<Longrightarrow> cf_read_jobs c' = cf_read_jobs c \<and> cf_file_transfer c' = cf_file_transfer c \<and> list_all conn_quiet outs"
  by (cases x)
    (auto simp: handle_read_job_init_result_def handle_file_read_done_def handle_file_read_error_def handle_all_files_result_def
      post_file_audit_def Let_def split: if_split_asm sum.splits)

lemma relay_all_quiet: "list_all cm_quiet xs \<Longrightarrow> relay_all env xs c = (c', outs)
  \<Longrightarrow> cf_read_jobs c' = cf_read_jobs c \<and> cf_file_transfer c' = cf_file_transfer c \<and> list_all conn_quiet outs"
  by (induction xs arbitrary: c c' outs) (auto split: prod.splits dest!: relay_quiet)

definition no_reads :: "ft_sys \<Rightarrow> bool" where
  "no_reads s \<longleftrightarrow> cf_read_jobs (fy_conn s) = [] \<and> cm_read_jobs (fy_cm s) = [] \<and> list_all conn_quiet (fy_out s)"

lemma relayed_no_reads:
  assumes "no_reads s" and "cm_read_jobs st = []" and "list_all cm_quiet xs"
  shows "no_reads (relayed env st xs s)"
  using assms relay_all_quiet [OF assms(3), of env "fy_conn s"] by (auto simp: relayed_def no_reads_def split: prod.splits)

lemma deliver_no_reads: "deliver env os s = Ret s' \<Longrightarrow> list_all conn_quiet os \<Longrightarrow> no_reads s \<Longrightarrow> no_reads s'"
proof (induction env os s rule: deliver.induct)
  case (2 env req os s)
  then obtain st outs where h: "handle_fs (fv_cm env) req (fy_cm s) = Ret (st, outs)"
    and d: "deliver env os (relayed env st outs (s\<lparr>fy_out := fy_out s @ [ToCm req]\<rparr>)) = Ret s'"
    by (auto simp: rust_bind_Ret)
  moreover have "no_reads (relayed env st outs (s\<lparr>fy_out := fy_out s @ [ToCm req]\<rparr>))"
    using handle_fs_quiet [OF h] 2(3,4) by (intro relayed_no_reads) (auto simp: no_reads_def)
  ultimately show ?case using 2 by auto
qed (auto simp: no_reads_def)

lemma action_one_way:
  assumes "handle_file_action env fs fa c = Ret (fs', c', out)" and "fv_one_way env = ''Y''" and "cf_read_jobs c = []"
  shows "cf_read_jobs c' = [] \<and> list_all conn_quiet out"
  using assms
  by (cases fa)
    (auto simp: handle_file_action_def one_way_job_id_def handle_all_files_def handle_confirm_action_def handle_cancel_action_def
      get_job_def post_file_audit_def Let_def split: if_split_asm sum.splits)

lemma response_quiet: "list_all conn_quiet (handle_file_response fr)"
  by (cases fr) auto

lemma step_no_reads:
  assumes "sys_step env e s = Ret s'" and "fv_one_way env = ''Y''" and "no_reads s"
  shows "no_reads s'"
proof (cases e)
  case (Action fa)
  then obtain fs c out where h: "handle_file_action env (cm_fs (fy_cm s)) fa (fy_conn s) = Ret (fs, c, out)"
    and d: "deliver env out (s\<lparr>fy_conn := c, fy_cm := (fy_cm s)\<lparr>cm_fs := fs\<rparr>\<rparr>) = Ret s'"
    using assms(1) by (auto simp: rust_bind_Ret)
  have "cf_read_jobs c = [] \<and> list_all conn_quiet out"
    using action_one_way [OF h assms(2)] assms(3) by (simp add: no_reads_def)
  then show ?thesis using assms(3) by (intro deliver_no_reads [OF d]) (simp_all add: no_reads_def)
next
  case (Response fr)
  then show ?thesis using assms response_quiet by (auto intro: deliver_no_reads)
qed (use assms in \<open>auto simp: no_reads_def conn_file_tick_def\<close>)

interpretation one_way: step_invariant "sys_step env" "\<lambda>_. True" "\<lambda>s. fv_one_way env = ''Y'' \<longrightarrow> no_reads s" for env
  by unfold_locales (auto intro: step_no_reads)

abbreviation new_conn_ft :: "int \<Rightarrow> string \<Rightarrow> bool \<Rightarrow> (string \<times> bytes) list \<Rightarrow> conn_ft" where
  "new_conn_ft i version permitted prints \<equiv>
     \<lparr>cf_id = i, cf_version = version, cf_file_transfer = permitted, cf_delayed_read_dir = None, cf_read_jobs = [],
      cf_cm_read_job_ids = {}, cf_printer_data = prints, cf_file_transferred = False,
      cf_remove_log = \<lparr>rg_conn_id = i, rg_removed_files = [], rg_removed_dirs = []\<rparr>\<rparr>"

definition new_session :: "int \<Rightarrow> string \<Rightarrow> bool \<Rightarrow> (string \<times> bytes) list \<Rightarrow> fsys \<Rightarrow> ft_sys" where
  "new_session i version permitted prints fs =
     \<lparr>fy_conn = new_conn_ft i version permitted prints,
      fy_cm = \<lparr>cm_write_jobs = [], cm_read_jobs = [], cm_fs = fs\<rparr>, fy_out = []\<rparr>"

lemma new_session_no_reads: "no_reads (new_session i version permitted prints fs)"
  by (simp add: no_reads_def new_session_def)

lemma one_way_run:
  assumes "sys_run env es (new_session i version permitted prints fs) = Ret s" and "fv_one_way env = ''Y''"
  shows "no_reads s"
  using one_way.run_inv [where es = es and env = env and s' = s] assms new_session_no_reads
  by (simp add: list_all_iff) blast

lemma quiet_peer_msgs: "list_all conn_quiet outs \<Longrightarrow> m \<in> set (peer_msgs outs) \<Longrightarrow> \<not> carries_data m"
  by (auto simp: peer_msgs_def list_all_iff split: conn_out.splits)

definition demo_fa_env :: "string \<Rightarrow> bool \<Rightarrow> fa_env" where
  "demo_fa_env one_way need_cm =
     \<lparr>fv_cm = \<lparr>cv_ft = \<lparr>en_zstd_compress = (\<lambda>_. None), en_zstd_decode = (\<lambda>_. None), en_digest_json = (\<lambda>_. []),
          en_digest_parse = (\<lambda>_. None), en_set_file_mtime = (\<lambda>fs _ _. fs), en_short_read = (\<lambda>n. n),
          en_serialize = (\<lambda>_ _ _ _. [])\<rparr>,
        cv_show = (\<lambda>e. case e of Bail t \<Rightarrow> t | _ \<Rightarrow> ''error''), cv_max_files_option = [], cv_home = ''/'', cv_logs = False\<rparr>,
      fv_need_cm = need_cm, fv_one_way = one_way, fv_audit_server = []\<rparr>"

definition demo_fs :: fsys where
  "demo_fs = \<lparr>fs_tree = [([''a''], Regular 0)], fs_data = \<lambda>_. [7, 8], fs_mtime = \<lambda>_. 0, fs_meta = \<lambda>_. 0,
     fs_next = 1, fs_cwd = [], fs_now = 0, fs_denied = \<lambda>_. False, fs_faulty = \<lambda>_. False\<rparr>"



subsection \<open>Sessions without the file transfer permission\<close>

lemma read_loop_buf:
  assumes "acc = take k (drop p (cu_data c))" and "cu_pos c = p + length acc"
  shows "\<exists>c' k'. read_loop env fs cap acc (BufStream c) = Inr (take k' (drop p (cu_data c)), BufStream c') \<and> cu_data c' = cu_data c"
  using assms
proof (induction env fs cap acc "BufStream c" arbitrary: c k rule: read_loop.induct)
  case (1 env fs cap acc c)
  define bs where "bs = take (min (cap - length acc) (max 1 (en_short_read env (cu_pos c)))) (drop (cu_pos c) (cu_data c))"
  define c1 where "c1 = c\<lparr>cu_pos := cu_pos c + length bs\<rparr>"
  have rd: "stream_read env fs (BufStream c) (cap - length acc) = Inr (bs, BufStream c1)"
    by (simp add: stream_read_def Let_def bs_def c1_def)
  have acc: "acc @ bs = take (length acc + length bs) (drop p (cu_data c))"
    using 1(2,3) by (auto simp: take_add min_def add.commute bs_def)
  have c1: "cu_data c1 = cu_data c" "cu_pos c1 = p + length (acc @ bs)" using 1(3) by (simp_all add: c1_def)
  show ?case
  proof (cases "bs = [] \<or> length acc + length bs = cap")
    case True
    then have "read_loop env fs cap acc (BufStream c) = Inr (acc @ bs, BufStream c1)"
      unfolding read_loop.simps [of env fs cap acc] rd sum.case prod.case by (rule if_P)
    then show ?thesis using acc c1(1) by metis
  next
    case False
    then have "read_loop env fs cap acc (BufStream c) = read_loop env fs cap (acc @ bs) (BufStream c1)"
      unfolding read_loop.simps [of env fs cap acc] rd sum.case prod.case by (rule if_not_P)
    with 1(1) [OF rd refl False] acc c1 show ?thesis by metis
  qed
qed

definition print_job :: "bytes set \<Rightarrow> transfer_job \<Rightarrow> bool" where
  "print_job D j \<longleftrightarrow> tj_type j = Printer
     \<and> (\<exists>c. tj_data_source j = MemoryCursor c \<and> (cu_data c = [] \<or> cu_data c \<in> D))
     \<and> (case tj_data_stream j of None \<Rightarrow> True | Some (FileStream _) \<Rightarrow> False
        | Some (BufStream c) \<Rightarrow> cu_data c = [] \<or> cu_data c \<in> D)"

definition print_msg :: "bytes set \<Rightarrow> ft_msg \<Rightarrow> bool" where
  "print_msg D m = (case m of MsgBlock b \<Rightarrow> \<not> bk_compressed b \<and> (\<exists>d\<in>D. sublist (bk_data b) d)
     | MsgDir i path files \<Rightarrow> files = [] | MsgDone i k \<Rightarrow> True | MsgError i e k \<Rightarrow> True | _ \<Rightarrow> False)"

lemma print_job_init:
  assumes "print_job D j"
  shows "\<exists>j'. init_data_stream fs j s = (None, j', s) \<and> print_job D j' \<and> tj_is_last_job j' = tj_is_last_job j"
  using assms by (auto simp: print_job_def init_data_stream_def open_data_stream_def needs_digest_def)

lemma print_job_read:
  assumes "print_job D j" and "job_read env fs j = (r, j')"
  shows "print_job D j' \<and> (case r of Inr (Some b) \<Rightarrow> print_msg D (MsgBlock b) | _ \<Rightarrow> True)"
proof (cases "tj_data_stream j")
  case None
  with assms show ?thesis by (auto simp: print_job_def job_read_def read_block_def)
next
  case (Some st)
  with assms obtain c where c: "st = BufStream c" "cu_data c = [] \<or> cu_data c \<in> D"
    by (auto simp: print_job_def split: data_stream.splits)
  obtain src where src: "tj_type j = Printer" "tj_data_source j = MemoryCursor src" "cu_data src = [] \<or> cu_data src \<in> D"
    using assms(1) by (auto simp: print_job_def)
  define buf where "buf = (\<lambda>k. take k (drop (cu_pos c) (cu_data c)))"
  obtain c' k where b: "cu_data c' = cu_data c" and rl: "read_loop env fs BUF_SIZE [] st = Inr (buf k, BufStream c')"
    using read_loop_buf [of "[]" 0 "cu_pos c" c env fs BUF_SIZE] c(1) by (auto simp: buf_def)
  have sub: "sublist (buf k) (cu_data c)" unfolding buf_def by (meson sublist_order.order_trans sublist_take sublist_drop)
  show ?thesis
    using assms(2) src c b rl Some sub
    by (auto simp: print_job_def job_read_def read_block_def Let_def print_msg_def split: if_split_asm)
qed

lemma good_peer_send [simp]: "\<not> pe_fails s (length (pe_sent s)) \<Longrightarrow> peer_send m s = Inr (s\<lparr>pe_sent := pe_sent s @ [m]\<rparr>)"
  by (simp add: peer_send_def)

lemma print_jobs_init:
  "list_all (print_job D) js \<Longrightarrow> \<exists>js'. init_jobs fs js s = (None, js', s) \<and> list_all (print_job D) js'"
proof (induction js)
  case (Cons j js)
  then show ?case using print_job_init [of D j fs s] by (cases "tj_is_last_job j") auto
qed simp

lemma print_step_job:
  assumes "print_job D j" and "reliable s" and "list_all (print_msg D) (pe_sent s)" and "step_job env fs j s = (e, j', s', l, fin)"
  shows "print_job D j' \<and> list_all (print_msg D) (pe_sent s')"
proof -
  obtain r j1 where rd: "job_read env fs j = (r, j1)" by (cases "job_read env fs j")
  note p = print_job_read [OF assms(1) rd]
  show ?thesis
    using assms(2-4) p rd
    by (auto simp: step_job_def peer_send_reliable print_msg_def split: sum.splits option.splits if_split_asm)
qed

lemma print_step_first:
  "list_all (print_job D) js \<Longrightarrow> reliable s \<Longrightarrow> list_all (print_msg D) (pe_sent s) \<Longrightarrow> step_first env fs js s = (e, js', s', l, fin)
    \<Longrightarrow> list_all (print_job D) js' \<and> list_all (print_msg D) (pe_sent s')"
proof (induction js arbitrary: js' e s' l fin)
  case (Cons j js)
  show ?case
  proof (cases "tj_is_last_job j")
    case True
    then show ?thesis using Cons by (auto split: prod.splits)
  next
    case False
    obtain e1 j1 s1 l1 f1 where st: "step_job env fs j s = (e1, j1, s1, l1, f1)" by (cases "step_job env fs j s")
    then show ?thesis using Cons.prems False print_step_job [OF _ _ _ st] by auto
  qed
qed simp

lemma remove_job_all: "list_all P js \<Longrightarrow> list_all P (snd (remove_job i js))"
  by (induction js) (auto split: prod.splits)

lemma print_handle_read_jobs:
  assumes "list_all (print_job D) js" and "handle_read_jobs env fs js good_peer = (r, js', s')"
  shows "list_all (print_job D) js' \<and> list_all (print_msg D) (pe_sent s')"
proof -
  obtain js1 where i: "init_jobs fs js good_peer = (None, js1, good_peer)" "list_all (print_job D) js1"
    using print_jobs_init [OF assms(1)] by blast
  obtain e js2 s2 l fin where st: "step_first env fs js1 good_peer = (e, js2, s2, l, fin)"
    by (cases "step_first env fs js1 good_peer")
  have "list_all (print_job D) js2 \<and> list_all (print_msg D) (pe_sent s2)"
    using print_step_first [OF i(2) _ _ st] by (simp add: good_peer_def reliable_def)
  then show ?thesis using assms(2) i(1) st
    by (auto simp: handle_read_jobs_def remove_job_all split: option.splits)
qed

fun write_only :: "fs_req \<Rightarrow> bool" where
  "write_only (WriteBlock i file_num data compressed) = True"
| "write_only (WriteDone i file_num) = True"
| "write_only (CheckDigest i file_num file_size last_modified is_upload is_resume) = True"
| "write_only (WriteError i file_num err) = True"
| "write_only _ = False"

fun print_out :: "bytes set \<Rightarrow> conn_out \<Rightarrow> bool" where
  "print_out D (ToPeer m) = print_msg D m"
| "print_out D (ToPeerDigest d is_upload) = False"
| "print_out D (ToPeerEmptyDirs path fds) = False"
| "print_out D (ToCm req) = write_only req"
| "print_out D _ = True"

definition unprivileged :: "bytes set \<Rightarrow> fsys \<Rightarrow> ft_sys \<Rightarrow> bool" where
  "unprivileged D fs s \<longleftrightarrow> \<not> cf_file_transfer (fy_conn s) \<and> list_all (print_job D) (cf_read_jobs (fy_conn s))
     \<and> snd ` set (cf_printer_data (fy_conn s)) \<subseteq> D \<and> cm_write_jobs (fy_cm s) = [] \<and> cm_read_jobs (fy_cm s) = []
     \<and> cm_fs (fy_cm s) = fs \<and> list_all (print_out D) (fy_out s)"

lemma deliver_plain: "list_all (\<lambda>x. \<forall>req. x \<noteq> ToCm req) os \<Longrightarrow> deliver env os s = Ret (s\<lparr>fy_out := fy_out s @ os\<rparr>)"
  by (induction env os s rule: deliver.induct) auto

lemma handle_fs_no_job: "write_only req \<Longrightarrow> cm_write_jobs st = [] \<Longrightarrow> handle_fs env req st = Ret (st, [])"
  by (cases req) (simp_all add: write_block_def write_done_def check_digest_def write_error_def get_job_def)

lemma response_unprivileged:
  assumes "unprivileged D fs s"
  shows "\<exists>s'. deliver env (handle_file_response fr) s = Ret s' \<and> unprivileged D fs s'"
  using assms by (cases fr) (simp_all add: unprivileged_def handle_fs_no_job relayed_def del: handle_fs.simps)

lemma take_printer_data_set: "take_printer_data path ps = Some (d, rest) \<Longrightarrow> d \<in> snd ` set ps \<and> set rest \<subseteq> set ps"
  by (induction path ps arbitrary: d rest rule: take_printer_data.induct) (auto split: if_split_asm option.splits)

lemma printer_send:
  assumes "job_type_of_i32 t = Printer" and "handle_send_action env fs i t path file_num hidden c = (c', out)"
    and "list_all (print_job D) (cf_read_jobs c)" and "snd ` set (cf_printer_data c) \<subseteq> D"
  shows "list_all (print_job D) (cf_read_jobs c') \<and> snd ` set (cf_printer_data c') \<subseteq> D
    \<and> cf_file_transfer c' = cf_file_transfer c \<and> list_all (print_out D) out \<and> list_all (\<lambda>x. \<forall>req. x \<noteq> ToCm req) out"
proof (cases "take_printer_data path (cf_printer_data c)")
  case None
  then show ?thesis using assms by (auto simp: handle_send_action_def)
next
  case (Some dr)
  then obtain d rest where dr: "take_printer_data path (cf_printer_data c) = Some (d, rest)" by (cases dr) auto
  have "d \<in> D" "snd ` set rest \<subseteq> D" using take_printer_data_set [OF dr] assms(4) by blast+
  with assms(1-3) dr show ?thesis
    by (auto simp: handle_send_action_def create_and_start_read_job_def new_read_def process_new_read_job_def default_job_def
        post_file_audit_def print_job_def print_msg_def Let_def image_subset_iff split: if_split_asm)
qed

lemma action_unprivileged:
  assumes "unprivileged D fs s"
  shows "\<exists>s'. sys_step env (Action fa) s = Ret s' \<and> unprivileged D fs s'"
proof (cases "is_printer_send fa \<and> cf_delayed_read_dir (fy_conn s) = None \<and> fv_one_way env \<noteq> ''Y''")
  case True
  then obtain i t path n hidden where fa: "fa = FaSend i t path n hidden" "job_type_of_i32 t = Printer"
    by (cases fa) (auto simp: is_printer_send_def)
  obtain c out where h: "handle_send_action env fs i t path n hidden (fy_conn s) = (c, out)"
    by (cases "handle_send_action env fs i t path n hidden (fy_conn s)")
  have "handle_file_action env fs fa (fy_conn s) = Ret (fs, c, out)"
    using True fa h by (simp add: handle_file_action_def)
  with printer_send [OF fa(2) h, of D] assms show ?thesis by (auto simp: unprivileged_def deliver_plain)
next
  case False
  then show ?thesis using assms
    by (cases "cf_delayed_read_dir (fy_conn s) = None")
      (auto simp: unprivileged_def handle_file_action_def one_way_job_id_def is_printer_send_def print_msg_def split: file_action.splits)
qed

lemma step_unprivileged:
  assumes "unprivileged D fs s" and "\<And>fs. e \<noteq> Files fs"
  shows "\<exists>s'. sys_step env e s = Ret s' \<and> unprivileged D fs s'"
proof (cases e)
  case (Action fa)
  then show ?thesis using action_unprivileged [OF assms(1)] by simp
next
  case (Response fr)
  then show ?thesis using response_unprivileged [OF assms(1)] by simp
next
  case ConnTimer
  obtain r js p where h: "handle_read_jobs (cv_ft (fv_cm env)) fs (cf_read_jobs (fy_conn s)) good_peer = (r, js, p)"
    by (cases "handle_read_jobs (cv_ft (fv_cm env)) fs (cf_read_jobs (fy_conn s)) good_peer")
  then show ?thesis using ConnTimer assms(1) print_handle_read_jobs [OF _ h, of D]
    by (auto simp: unprivileged_def conn_file_tick_def list_all_iff split: sum.splits)
next
  case CmTimer
  then show ?thesis using assms(1) by (simp add: unprivileged_def)
qed (use assms in auto)

interpretation no_permission: total_invariant "sys_step env" "\<lambda>e. case e of Files _ \<Rightarrow> False | _ \<Rightarrow> True" "unprivileged D fs" for env D fs
proof unfold_locales
  fix e s s'
  assume e: "case e of Files _ \<Rightarrow> False | _ \<Rightarrow> True" and s: "unprivileged D fs s"
  from e have "\<And>fs. e \<noteq> Files fs" by auto
  from step_unprivileged [OF s this] show "sys_step env e s = Ret s' \<Longrightarrow> unprivileged D fs s'" and "sys_step env e s \<noteq> Panic"
    by (metis rust.inject, metis rust.distinct(1))
qed

text \<open>
  C28. A session without the file transfer permission: whatever the peer sends (file requests, blocks,
  digests, errors, confirmations) and whenever the timers fire, the session keeps running and
  leaves the file system as it was and the manager without jobs; no request but those that address a
  write job reaches the manager, and what goes back to the peer holds no directory entries, no
  digests, and no data except pieces of the documents queued for printing.
\<close>

theorem no_permission_no_files:
  assumes "list_all (\<lambda>e. case e of Files _ \<Rightarrow> False | _ \<Rightarrow> True) es"
  shows "\<exists>s. sys_run env es (new_session i version False prints fs) = Ret s
    \<and> cm_fs (fy_cm s) = fs \<and> cm_write_jobs (fy_cm s) = [] \<and> cm_read_jobs (fy_cm s) = []
    \<and> (\<forall>x \<in> set (fy_out s). print_out (snd ` set prints) x)"
proof -
  have "unprivileged (snd ` set prints) fs (new_session i version False prints fs)"
    by (simp add: unprivileged_def new_session_def)
  from no_permission.run_returns [OF assms this, of env] show ?thesis by (auto simp: unprivileged_def list_all_iff)
qed

theorem no_permission_no_files_witness:
  "\<exists>s. sys_run (demo_fa_env [] False)
      [Action (FaReadDir ''/'' True), Action (FaSend 3 1 ''doc'' 0 False), ConnTimer, Response (FrDone 3 0), Action (FaRemoveFile 5 ''/a'' 0)]
      (new_session 1 ''1.4.0'' False [(''doc'', [1, 2])] demo_fs) = Ret s
    \<and> cm_fs (fy_cm s) = demo_fs \<and> (\<forall>x \<in> set (fy_out s). print_out {[1, 2]} x)"
proof -
  let ?es = "[Action (FaReadDir ''/'' True), Action (FaSend 3 1 ''doc'' 0 False), ConnTimer, Response (FrDone 3 0), Action (FaRemoveFile 5 ''/a'' 0)]"
  have "list_all (\<lambda>e. case e of Files _ \<Rightarrow> False | _ \<Rightarrow> True) ?es" by simp
  from no_permission_no_files [OF this, of "demo_fa_env [] False" 1 "''1.4.0''" "[(''doc'', [1, 2])]" demo_fs] show ?thesis by auto
qed

subsection \<open>Reading in the manager\<close>

text \<open>
  The messages up to the first error, which travels as text between the processes. A confirmation
  is timely when it answers the file the job is at and says whether to skip it.
\<close>

fun until_error :: "(ft_error \<Rightarrow> string) \<Rightarrow> ft_msg list \<Rightarrow> ft_msg list" where
  "until_error pr [] = []"
| "until_error pr (MsgError i e k # ms) = [MsgError i (Bail (pr e)) k]"
| "until_error pr (m # ms) = m # until_error pr ms"

fun is_error :: "ft_msg \<Rightarrow> bool" where
  "is_error (MsgError i e k) = True"
| "is_error _ = False"

definition timely :: "confirm_request \<Rightarrow> transfer_job list \<Rightarrow> bool" where
  "timely r js \<longleftrightarrow> cr_union r \<noteq> None \<and> list_all (\<lambda>j. tj_id j = cr_id r \<longrightarrow> cr_file_num r = tj_file_num j) js"

fun read_event :: "ft_event2 \<Rightarrow> ft_sys \<Rightarrow> bool" where
  "read_event (Action (FaSendConfirm r)) s = timely r (cf_read_jobs (fy_conn s))"
| "read_event (Action (FaCancel i)) s = True"
| "read_event ConnTimer s = True"
| "read_event (Files fs) s = True"
| "read_event _ s = False"

definition manager_event :: "ft_event2 \<Rightarrow> ft_event2" where
  "manager_event e = (if e = ConnTimer then CmTimer else e)"

lemma until_error_append: "list_ex is_error ms \<Longrightarrow> until_error pr (ms @ ms') = until_error pr ms"
  by (induction pr ms rule: until_error.induct) auto

lemma until_error_clean: "\<not> list_ex is_error ms \<Longrightarrow> until_error pr (ms @ ms') = ms @ until_error pr ms'"
  by (induction pr ms rule: until_error.induct) auto

definition open_conn :: "conn_ft \<Rightarrow> bool" where
  "open_conn c \<longleftrightarrow> cf_file_transfer c \<and> cf_delayed_read_dir c = None"

lemma open_conn_update [simp]:
  "open_conn (c\<lparr>cf_read_jobs := js\<rparr>) = open_conn c" "open_conn (c\<lparr>cf_cm_read_job_ids := ids\<rparr>) = open_conn c"
  "open_conn (c\<lparr>cf_file_transferred := t\<rparr>) = open_conn c"
  by (simp_all add: open_conn_def)

definition same_job :: "transfer_job \<Rightarrow> transfer_job \<Rightarrow> bool" where
  "same_job j j' \<longleftrightarrow> tj_id j' = tj_id j \<and> tj_is_last_job j' = tj_is_last_job j"

definition connection_reads :: "ft_sys \<Rightarrow> bool" where
  "connection_reads a \<longleftrightarrow> open_conn (fy_conn a) \<and> cf_cm_read_job_ids (fy_conn a) = {}
     \<and> cm_write_jobs (fy_cm a) = [] \<and> cm_read_jobs (fy_cm a) = []"

definition manager_reads :: "ft_sys \<Rightarrow> bool" where
  "manager_reads b \<longleftrightarrow> open_conn (fy_conn b) \<and> cf_read_jobs (fy_conn b) = [] \<and> cm_write_jobs (fy_cm b) = []"

definition both_reading :: "ft_sys \<Rightarrow> ft_sys \<Rightarrow> bool" where
  "both_reading a b \<longleftrightarrow> (\<exists>j. cf_read_jobs (fy_conn a) = [j] \<and> cm_read_jobs (fy_cm b) = [j] \<and> \<not> tj_is_last_job j
       \<and> cf_cm_read_job_ids (fy_conn b) = {tj_id j})
     \<and> cm_fs (fy_cm b) = cm_fs (fy_cm a) \<and> \<not> list_ex is_error (peer_msgs (fy_out a))
     \<and> peer_msgs (fy_out b) = peer_msgs (fy_out a)"

definition manager_finished :: "(ft_error \<Rightarrow> string) \<Rightarrow> ft_sys \<Rightarrow> ft_sys \<Rightarrow> bool" where
  "manager_finished pr a b \<longleftrightarrow> cm_read_jobs (fy_cm b) = [] \<and> cf_cm_read_job_ids (fy_conn b) = {}
     \<and> peer_msgs (fy_out b) = until_error pr (peer_msgs (fy_out a))
     \<and> (list_ex is_error (peer_msgs (fy_out a)) \<or> cf_read_jobs (fy_conn a) = [])"

definition route_related :: "(ft_error \<Rightarrow> string) \<Rightarrow> ft_sys \<Rightarrow> ft_sys \<Rightarrow> bool" where
  "route_related pr a b \<longleftrightarrow> cf_id (fy_conn a) = cf_id (fy_conn b) \<and> connection_reads a \<and> manager_reads b
     \<and> (both_reading a b \<or> manager_finished pr a b)"

lemma route_messages: "route_related pr a b \<Longrightarrow> peer_msgs (fy_out b) = until_error pr (peer_msgs (fy_out a))"
  using until_error_clean [of "peer_msgs (fy_out a)" pr "[]"]
  by (auto simp: route_related_def both_reading_def manager_finished_def)

lemma init_same_job:
  assumes "open_data_stream fs j = (r, j')"
  shows "same_job j j'"
  using assms by (auto simp: open_data_stream_def same_job_def next_file_def Let_def split: data_source.splits if_split_asm sum.splits)

lemma job_read_same_job:
  assumes "job_read env fs j = (r, j')"
  shows "same_job j j' \<and> (\<forall>b. r = Inr (Some b) \<longrightarrow> bk_id b = tj_id j)"
  using assms
  by (auto simp: job_read_def read_block_def same_job_def next_file_def Let_def
      split: data_source.splits if_split_asm sum.splits option.splits prod.splits)

lemma set_stream_offset_same_job:
  assumes "set_stream_offset n off j fs = Ret (j', fs')"
  shows "same_job j j'"
proof (cases "tj_data_source j")
  case (FilePath p)
  with assms obtain entry where e: "index_at (tj_files j) n = Ret entry"
    by (cases "index_at (tj_files j) n") (auto simp: set_stream_offset_def)
  show ?thesis
    using assms FilePath e
    by (cases "resolve_entry_path fs j p (fe_name entry)")
      (auto simp: set_stream_offset_def stream_at_def same_job_def split: if_split_asm sum.split_asm prod.split_asm)
qed (use assms in \<open>auto simp: set_stream_offset_def same_job_def\<close>)

lemma confirm_same_job:
  assumes "confirm r j fs = Ret (j', fs')"
  shows "same_job j j'"
proof -
  have "same_job (j\<lparr>tj_file_confirmed := True, tj_file_skipped := False\<rparr>) j' \<Longrightarrow> same_job j j'" by (simp add: same_job_def)
  with assms show ?thesis
    by (auto simp: confirm_def set_file_skipped_def set_file_confirmed_def set_file_is_waiting_def Let_def same_job_def
        dest!: set_stream_offset_same_job split: if_split_asm option.split_asm confirm_union.split_asm)
qed

lemma confirm_forwarded:
  assumes "cr_file_num r = tj_file_num j" and "cr_union r \<noteq> None"
  shows "confirm \<lparr>cr_id = i, cr_file_num = tj_file_num j,
      cr_union = Some (if confirm_skip r then Skip True else OffsetBlk (confirm_offset r))\<rparr> j fs = confirm r j fs"
  using assms by (auto simp: confirm_def confirm_skip_def confirm_offset_def Let_def split: option.splits confirm_union.splits)

text \<open>Opening the current file and announcing it, on the two routes.\<close>

definition forwards :: "int \<Rightarrow> int \<Rightarrow> cm_out list \<Rightarrow> ft_msg list \<Rightarrow> bool" where
  "forwards cid i out ms \<longleftrightarrow> (\<forall>env c. cf_id c = cid \<longrightarrow> i \<in> cf_cm_read_job_ids c \<longrightarrow> relay_all env out c = (c, map ToPeer ms))"

definition forwards_last :: "int \<Rightarrow> int \<Rightarrow> cm_out list \<Rightarrow> ft_msg list \<Rightarrow> bool" where
  "forwards_last cid i out ms \<longleftrightarrow> (\<forall>env c. cf_id c = cid \<longrightarrow> i \<in> cf_cm_read_job_ids c
     \<longrightarrow> relay_all env out c = (c\<lparr>cf_cm_read_job_ids := cf_cm_read_job_ids c - {i}\<rparr>, map ToPeer ms))"

lemma relay_all_append:
  "relay_all env (xs @ ys) c = (case relay_all env xs c of (c, out) \<Rightarrow> (case relay_all env ys c of (c, out') \<Rightarrow> (c, out @ out')))"
  by (induction xs arbitrary: c) (auto split: prod.splits)

lemma init_routes:
  "(\<exists>j' ms out. init_data_stream fs j good_peer = (None, j', good_peer\<lparr>pe_sent := ms\<rparr>)
      \<and> init_read_job_for_cm fs cid j = (None, j', out) \<and> forwards cid (tj_id j) out ms \<and> \<not> list_ex is_error ms \<and> same_job j j')
   \<or> (\<exists>e j'. init_data_stream fs j good_peer = (Some e, j', good_peer) \<and> init_read_job_for_cm fs cid j = (Some e, j', []) \<and> same_job j j')"
proof -
  obtain r j1 where op: "open_data_stream fs j = (r, j1)" by (cases "open_data_stream fs j")
  note same = init_same_job [OF op]
  have gp: "good_peer = good_peer\<lparr>pe_sent := []\<rparr>" by (simp add: good_peer_def)
  have w: "same_job j (j1\<lparr>tj_file_is_waiting := True\<rparr>)" using same by (simp add: same_job_def)
  consider e where "r = Inl e" | "r = Inr True" | "r = Inr False" "\<not> needs_digest j1"
    | d where "r = Inr False" "needs_digest j1" "get_current_digest fs j1 = Inr d"
    | e where "r = Inr False" "needs_digest j1" "get_current_digest fs j1 = Inl e"
    by (metis (full_types) old.sum.exhaust)
  then show ?thesis
  proof cases
    case 4
    then show ?thesis using op w
      by (cases d) (auto simp: init_data_stream_def init_read_job_for_cm_def init_data_stream_for_cm_def send_current_digest_def
          good_peer_def forwards_def handle_file_digest_from_cm_def same_job_def)
  qed (use op same gp in \<open>auto simp: init_data_stream_def init_read_job_for_cm_def init_data_stream_for_cm_def send_current_digest_def
        forwards_def\<close>)
qed

lemmas route_defs = step_job_def tick_read_def peer_send_reliable same_job_def forwards_def forwards_last_def
  handle_file_read_error_def handle_file_block_from_cm_def handle_file_read_done_def

lemma step_routes:
  assumes "\<forall>t. cv_show env (Bail t) = t" and "reliable s"
  shows "\<exists>j' ms out l fin fin'. step_job (cv_ft env) fs j s = (None, j', s\<lparr>pe_sent := pe_sent s @ ms\<rparr>, l, fin)
    \<and> tick_read env fs cid j = (j', out, fin') \<and> same_job j j'
    \<and> (if fin' then (fin \<or> list_ex is_error ms) \<and> forwards_last cid (tj_id j) out (until_error (cv_show env) ms)
       else \<not> fin \<and> \<not> list_ex is_error ms \<and> forwards cid (tj_id j) out ms)"
proof -
  obtain r j1 where rd: "job_read (cv_ft env) fs j = (r, j1)" by (cases "job_read (cv_ft env) fs j")
  note same = job_read_same_job [OF rd]
  have none: "s = s\<lparr>pe_sent := pe_sent s @ []\<rparr>" by simp
  consider e where "r = Inl e" | b where "r = Inr (Some b)" | "r = Inr None" "\<not> job_completed j1"
    | err where "r = Inr None" "job_completed j1" "job_error j1 = Some err" | "r = Inr None" "job_completed j1" "job_error j1 = None"
    by (metis old.sum.exhaust option.exhaust)
  then show ?thesis
  proof cases
    case 1
    then show ?thesis using rd same assms
      by (intro exI [of _ j1] exI [of _ "[MsgError (tj_id j1) e (tj_file_num j1)]"]) (auto simp: route_defs)
  next
    case 2
    then show ?thesis using rd same assms
      by (intro exI [of _ j1] exI [of _ "[MsgBlock b]"]) (auto simp: route_defs)
  next
    case 3
    then show ?thesis using rd same none
      by (intro exI [of _ j1] exI [of _ "[]"]) (auto simp: route_defs)
  next
    case 4
    then show ?thesis using rd same assms
      by (intro exI [of _ j1] exI [of _ "[MsgError (tj_id j1) (Bail err) (tj_file_num j1)]"]) (auto simp: route_defs)
  next
    case 5
    then show ?thesis using rd same assms
      by (intro exI [of _ j1] exI [of _ "[MsgDone (tj_id j1) (tj_file_num j1)]"]) (auto simp: route_defs)
  qed
qed

lemma forwards_append: "forwards cid i o1 m1 \<Longrightarrow> forwards cid i o2 m2 \<Longrightarrow> forwards cid i (o1 @ o2) (m1 @ m2)"
  by (auto simp: forwards_def relay_all_append)

lemma forwards_append_last: "forwards cid i o1 m1 \<Longrightarrow> forwards_last cid i o2 m2 \<Longrightarrow> forwards_last cid i (o1 @ o2) (m1 @ m2)"
  by (auto simp: forwards_def forwards_last_def relay_all_append)

definition tick_agrees :: "(ft_error \<Rightarrow> string) \<Rightarrow> int \<Rightarrow> transfer_job \<Rightarrow> transfer_job list \<Rightarrow> ft_msg list \<Rightarrow> transfer_job list \<times> cm_out list \<times> int list \<Rightarrow> bool" where
  "tick_agrees pr cid j js ms res = (case res of (js', out, fin) \<Rightarrow>
     (\<exists>j'. js = [j'] \<and> js' = [j'] \<and> fin = [] \<and> same_job j j' \<and> \<not> list_ex is_error ms \<and> forwards cid (tj_id j) out ms)
   \<or> (\<exists>j'. js' = [j'] \<and> fin = [tj_id j'] \<and> (js = [] \<or> list_ex is_error ms) \<and> forwards_last cid (tj_id j) out (until_error pr ms)))"

lemma tick_after_init:
  assumes "\<forall>t. cv_show env (Bail t) = t" and "\<not> tj_is_last_job j" and "reliable s"
    and "init_jobs fs [j] good_peer = (None, [j1], s)" and "same_job j j1"
  shows "\<exists>r j2 out2 ms2 fin fin'. handle_read_jobs (cv_ft env) fs [j] good_peer
        = (r, if fin then [] else [j2], s\<lparr>pe_sent := pe_sent s @ ms2\<rparr>)
    \<and> tick_read env fs cid j1 = (j2, out2, fin') \<and> same_job j j2
    \<and> (if fin' then (fin \<or> list_ex is_error ms2) \<and> forwards_last cid (tj_id j) out2 (until_error (cv_show env) ms2)
       else \<not> fin \<and> \<not> list_ex is_error ms2 \<and> forwards cid (tj_id j) out2 ms2)"
proof -
  obtain j2 ms2 out2 l fin fin' where st:
    "step_job (cv_ft env) fs j1 s = (None, j2, s\<lparr>pe_sent := pe_sent s @ ms2\<rparr>, l, fin)"
    "tick_read env fs cid j1 = (j2, out2, fin')" "same_job j1 j2"
    "if fin' then (fin \<or> list_ex is_error ms2) \<and> forwards_last cid (tj_id j1) out2 (until_error (cv_show env) ms2)
       else \<not> fin \<and> \<not> list_ex is_error ms2 \<and> forwards cid (tj_id j1) out2 ms2"
    using step_routes [OF assms(1,3), of fs j1 cid] by blast
  have "handle_read_jobs (cv_ft env) fs [j] good_peer = (Inr l, if fin then [] else [j2], s\<lparr>pe_sent := pe_sent s @ ms2\<rparr>)"
    using assms(2,4,5) st(1,3) by (auto simp: handle_read_jobs_def same_job_def)
  with st assms(5) show ?thesis unfolding same_job_def by metis
qed

lemma tick_routes:
  assumes "\<forall>t. cv_show env (Bail t) = t" and "\<not> tj_is_last_job j"
  shows "\<exists>r js p. handle_read_jobs (cv_ft env) fs [j] good_peer = (r, js, p)
    \<and> tick_agrees (cv_show env) cid j js (pe_sent p) (tick_jobs env fs cid [j])"
  using init_routes [of fs j cid]
proof (elim disjE exE conjE)
  fix j1 ms out
  assume i: "init_data_stream fs j good_peer = (None, j1, good_peer\<lparr>pe_sent := ms\<rparr>)" "init_read_job_for_cm fs cid j = (None, j1, out)"
    "forwards cid (tj_id j) out ms" "\<not> list_ex is_error ms" "same_job j j1"
  have "init_jobs fs [j] good_peer = (None, [j1], good_peer\<lparr>pe_sent := ms\<rparr>)" using i(1) assms(2) by simp
  from tick_after_init [OF assms _ this i(5), of cid] obtain r j2 out2 ms2 fin fin' where t:
    "handle_read_jobs (cv_ft env) fs [j] good_peer = (r, if fin then [] else [j2], good_peer\<lparr>pe_sent := ms @ ms2\<rparr>)"
    "tick_read env fs cid j1 = (j2, out2, fin')" "same_job j j2"
    "if fin' then (fin \<or> list_ex is_error ms2) \<and> forwards_last cid (tj_id j) out2 (until_error (cv_show env) ms2)
       else \<not> fin \<and> \<not> list_ex is_error ms2 \<and> forwards cid (tj_id j) out2 ms2"
    by (auto simp: reliable_def good_peer_def)
  have "tick_jobs env fs cid [j] = ([j2], out @ out2, if fin' then [tj_id j2] else [])"
    using i(2) t(2) assms(2) by simp
  with t i(3,4) show ?thesis
    by (cases fin') (auto simp: tick_agrees_def until_error_clean forwards_append forwards_append_last)
next
  fix e j1
  assume i: "init_data_stream fs j good_peer = (Some e, j1, good_peer)" "init_read_job_for_cm fs cid j = (Some e, j1, [])" "same_job j j1"
  let ?s = "good_peer\<lparr>pe_sent := [MsgError (tj_id j1) e (tj_file_num j1)]\<rparr>"
  have "init_jobs fs [j] good_peer = (None, [j1], ?s)" using i(1) assms(2) by (simp add: peer_send_def good_peer_def)
  from tick_after_init [OF assms _ this i(3), of cid] obtain r j2 ms2 fin where t:
    "handle_read_jobs (cv_ft env) fs [j] good_peer
       = (r, if fin then [] else [j2], ?s\<lparr>pe_sent := MsgError (tj_id j1) e (tj_file_num j1) # ms2\<rparr>)"
    by (auto simp: reliable_def good_peer_def)
  with i assms(2) show ?thesis by (auto simp: tick_agrees_def forwards_last_def same_job_def handle_file_read_error_def)
qed

lemma peer_msgs_simps [simp]:
  "peer_msgs [] = []" "peer_msgs (xs @ ys) = peer_msgs xs @ peer_msgs ys" "peer_msgs (ToPeer m # xs) = m # peer_msgs xs"
  "peer_msgs (ToCm req # xs) = peer_msgs xs" "peer_msgs (LogToCm l # xs) = peer_msgs xs" "peer_msgs (FastTimer # xs) = peer_msgs xs"
  by (simp_all add: peer_msgs_def)

lemma peer_msgs_map [simp]: "peer_msgs (map ToPeer ms) = ms"
  by (induction ms) auto

lemma peer_msgs_audit [simp]: "peer_msgs (post_file_audit env t path files) = []"
  by (simp add: post_file_audit_def peer_msgs_def Let_def)

lemma remove_single: "foldl (\<lambda>js i. snd (remove_job i js)) [j] [tj_id j] = []"
  by simp

lemma simulate_timer:
  assumes pr: "\<forall>t. cv_show (fv_cm env) (Bail t) = t" and rel: "route_related (cv_show (fv_cm env)) a b"
    and step: "sys_step env ConnTimer a = Ret a'" and env': "fv_cm env' = fv_cm env"
  shows "\<exists>b'. sys_step env' CmTimer b = Ret b' \<and> route_related (cv_show (fv_cm env)) a' b'"
proof (cases "both_reading a b")
  case True
  then obtain j where j: "cf_read_jobs (fy_conn a) = [j]" "cm_read_jobs (fy_cm b) = [j]" "\<not> tj_is_last_job j"
      "cf_cm_read_job_ids (fy_conn b) = {tj_id j}" "cm_fs (fy_cm b) = cm_fs (fy_cm a)"
      "\<not> list_ex is_error (peer_msgs (fy_out a))" "peer_msgs (fy_out b) = peer_msgs (fy_out a)"
    by (auto simp: both_reading_def)
  have ids: "cf_id (fy_conn a) = cf_id (fy_conn b)" and ca: "connection_reads a" and mb: "manager_reads b"
    using rel by (simp_all add: route_related_def)
  obtain r js p where h: "handle_read_jobs (cv_ft (fv_cm env)) (cm_fs (fy_cm a)) [j] good_peer = (r, js, p)"
      and ag: "tick_agrees (cv_show (fv_cm env)) (cf_id (fy_conn b)) j js (pe_sent p)
        (tick_jobs (fv_cm env) (cm_fs (fy_cm a)) (cf_id (fy_conn b)) [j])"
    using tick_routes [OF pr j(3), of "cm_fs (fy_cm a)" "cf_id (fy_conn b)"] by blast
  obtain js' out fin where t: "tick_jobs (fv_cm env) (cm_fs (fy_cm a)) (cf_id (fy_conn b)) [j] = (js', out, fin)"
    by (cases "tick_jobs (fv_cm env) (cm_fs (fy_cm a)) (cf_id (fy_conn b)) [j]")
  let ?st = "(fy_cm b)\<lparr>cm_read_jobs := foldl (\<lambda>js i. snd (remove_job i js)) js' fin\<rparr>"
  have impl: "sys_step env' CmTimer b = Ret (relayed env' ?st out b)"
    using j(2,5) t env' by (simp add: handle_read_jobs_tick_def del: tick_jobs.simps)
  have a': "fy_conn a' = (fy_conn a)\<lparr>cf_read_jobs := js\<rparr>" "fy_cm a' = fy_cm a"
      "peer_msgs (fy_out a') = peer_msgs (fy_out a) @ pe_sent p"
    using step j(1) h by (auto simp: conn_file_tick_def split: sum.splits)
  have "route_related (cv_show (fv_cm env)) a' (relayed env' ?st out b)"
    (is ?related)
  proof -
    consider (clean) j' where "js = [j']" "js' = [j']" "fin = []" "same_job j j'" "\<not> list_ex is_error (pe_sent p)"
        "forwards (cf_id (fy_conn b)) (tj_id j) out (pe_sent p)"
      | (finished) j' where "js' = [j']" "fin = [tj_id j']" "js = [] \<or> list_ex is_error (pe_sent p)"
        "forwards_last (cf_id (fy_conn b)) (tj_id j) out (until_error (cv_show (fv_cm env)) (pe_sent p))"
      using ag unfolding t tick_agrees_def prod.case by blast
    then show ?related
    proof cases
      case clean
      then have "relay_all env' out (fy_conn b) = (fy_conn b, map ToPeer (pe_sent p))" using j(4) by (auto simp: forwards_def)
      then show ?thesis using a' clean j ids ca mb
        by (auto simp: route_related_def connection_reads_def manager_reads_def both_reading_def relayed_def same_job_def)
    next
      case finished
      then have "relay_all env' out (fy_conn b) = ((fy_conn b)\<lparr>cf_cm_read_job_ids := {}\<rparr>,
          map ToPeer (until_error (cv_show (fv_cm env)) (pe_sent p)))" using j(4) by (auto simp: forwards_last_def)
      then show ?thesis using a' finished j ids ca mb
        by (auto simp: route_related_def connection_reads_def manager_reads_def manager_finished_def relayed_def until_error_clean)
    qed
  qed
  with impl show ?thesis by blast
next
  case False
  then have fin: "manager_finished (cv_show (fv_cm env)) a b" using rel by (simp add: route_related_def)
  have "\<exists>ms. peer_msgs (fy_out a') = peer_msgs (fy_out a) @ ms \<and> fy_cm a' = fy_cm a
      \<and> (\<exists>js. fy_conn a' = (fy_conn a)\<lparr>cf_read_jobs := js\<rparr> \<and> (cf_read_jobs (fy_conn a) = [] \<longrightarrow> js = [] \<and> ms = []))"
    using step by (cases "cf_read_jobs (fy_conn a) = []") (auto simp: conn_file_tick_def split: prod.splits)
  with fin rel have "route_related (cv_show (fv_cm env)) a' b"
    by (auto simp: route_related_def manager_finished_def until_error_append connection_reads_def open_conn_def)
  then show ?thesis using fin by (auto simp: manager_finished_def)
qed

lemma get_job_single: "get_job i [j] = (if tj_id j = i then Some j else None)"
  by (simp add: get_job_def)

lemma confirm_step:
  assumes "open_conn (fy_conn s)"
  shows "sys_step env (Action (FaSendConfirm r)) s =
    rust_bind (handle_confirm_action (cm_fs (fy_cm s)) r (fy_conn s)) (\<lambda>(fs, c, out).
       deliver env out (s\<lparr>fy_conn := c, fy_cm := (fy_cm s)\<lparr>cm_fs := fs\<rparr>\<rparr>))"
  using assms by (simp add: handle_file_action_def open_conn_def one_way_job_id_def)

lemma confirm_no_write_job:
  assumes "open_conn (fy_conn s)" and "cm_write_jobs (fy_cm s) = []" and "get_job (cr_id r) (cf_read_jobs (fy_conn s)) = None"
    and "cr_id r \<notin> cf_cm_read_job_ids (fy_conn s)"
  shows "sys_step env (Action (FaSendConfirm r)) s = Ret (s\<lparr>fy_out := fy_out s @ [ToCm (SendConfirm r)]\<rparr>)"
  using assms unfolding confirm_step [OF assms(1)]
  by (simp add: handle_confirm_action_def send_confirm_def get_job_def relayed_def)

lemma simulate_confirm:
  assumes rel: "route_related pr a b" and t: "timely r (cf_read_jobs (fy_conn a))"
    and step: "sys_step env (Action (FaSendConfirm r)) a = Ret a'"
  shows "\<exists>b'. sys_step env' (Action (FaSendConfirm r)) b = Ret b' \<and> route_related pr a' b'"
proof -
  have ids: "cf_id (fy_conn a) = cf_id (fy_conn b)" and ca: "connection_reads a" and mb: "manager_reads b"
    using rel by (simp_all add: route_related_def)
  have oc: "open_conn (fy_conn a)" "open_conn (fy_conn b)" using ca mb by (simp_all add: connection_reads_def manager_reads_def)
  note step' = step [unfolded confirm_step [OF oc(1)]]
  show ?thesis
  proof (cases "both_reading a b")
    case True
    then obtain j where j: "cf_read_jobs (fy_conn a) = [j]" "cm_read_jobs (fy_cm b) = [j]" "\<not> tj_is_last_job j"
      "cf_cm_read_job_ids (fy_conn b) = {tj_id j}" "cm_fs (fy_cm b) = cm_fs (fy_cm a)"
      "\<not> list_ex is_error (peer_msgs (fy_out a))" "peer_msgs (fy_out b) = peer_msgs (fy_out a)"
      by (auto simp: both_reading_def)
    show ?thesis
    proof (cases "tj_id j = cr_id r")
      case hit: True
      then obtain j' fs' where c: "confirm r j (cm_fs (fy_cm a)) = Ret (j', fs')"
        using step' j(1) by (cases "confirm r j (cm_fs (fy_cm a))") (auto simp: handle_confirm_action_def get_job_single)
      with hit have a': "a' = a\<lparr>fy_conn := (fy_conn a)\<lparr>cf_read_jobs := set_job j' [j]\<rparr>, fy_cm := (fy_cm a)\<lparr>cm_fs := fs'\<rparr>\<rparr>"
        using step' j(1) by (simp add: handle_confirm_action_def get_job_single del: set_job.simps)
      note same = confirm_same_job [OF c]
      have "sys_step env' (Action (FaSendConfirm r)) b = Ret (b\<lparr>fy_cm := (fy_cm b)\<lparr>cm_read_jobs := [j'], cm_fs := fs'\<rparr>,
          fy_out := fy_out b @ [ToCm (SendConfirmForRead (cr_id r) (cr_file_num r) (confirm_skip r) (confirm_offset r) (cf_id (fy_conn b)))]\<rparr>)"
        unfolding confirm_step [OF oc(2)]
        using mb j c t hit same confirm_forwarded [of r j "cr_id r" "cm_fs (fy_cm a)"]
        by (simp add: manager_reads_def handle_confirm_action_def get_job_def send_confirm_for_read_def relayed_def
            timely_def same_job_def)
      moreover have "cf_read_jobs (fy_conn a') = [j']" using same a' by (simp add: same_job_def)
      ultimately show ?thesis using a' j ids ca mb same
        by (auto simp: route_related_def connection_reads_def manager_reads_def both_reading_def same_job_def)
    next
      case False
      have 1: "sys_step env' (Action (FaSendConfirm r)) b = Ret (b\<lparr>fy_out := fy_out b @ [ToCm (SendConfirm r)]\<rparr>)"
        using mb j(4) False by (intro confirm_no_write_job) (auto simp: manager_reads_def get_job_def)
      have 2: "a' = a\<lparr>fy_out := fy_out a @ [ToCm (SendConfirm r)]\<rparr>"
        using ca j(1) False step by (subst (asm) confirm_no_write_job) (auto simp: connection_reads_def get_job_def)
      show ?thesis using 1 2 rel by (auto simp: route_related_def connection_reads_def manager_reads_def both_reading_def manager_finished_def)
    qed
  next
    case False
    then have fin: "manager_finished pr a b" using rel by (simp add: route_related_def)
    have 1: "sys_step env' (Action (FaSendConfirm r)) b = Ret (b\<lparr>fy_out := fy_out b @ [ToCm (SendConfirm r)]\<rparr>)"
      using mb fin by (intro confirm_no_write_job) (auto simp: manager_reads_def manager_finished_def get_job_def)
    have "cf_id (fy_conn a') = cf_id (fy_conn a) \<and> connection_reads a' \<and> peer_msgs (fy_out a') = peer_msgs (fy_out a)
        \<and> (cf_read_jobs (fy_conn a) = [] \<longrightarrow> cf_read_jobs (fy_conn a') = [])"
    proof (cases "get_job (cr_id r) (cf_read_jobs (fy_conn a))")
      case None
      with ca step show ?thesis by (subst (asm) confirm_no_write_job) (auto simp: connection_reads_def)
    next
      case (Some j)
      with ca step' show ?thesis
        by (auto simp: connection_reads_def handle_confirm_action_def rust_bind_Ret get_job_def)
    qed
    with 1 fin ids mb show ?thesis by (auto simp: route_related_def manager_finished_def manager_reads_def)
  qed
qed

lemma cancel_step:
  assumes "open_conn (fy_conn s)" and "cm_write_jobs (fy_cm s) = []"
  shows "\<exists>s'. sys_step env (Action (FaCancel i)) s = Ret s'
    \<and> fy_conn s' = (fy_conn s)\<lparr>cf_cm_read_job_ids := cf_cm_read_job_ids (fy_conn s) - {i},
        cf_read_jobs := snd (remove_job i (cf_read_jobs (fy_conn s)))\<rparr>
    \<and> cm_write_jobs (fy_cm s') = [] \<and> cm_read_jobs (fy_cm s') = snd (remove_job i (cm_read_jobs (fy_cm s)))
    \<and> cm_fs (fy_cm s') = cm_fs (fy_cm s) \<and> peer_msgs (fy_out s') = peer_msgs (fy_out s)"
  using assms
  by (auto simp: handle_file_action_def open_conn_def one_way_job_id_def handle_cancel_action_def cancel_write_def cancel_read_def
      relayed_def job_log_def split: prod.splits option.splits)

lemma simulate_cancel:
  assumes rel: "route_related pr a b" and step: "sys_step env (Action (FaCancel i)) a = Ret a'"
  shows "\<exists>b'. sys_step env' (Action (FaCancel i)) b = Ret b' \<and> route_related pr a' b'"
proof -
  have ids: "cf_id (fy_conn a) = cf_id (fy_conn b)" and ca: "connection_reads a" and mb: "manager_reads b"
    and alt: "both_reading a b \<or> manager_finished pr a b"
    using rel by (simp_all add: route_related_def)
  have oc: "open_conn (fy_conn a)" "cm_write_jobs (fy_cm a) = []" "open_conn (fy_conn b)" "cm_write_jobs (fy_cm b) = []"
    using ca mb by (simp_all add: connection_reads_def manager_reads_def)
  obtain b' where b': "sys_step env' (Action (FaCancel i)) b = Ret b'"
    "fy_conn b' = (fy_conn b)\<lparr>cf_cm_read_job_ids := cf_cm_read_job_ids (fy_conn b) - {i},
        cf_read_jobs := snd (remove_job i (cf_read_jobs (fy_conn b)))\<rparr>"
    "cm_write_jobs (fy_cm b') = []" "cm_read_jobs (fy_cm b') = snd (remove_job i (cm_read_jobs (fy_cm b)))"
    "cm_fs (fy_cm b') = cm_fs (fy_cm b)" "peer_msgs (fy_out b') = peer_msgs (fy_out b)"
    using cancel_step [OF oc(3,4)] by blast
  have a': "fy_conn a' = (fy_conn a)\<lparr>cf_cm_read_job_ids := cf_cm_read_job_ids (fy_conn a) - {i},
        cf_read_jobs := snd (remove_job i (cf_read_jobs (fy_conn a)))\<rparr>"
    "cm_write_jobs (fy_cm a') = []" "cm_read_jobs (fy_cm a') = snd (remove_job i (cm_read_jobs (fy_cm a)))"
    "cm_fs (fy_cm a') = cm_fs (fy_cm a)" "peer_msgs (fy_out a') = peer_msgs (fy_out a)"
    using cancel_step [OF oc(1,2), of env i] step by auto
  have "both_reading a' b' \<or> manager_finished pr a' b'"
    using alt
  proof
    assume "both_reading a b"
    then show ?thesis using a' b' until_error_clean [of "peer_msgs (fy_out a)" pr "[]"]
      by (auto simp: both_reading_def manager_finished_def split: if_split_asm)
  next
    assume "manager_finished pr a b"
    then show ?thesis using a' b' by (auto simp: manager_finished_def)
  qed
  with a' b' ids ca mb show ?thesis
    by (auto simp: route_related_def connection_reads_def manager_reads_def)
qed

lemma simulate_event:
  assumes "\<forall>t. cv_show (fv_cm env) (Bail t) = t" and "fv_cm env' = fv_cm env" and "read_event e a"
    and "route_related (cv_show (fv_cm env)) a b" and "sys_step env e a = Ret a'"
  shows "\<exists>b'. sys_step env' (manager_event e) b = Ret b' \<and> route_related (cv_show (fv_cm env)) a' b'"
proof -
  consider r where "e = Action (FaSendConfirm r)" | i where "e = Action (FaCancel i)" | "e = ConnTimer" | fs where "e = Files fs"
    using assms(3) by (cases "(e, a)" rule: read_event.cases) auto
  then show ?thesis
  proof cases
    case 1
    then show ?thesis using assms simulate_confirm [of _ a b r env a' env'] by (simp add: manager_event_def del: sys_step.simps)
  next
    case 2
    then show ?thesis using assms simulate_cancel [of _ a b env i a' env'] by (simp add: manager_event_def del: sys_step.simps)
  next
    case 3
    then show ?thesis using assms simulate_timer [of env a b a' env'] by (simp add: manager_event_def del: sys_step.simps)
  next
    case 4
    then show ?thesis using assms(4,5)
      by (auto simp: manager_event_def route_related_def connection_reads_def manager_reads_def both_reading_def manager_finished_def)
  qed
qed

text \<open>The two settings of \<^verbatim>\<open>need_fs_cm_send_files\<close>.\<close>

definition connection_route :: "fa_env \<Rightarrow> fa_env" where
  "connection_route env = env\<lparr>fv_need_cm := False\<rparr>"

definition manager_route :: "fa_env \<Rightarrow> fa_env" where
  "manager_route env = env\<lparr>fv_need_cm := True\<rparr>"

interpretation route: forward_simulation "sys_step (connection_route env)" "sys_step (manager_route env)" read_event manager_event
  "\<lambda>a b. (\<forall>t. cv_show (fv_cm env) (Bail t) = t) \<and> route_related (cv_show (fv_cm env)) a b" for env
proof unfold_locales
  fix e a b a'
  assume "read_event e a" "(\<forall>t. cv_show (fv_cm env) (Bail t) = t) \<and> route_related (cv_show (fv_cm env)) a b"
    "sys_step (connection_route env) e a = Ret a'"
  then show "\<exists>b'. sys_step (manager_route env) (manager_event e) b = Ret b'
      \<and> (\<forall>t. cv_show (fv_cm env) (Bail t) = t) \<and> route_related (cv_show (fv_cm env)) a' b'"
    using simulate_event [of "connection_route env" "manager_route env" e a b a'] by (simp add: connection_route_def manager_route_def)
qed

lemma new_read_remote:
  "new_read grf i t remote src n hidden True od
     = (case new_read grf i t remote src n hidden False od of Inl e \<Rightarrow> Inl e | Inr j \<Rightarrow> Inr (j\<lparr>tj_is_remote := True\<rparr>))"
  by (auto simp: new_read_def default_job_def split: sum.splits data_source.splits)

lemma start_routes:
  assumes t: "job_type_of_i32 t = Generic"
    and a: "sys_step (connection_route env) (Action (FaSend k t path n hidden)) (new_session i version True prints fs) = Ret a"
    and acc: "cf_read_jobs (fy_conn a) \<noteq> []"
  shows "\<exists>b. sys_step (manager_route env) (Action (FaSend k t path n hidden)) (new_session i version True prints fs) = Ret b
    \<and> route_related pr a b"
proof -
  let ?s = "new_session i version True prints fs"
  let ?od = "can_enable_overwrite_detection (get_version_number version)"
  have ow: "fv_one_way env \<noteq> ''Y''"
    using a acc by (auto simp: new_session_def handle_file_action_def connection_route_def one_way_job_id_def)
  obtain c out where h: "create_and_start_read_job (connection_route env) fs k Generic (FilePath path) n hidden ?od path True (fy_conn ?s) = (c, out)"
    by (cases "create_and_start_read_job (connection_route env) fs k Generic (FilePath path) n hidden ?od path True (fy_conn ?s)")
  obtain job where job: "new_read (get_recursive_files fs) k Generic [] (FilePath path) n hidden False ?od = Inr job"
    and lim: "check_file_count_limit (cv_max_files_option (fv_cm env)) (length (tj_files job)) = Inr ()"
  proof (cases "new_read (get_recursive_files fs) k Generic [] (FilePath path) n hidden False ?od")
    case (Inl e)
    then show ?thesis using a acc ow t
      by (auto simp: new_session_def handle_file_action_def connection_route_def one_way_job_id_def handle_send_action_def
          create_and_start_read_job_def)
  next
    case (Inr job)
    then show ?thesis using a acc ow t that
      by (cases "check_file_count_limit (cv_max_files_option (fv_cm env)) (length (tj_files job))")
        (auto simp: new_session_def handle_file_action_def connection_route_def one_way_job_id_def handle_send_action_def
          create_and_start_read_job_def)
  qed
  have fields: "tj_id job = k" "\<not> tj_is_last_job job"
    using job by (auto simp: new_read_def default_job_def split: sum.splits)
  have "a = ?s\<lparr>fy_conn := (fy_conn ?s)\<lparr>cf_read_jobs := [job\<lparr>tj_is_remote := True, tj_conn_id := i\<rparr>], cf_file_transferred := True\<rparr>,
      fy_out := ToPeer (MsgDir k path (tj_files job)) # FastTimer
        # post_file_audit (connection_route env) RemoteSend (if tj_type job = Printer then ''Remote print'' else path)
            (get_files_for_audit (tj_type job) (tj_files job))\<rparr>"
    using a ow t job lim fields
    by (simp add: new_session_def handle_file_action_def connection_route_def one_way_job_id_def handle_send_action_def
        create_and_start_read_job_def process_new_read_job_def deliver_plain post_file_audit_def Let_def split: if_split_asm)
  moreover obtain b where "sys_step (manager_route env) (Action (FaSend k t path n hidden)) ?s = Ret b"
    "b = ?s\<lparr>fy_conn := (fy_conn ?s)\<lparr>cf_cm_read_job_ids := {k}, cf_file_transferred := True\<rparr>,
       fy_cm := (fy_cm ?s)\<lparr>cm_read_jobs := [job\<lparr>tj_is_remote := True, tj_conn_id := i\<rparr>]\<rparr>,
       fy_out := ToCm (ReadFile path k n hidden i ?od) # ToPeer (MsgDir k path (tj_files job))
         # post_file_audit (manager_route env) RemoteSend path (get_files_for_audit Generic (tj_files job))\<rparr>"
    using ow t job lim fields
    by (simp add: new_session_def handle_file_action_def manager_route_def one_way_job_id_def handle_send_action_def
        start_read_job_def new_read_remote relayed_def handle_read_job_init_result_def post_file_audit_def Let_def)
  ultimately show ?thesis using fields
    by (auto simp: route_related_def connection_reads_def manager_reads_def both_reading_def new_session_def open_conn_def)
qed


definition demo_request :: ft_event2 where
  "demo_request = Action (FaSend 4 0 ''/a'' 0 False)"

lemma demo_facts:
  "get_recursive_files demo_fs ''/a'' False
     = Inr [\<lparr>fe_entry_type = FtFile, fe_name = [], fe_is_hidden = False, fe_size = 2, fe_modified_time = 0\<rparr>]"
  "file_open demo_fs (job_join ''/a'' []) = Inr \<lparr>h_ino = 0, h_pos = 0\<rparr>"
  "can_enable_overwrite_detection (get_version_number ''1.4.0'')"
  by code_simp+

lemma demo_limit: "check_file_count_limit [] (Suc 0) = Inr ()"
  by (simp add: check_file_count_limit_def get_max_validated_files_def parse_usize_def trim_def usize_MAX_def)

lemma demo_request_accepted:
  "case sys_step (connection_route (demo_fa_env [] True)) demo_request (new_session 1 ''1.4.0'' True [] demo_fs) of
     Panic \<Rightarrow> False
   | Ret a \<Rightarrow> cf_read_jobs (fy_conn a) \<noteq> []
       \<and> (case sys_run (connection_route (demo_fa_env [] True)) [ConnTimer, Action (FaCancel 4)] a of
            Panic \<Rightarrow> False | Ret s \<Rightarrow> length (peer_msgs (fy_out s)) = 2)"
proof -
  have u: "usize_of_i32 0 = 0" by (simp add: usize_of_i32_def)
  have g: "job_type_of_i32 0 = Generic" by (simp add: job_type_of_i32_def)
  have d: "fs_faulty demo_fs 0 = False" "fs_mtime demo_fs 0 = 0" "fs_data demo_fs 0 = [7, 8]" by (simp_all add: demo_fs_def)
  show ?thesis
    by (simp add: connection_route_def demo_fa_env_def demo_request_def new_session_def handle_file_action_def one_way_job_id_def
        handle_send_action_def g demo_facts demo_limit create_and_start_read_job_def new_read_def default_job_def u64_sum_def
        process_new_read_job_def post_file_audit_def conn_file_tick_def handle_read_jobs_def init_data_stream_def open_data_stream_def
        u d needs_digest_def send_current_digest_def get_current_digest_def peer_send_def good_peer_def step_job_def job_read_def
        job_completed_def handle_cancel_action_def cancel_write_def cancel_read_def relayed_def)
qed


subsection \<open>Two differences\<close>

text \<open>
  A confirmation of another file leaves a job of the connection alone, but the manager is not told
  which file is meant and takes it for the current one. And a directory that is removed after a file
  in it does not absorb the record of the file, since the two paths are compared the wrong way round.
\<close>

lemma stale_confirmation:
  assumes "cr_file_num r \<noteq> tj_file_num j" and "cr_union r = Some (OffsetBlk 0)" and "cm_read_jobs st = [j]"
  shows "confirm r j fs = Ret (j, fs)"
    and "handle_fs env (SendConfirmForRead (tj_id j) (cr_file_num r) (confirm_skip r) (confirm_offset r) conn_id) st
      = Ret (st\<lparr>cm_read_jobs := [set_file_confirmed True j]\<rparr>, [])"
  using assms
  by (simp_all add: confirm_def confirm_skip_def confirm_offset_def send_confirm_for_read_def get_job_def set_file_confirmed_def)

lemma removed_file_still_logged:
  "rg_removed_files (fst (on_remove_dir 2 ''/d'' (fst (on_remove_file 1 ''/d/x''
     \<lparr>rg_conn_id = 1, rg_removed_files = [], rg_removed_dirs = []\<rparr>)))) = [(1, ''/d/x'')]"
  by code_simp

end
