(* ===== verification/Session.thy ===== *)
theory Session
  imports Session_Scope Services File_Sessions
begin

text \<open>
  An authorised connection (\<^verbatim>\<open>src/server/connection.rs\<close>): its permissions and options, what it
  does with every message of the peer, with the permission switches of the local user, and with
  voice calls, and how this changes its subscriptions in the registry of services.

  What a handler does to the surroundings is a list of effects. The login messages themselves belong
  to the theory of logins; here they are ignored by an authorised connection, as in the source.
\<close>

subsection \<open>State and effects\<close>

datatype target = Android | Linux

record sess =
  ss_conn :: conn
  ss_id :: int
  ss_keyboard :: bool
  ss_clipboard :: bool
  ss_audio :: bool
  ss_file :: bool
  ss_restart :: bool
  ss_recording :: bool
  ss_block_input :: bool
  ss_privacy_mode :: bool
  ss_disable_keyboard :: bool
  ss_disable_clipboard :: bool
  ss_disable_audio :: bool
  ss_show_remote_cursor :: bool
  ss_show_my_cursor :: bool
  ss_lock_after_session_end :: bool
  ss_follow_remote_cursor :: bool
  ss_follow_remote_window :: bool
  ss_multi_ui_session :: bool
  ss_display_idx :: nat
  ss_voice_call_request_timestamp :: "int option"
  ss_voice_calling :: bool
  ss_audio_sender :: bool
  ss_pressed_modifiers :: "nat set"
  ss_terminal_persistent :: bool
  ss_terminal_user_token :: bool
  ss_scope_violation_messages :: "string set"
  ss_chat_unanswered :: bool
  ss_closed :: bool
  ss_services_subed :: bool
  ss_last_test_delay :: "nat option"
  ss_network_delay :: nat
  ss_options_in_login :: "option_message option"
  ss_ft :: conn_ft
  ss_last_recv :: nat
  ss_auto_disconnect :: "(nat \<times> nat) option"
  ss_video_ack_required :: bool
  ss_running :: bool

datatype privacy_state = PrvOnSucceeded | PrvOnFailed | PrvOnFailedDenied | PrvOnFailedPlugin | PrvNotSupported
  | PrvOffSucceeded | PrvOffFailed | PrvOffByPeer | PrvOffUnknown

datatype service_msg = SmStopService | SmPeerInfo | SmCursorPosition int int | SmAudioFrame bytes | SmMultiClipboards "bytes list" | SmOther

datatype effect =
    EfPointerInput string int int int
  | EfMouse int int int bool bool
  | EfPointer touch
  | EfKey key_event bool
  | EfKeyService key_event "nat set"
  | EfBlockInput bool
  | EfBlockInputError bool
  | EfSetClipboard "bytes list"
  | EfFile conn_out
  | EfQos qos_call
  | EfEncoder encoding_update
  | EfRefresh "(video_source \<times> nat) option"
  | EfScreenshot video_source int string
  | EfDisplayChanged video_source nat
  | EfFrameFetched
  | EfSubscribe string bool
  | EfTurnOnPrivacy string
  | EfTurnOffPrivacy
  | EfPrivacyMsg privacy_state string string
  | EfResolution nat int int
  | EfReboot bool
  | EfAudioStart nat nat
  | EfAudioFrame bytes
  | EfVoiceDevice bool
  | EfVoiceIncoming
  | EfVoiceStarted
  | EfVoiceClosed
  | EfVoiceResponse int bool
  | EfChat string
  | EfTerminalInit string bool
  | EfTerminal bytes
  | EfTerminalPersistence string bool
  | EfWhiteboard bool
  | EfMessageBox string
  | EfEcho int
  | EfPermission string bool
  | EfRevertSwitch bool
  | EfAlarm string string
  | EfCloseReason string
  | EfLockScreen
  | EfClosed string bool
  | EfRemoveSession
  | EfSend service_msg
  | EfSendVideo
  | EfFrameSent nat
  | EfFollowDisplay nat
  | EfSendChat string
  | EfSendVoiceRequest bool
  | EfTestDelay nat
  | EfNewTemporaryPassword
  | EfAuditClose
  | EfReleaseKeys "nat set"
  | EfTerminalJoin

type_synonym 'm sst = "sess \<times> 'm server"

text \<open>What the handlers ask of their surroundings.\<close>

record sess_env =
  se_target :: target
  se_fa :: fa_env
  se_fs :: fsys
  se_one_way_clipboard :: string
  se_alarm :: bool
  se_close :: bool
  se_now_ms :: int
  se_instant :: nat
  se_primary :: nat
  se_camera :: bool
  se_key_of_code :: "nat \<Rightarrow> nat"
  se_is_modifier_key :: "nat \<Rightarrow> bool"
  se_displays :: nat
  se_display_changed :: "video_source \<Rightarrow> nat \<Rightarrow> bool"
  se_whiteboard :: bool
  se_new_terminal_id :: string
  se_privacy_supported :: bool
  se_privacy_on :: "int option"
  se_privacy_after :: bool
  se_privacy_key :: "string option"
  se_privacy_current :: "string \<Rightarrow> bool"
  se_turn_on :: "string \<Rightarrow> (string + bool) option"
  se_turn_off :: "(string + unit) option"
  se_privacy_err :: string
  se_allow_auto_disconnect :: string
  se_auto_disconnect_timeout :: string
  se_cursor_display :: "int \<Rightarrow> int \<Rightarrow> nat option"
  se_single_clipboard :: "bytes list \<Rightarrow> service_msg option"

subsection \<open>Permissions\<close>

text \<open>\<^verbatim>\<open>parse::<u64>()\<close>\<close>

definition parse_u64 :: "string \<Rightarrow> nat option" where
  "parse_u64 s =
     (let ds = (case s of c # r \<Rightarrow> if c = CHR ''+'' then r else s | [] \<Rightarrow> s) in
      if ds = [] then None
      else case digits_nat 0 ds of Some n \<Rightarrow> if n < 2 ^ 64 then Some n else None | None \<Rightarrow> None)"

definition authed_conn_type :: "sess \<Rightarrow> auth_conn_type option" where
  "authed_conn_type s = cn_auth_type (ss_conn s)"

definition is_authed_remote_conn :: "sess \<Rightarrow> bool" where
  "is_authed_remote_conn s \<longleftrightarrow> authed_conn_type s = Some Remote"

definition is_authed_view_camera_conn :: "sess \<Rightarrow> bool" where
  "is_authed_view_camera_conn s \<longleftrightarrow> authed_conn_type s = Some ViewCameraConn"

definition should_handle_render_broadcast_message :: "sess \<Rightarrow> bool" where
  "should_handle_render_broadcast_message s \<longleftrightarrow> authed_conn_type s = Some Remote \<or> authed_conn_type s = Some ViewCameraConn"

definition should_handle_text_clipboard_message :: "sess \<Rightarrow> bool" where
  "should_handle_text_clipboard_message s \<longleftrightarrow> authed_conn_type s = Some Remote"

definition peer_keyboard_enabled :: "sess \<Rightarrow> bool" where
  "peer_keyboard_enabled s \<longleftrightarrow> ss_keyboard s \<and> \<not> ss_disable_keyboard s"

definition clipboard_enabled :: "sess \<Rightarrow> bool" where
  "clipboard_enabled s \<longleftrightarrow> ss_clipboard s \<and> \<not> ss_disable_clipboard s"

definition can_sub_clipboard_service :: "sess_env \<Rightarrow> sess \<Rightarrow> bool" where
  "can_sub_clipboard_service env s \<longleftrightarrow> clipboard_enabled s \<and> peer_keyboard_enabled s \<and> se_one_way_clipboard env \<noteq> ''Y''"

definition audio_enabled :: "sess \<Rightarrow> bool" where
  "audio_enabled s \<longleftrightarrow> ss_audio s \<and> \<not> ss_disable_audio s"

definition is_remote :: "sess \<Rightarrow> bool" where
  "is_remote s \<longleftrightarrow> cn_file_transfer (ss_conn s) = None \<and> \<not> cn_port_forward_socket (ss_conn s)
     \<and> \<not> cn_view_camera (ss_conn s) \<and> \<not> cn_terminal (ss_conn s)"

definition video_source :: "sess \<Rightarrow> video_source" where
  "video_source s = (if cn_view_camera (ss_conn s) then Camera else Monitor)"

subsection \<open>Actions\<close>

text \<open>An action changes the state and has effects; actions are done one after the other.\<close>

fun actions :: "('s \<Rightarrow> 's \<times> 'e list) list \<Rightarrow> 's \<Rightarrow> 's \<times> 'e list" where
  "actions [] s = (s, [])"
| "actions (f # fs) s = (case f s of (s, out) \<Rightarrow> (case actions fs s of (s, out') \<Rightarrow> (s, out @ out')))"

definition emit :: "'e list \<Rightarrow> 's \<Rightarrow> 's \<times> 'e list" where
  "emit es s = (s, es)"

definition modify_sess :: "(sess \<Rightarrow> sess) \<Rightarrow> 'm sst \<Rightarrow> 'm sst \<times> effect list" where
  "modify_sess f st = ((f (fst st), snd st), [])"

definition sub_service :: "string \<Rightarrow> (sess \<Rightarrow> bool) \<Rightarrow> 'm sst \<Rightarrow> 'm sst \<times> effect list" where
  "sub_service name f st = ((fst st, subscribe name (ss_id (fst st)) (f (fst st)) (snd st)), [EfSubscribe name (f (fst st))])"

definition guarded :: "(sess \<Rightarrow> bool) \<Rightarrow> ('m sst \<Rightarrow> 'm sst \<times> effect list) \<Rightarrow> 'm sst \<Rightarrow> 'm sst \<times> effect list" where
  "guarded b f st = (if b (fst st) then f st else (st, []))"

subsection \<open>Privacy mode\<close>

definition turn_off_privacy_result_to_msg :: "(string + unit) option \<Rightarrow> string \<Rightarrow> effect" where
  "turn_off_privacy_result_to_msg res key =
     (case res of
        Some (Inr _) \<Rightarrow> EfPrivacyMsg PrvOffSucceeded [] key
      | Some (Inl e) \<Rightarrow> EfPrivacyMsg PrvOffFailed e key
      | None \<Rightarrow> EfPrivacyMsg PrvOffFailed ''Not supported'' key)"

definition unsupported_privacy :: string where
  "unsupported_privacy = ''Unsupported. 1 Multi-screen is not supported. 2 Please confirm the license is activated.''"

definition turn_off_privacy :: "sess_env \<Rightarrow> string \<Rightarrow> effect list" where
  "turn_off_privacy env key =
     (if \<not> se_privacy_supported env then [EfPrivacyMsg PrvNotSupported unsupported_privacy key]
      else [EfTurnOffPrivacy, turn_off_privacy_result_to_msg (se_turn_off env) key])"

definition turn_on_privacy :: "sess_env \<Rightarrow> string \<Rightarrow> sess \<Rightarrow> effect list" where
  "turn_on_privacy env key s =
     (if \<not> is_authed_remote_conn s \<or> \<not> ss_privacy_mode s then [EfPrivacyMsg PrvOnFailedDenied [] key]
      else if \<not> se_privacy_supported env then [EfPrivacyMsg PrvNotSupported unsupported_privacy key]
      else
        (case (se_privacy_on env, se_privacy_key env) of
           (Some _, Some pre) \<Rightarrow> if \<not> se_privacy_current env pre then [EfPrivacyMsg PrvOffSucceeded [] pre] else []
         | _ \<Rightarrow> [])
        @ [EfTurnOnPrivacy key]
        @ (case se_turn_on env key of
             Some (Inr True) \<Rightarrow>
               if se_privacy_err env = [] then [EfPrivacyMsg PrvOnSucceeded [] key]
               else [EfTurnOffPrivacy, EfPrivacyMsg PrvOnFailed (se_privacy_err env) key]
           | Some (Inr False) \<Rightarrow> [EfPrivacyMsg PrvOnFailedPlugin [] key]
           | Some (Inl e) \<Rightarrow>
               (if se_privacy_after env then [EfTurnOffPrivacy] else []) @ [EfPrivacyMsg PrvOnFailed e key]
           | None \<Rightarrow> [EfPrivacyMsg PrvOffFailed ''Not supported'' key]))"

definition toggle_privacy_mode :: "sess_env \<Rightarrow> string \<Rightarrow> bool \<Rightarrow> sess \<Rightarrow> effect list" where
  "toggle_privacy_mode env key on s = (if on then turn_on_privacy env key s else turn_off_privacy env key)"

subsection \<open>Options\<close>

definition with_bool :: "int \<Rightarrow> (bool \<Rightarrow> 'm sst \<Rightarrow> 'm sst \<times> effect list) \<Rightarrow> 'm sst \<Rightarrow> 'm sst \<times> effect list" where
  "with_bool v f st =
     (case bool_option_of v of Some Yes \<Rightarrow> f True st | Some No \<Rightarrow> f False st | _ \<Rightarrow> (st, []))"

definition sub_audio :: "'m sst \<Rightarrow> 'm sst \<times> effect list" where
  "sub_audio = guarded (\<lambda>s. \<not> is_authed_view_camera_conn s \<or> ss_voice_calling s \<or> \<not> audio_enabled s) (sub_service NAME_AUDIO audio_enabled)"

definition option_image_quality :: "sess_env \<Rightarrow> option_message \<Rightarrow> 'm sst \<Rightarrow> 'm sst \<times> effect list" where
  "option_image_quality env o1 st =
     (case image_quality_of (om_image_quality o1) of
        None \<Rightarrow> (st, [])
      | Some q \<Rightarrow>
          let v = (if q = 0 then (if om_custom_image_quality o1 > 0 then om_custom_image_quality o1 else - 1) else q)
          in (st, if v > 0 then [EfQos (ImageQuality (se_now_ms env) (ss_id (fst st)) v)] else []))"

definition option_block_input :: "option_message \<Rightarrow> 'm sst \<Rightarrow> 'm sst \<times> effect list" where
  "option_block_input o1 st =
     (case bool_option_of (om_block_input o1) of
        None \<Rightarrow> (st, [])
      | Some q \<Rightarrow>
          (st, if q = NotSet then []
               else if ss_keyboard (fst st) \<and> ss_block_input (fst st) then [EfBlockInput (q = Yes)]
               else [EfBlockInputError (q = Yes)]))"

definition option_show_my_cursor :: "sess_env \<Rightarrow> option_message \<Rightarrow> 'm sst \<Rightarrow> 'm sst \<times> effect list" where
  "option_show_my_cursor env o1 =
     with_bool (om_show_my_cursor o1) (\<lambda>b. actions
       [modify_sess (\<lambda>s. s\<lparr>ss_show_my_cursor := b\<rparr>),
        emit (if se_whiteboard env then [EfWhiteboard b] else if b then [EfMessageBox ''Show my cursor''] else [])])"

definition desktop :: "sess_env \<Rightarrow> ('m sst \<Rightarrow> 'm sst \<times> effect list) \<Rightarrow> 'm sst \<Rightarrow> 'm sst \<times> effect list" where
  "desktop env f = (if se_target env = Linux then f else emit [])"

definition update_options :: "sess_env \<Rightarrow> option_message \<Rightarrow> 'm sst \<Rightarrow> 'm sst \<times> effect list" where
  "update_options env o1 = actions
     [option_image_quality env o1,
      \<lambda>st. (st, if om_custom_fps o1 > 0 then [EfQos (CustomFps (ss_id (fst st)) (nat (om_custom_fps o1)))] else []),
      \<lambda>st. (st, case om_supported_decoding o1 of Some q \<Rightarrow> [EfEncoder (Update (ss_id (fst st)) q)] | None \<Rightarrow> []),
      with_bool (om_lock_after_session_end o1) (\<lambda>b. modify_sess (\<lambda>s. s\<lparr>ss_lock_after_session_end := b\<rparr>)),
      desktop env (with_bool (om_show_remote_cursor o1) (\<lambda>b. actions
        [modify_sess (\<lambda>s. s\<lparr>ss_show_remote_cursor := b\<rparr>),
         sub_service NAME_CURSOR (\<lambda>s. peer_keyboard_enabled s \<or> ss_show_remote_cursor s),
         sub_service NAME_POS ss_show_remote_cursor])),
      desktop env (with_bool (om_follow_remote_cursor o1) (\<lambda>b. modify_sess (\<lambda>s. s\<lparr>ss_follow_remote_cursor := b\<rparr>))),
      with_bool (om_follow_remote_window o1) (\<lambda>b. actions
        [modify_sess (\<lambda>s. s\<lparr>ss_follow_remote_window := b\<rparr>), sub_service NAME_WINDOW_FOCUS ss_follow_remote_window]),
      with_bool (om_disable_audio o1) (\<lambda>b. actions [modify_sess (\<lambda>s. s\<lparr>ss_disable_audio := b\<rparr>), sub_audio]),
      with_bool (om_disable_clipboard o1) (\<lambda>b. actions
        [modify_sess (\<lambda>s. s\<lparr>ss_disable_clipboard := b\<rparr>), sub_service NAME_CLIPBOARD (can_sub_clipboard_service env)]),
      with_bool (om_disable_keyboard o1) (\<lambda>b. actions
        [modify_sess (\<lambda>s. s\<lparr>ss_disable_keyboard := b\<rparr>), sub_service NAME_CLIPBOARD (can_sub_clipboard_service env),
         sub_service NAME_CURSOR (\<lambda>s. peer_keyboard_enabled s \<or> ss_show_remote_cursor s)]),
      guarded (\<lambda>s. get_version_number (lr_version (cn_lr (ss_conn s))) < get_version_number ''1.2.4'' \<and> ss_keyboard s)
        (with_bool (om_privacy_mode o1) (\<lambda>b st.
           (st, if b then turn_on_privacy env [] (fst st) else turn_off_privacy env []))),
      option_block_input o1,
      desktop env (with_bool (om_terminal_persistent o1) (\<lambda>b. actions
        [modify_sess (\<lambda>s. s\<lparr>ss_terminal_persistent := b\<rparr>),
         \<lambda>st. (st, [EfTerminalPersistence (cn_terminal_service_id (ss_conn (fst st))) b])])),
      desktop env (option_show_my_cursor env o1)]"

definition update_scoped_login_options :: "sess_env \<Rightarrow> 'm sst \<Rightarrow> 'm sst \<times> effect list" where
  "update_scoped_login_options env st =
     (case ss_options_in_login (fst st) of
        None \<Rightarrow> (st, [])
      | Some o1 \<Rightarrow>
          let st = ((fst st)\<lparr>ss_options_in_login := None\<rparr>, snd st) in
          (case authed_conn_type (fst st) of
             None \<Rightarrow> (st, [])
           | Some t \<Rightarrow>
               (case fst (scoped_login_option t o1) of None \<Rightarrow> (st, []) | Some o2 \<Rightarrow> update_options env o2 st)))"

subsection \<open>Displays\<close>

definition refresh_video_display :: "(sess \<Rightarrow> nat option) \<Rightarrow> 'm sst \<Rightarrow> 'm sst \<times> effect list" where
  "refresh_video_display display st =
     (let d = map_option (\<lambda>d. (video_source (fst st), d)) (display (fst st))
      in ((fst st, set_video_service_opt d ''refresh'' ''1'' (snd st)), [EfRefresh d]))"

definition is_support_multi_ui_session :: "string \<Rightarrow> bool" where
  "is_support_multi_ui_session version \<longleftrightarrow> get_version_number version \<ge> get_version_number ''1.2.4''"

definition switch_display_to :: "sess_env \<Rightarrow> nat \<Rightarrow> 'm sst \<Rightarrow> 'm sst \<times> effect list" where
  "switch_display_to env d st =
     (let (s, sr) = st;
          new_name = get_service_name (video_source s) d;
          old_name = get_service_name (video_source s) (ss_display_idx s);
          sr = (if d \<noteq> se_primary env then ensure_video_service (video_source s) d sr else sr)
      in actions
           [guarded (\<lambda>s. \<not> is_support_multi_ui_session (lr_version (cn_lr (ss_conn s)))) (sub_service old_name (\<lambda>_. False)),
            sub_service new_name (\<lambda>_. True),
            modify_sess (\<lambda>s. s\<lparr>ss_display_idx := d\<rparr>)] (s, sr))"

definition change_resolution :: "sess_env \<Rightarrow> nat option \<Rightarrow> int \<Rightarrow> int \<Rightarrow> sess \<Rightarrow> effect list" where
  "change_resolution env d w h s =
     (if ss_keyboard s then
        let idx = (case d of Some d \<Rightarrow> d | None \<Rightarrow> ss_display_idx s)
        in if idx < se_displays env then [EfResolution idx w h] else []
      else [])"

definition display_changed :: "sess_env \<Rightarrow> nat \<Rightarrow> sess \<Rightarrow> effect list" where
  "display_changed env d s = (if se_display_changed env (video_source s) d then [EfDisplayChanged (video_source s) d] else [])"

definition handle_switch_display :: "sess_env \<Rightarrow> int \<Rightarrow> int \<Rightarrow> int \<Rightarrow> 'm sst \<Rightarrow> 'm sst \<times> effect list" where
  "handle_switch_display env display w h =
     (let d = usize_of_i32 display in
      guarded (\<lambda>s. ss_display_idx s \<noteq> d) (actions
        [switch_display_to env d,
         desktop env (guarded (\<lambda>s. \<not> cn_view_camera (ss_conn s) \<and> w \<noteq> 0 \<and> h \<noteq> 0) (\<lambda>st. (st, change_resolution env None w h (fst st)))),
         \<lambda>st. (st, display_changed env (ss_display_idx (fst st)) (fst st))]))"

definition capture_displays :: "nat list \<Rightarrow> nat list \<Rightarrow> nat list \<Rightarrow> 'm sst \<Rightarrow> 'm sst \<times> effect list" where
  "capture_displays add sub set1 st =
     (let (s, sr) = st;
          src = video_source s;
          sr = foldl (\<lambda>sr d. ensure_video_service src d sr) sr (add @ set1);
          sr = (if add \<noteq> [] then capture_displays_at (ss_id s) src add True False sr
                else if sub \<noteq> [] then capture_displays_at (ss_id s) src sub False True sr
                else capture_displays_at (ss_id s) src set1 True True sr);
          s = s\<lparr>ss_multi_ui_session := (get_subbed_displays_count (ss_id s) sr > 1)\<rparr>
      in guarded ss_follow_remote_window (sub_service NAME_WINDOW_FOCUS (\<lambda>s. \<not> ss_multi_ui_session s)) (s, sr))"

subsection \<open>Voice calls\<close>

definition handle_voice_call :: "bool \<Rightarrow> 'm sst \<Rightarrow> 'm sst \<times> effect list" where
  "handle_voice_call accepted st =
     (case ss_voice_call_request_timestamp (fst st) of
        None \<Rightarrow> (st, [])
      | Some ts \<Rightarrow> actions
          [modify_sess (\<lambda>s. s\<lparr>ss_voice_call_request_timestamp := None\<rparr>),
           emit (if accepted then [EfVoiceDevice True, EfVoiceStarted] else [EfVoiceClosed]),
           emit [EfVoiceResponse ts accepted],
           modify_sess (\<lambda>s. s\<lparr>ss_voice_calling := accepted\<rparr>),
           guarded is_authed_view_camera_conn (sub_service NAME_AUDIO (\<lambda>s. audio_enabled s \<and> accepted))] st)"

definition close_voice_call :: "'m sst \<Rightarrow> 'm sst \<times> effect list" where
  "close_voice_call = actions
     [emit [EfVoiceDevice False, EfVoiceClosed],
      modify_sess (\<lambda>s. s\<lparr>ss_voice_calling := False\<rparr>),
      guarded is_authed_view_camera_conn (sub_service NAME_AUDIO (\<lambda>_. False))]"

subsection \<open>The timer of inactivity\<close>

definition get_auto_disconnect_timer :: "sess_env \<Rightarrow> (nat \<times> nat) option" where
  "get_auto_disconnect_timer env =
     (if se_allow_auto_disconnect env = ''Y'' then
        let m = (case parse_u64 (se_auto_disconnect_timeout env) of Some m \<Rightarrow> m | None \<Rightarrow> 10)
        in Some (se_instant env, if m = 0 then 10 else m)
      else None)"

definition update_auto_disconnect_timer :: "sess_env \<Rightarrow> sess \<Rightarrow> sess" where
  "update_auto_disconnect_timer env s =
     s\<lparr>ss_auto_disconnect := map_option (\<lambda>(_, m). (se_instant env, m)) (ss_auto_disconnect s)\<rparr>"

subsection \<open>Keys\<close>

text \<open>\<^verbatim>\<open>Alt\<close>, \<^verbatim>\<open>Control\<close>, \<^verbatim>\<open>Meta\<close>, \<^verbatim>\<open>Shift\<close> and their right-hand variants.\<close>

definition is_modifier :: "key_event \<Rightarrow> bool" where
  "is_modifier k = (case ke_union k of ControlKey v \<Rightarrow> v \<in> {1, 4, 23, 29, 64, 73, 74, 75} | _ \<Rightarrow> False)"

definition modifier_key :: "sess_env \<Rightarrow> key_event \<Rightarrow> nat option" where
  "modifier_key env k =
     (let code = (if ke_mode k = 1 then Some (se_key_of_code env (case ke_union k of Chr c \<Rightarrow> c | _ \<Rightarrow> 0))
                  else if ke_mode k = 2 then (case ke_union k of Chr c \<Rightarrow> Some (se_key_of_code env (c mod 2 ^ 16)) | _ \<Rightarrow> None)
                  else None)
      in case code of Some key \<Rightarrow> if se_is_modifier_key env key then Some key else None | None \<Rightarrow> None)"

definition is_key_press :: "sess_env \<Rightarrow> key_event \<Rightarrow> bool" where
  "is_key_press env k \<longleftrightarrow> (ke_press k \<or> ke_down k) \<and> \<not> (is_modifier k \<or> modifier_key env k \<noteq> None)"

definition track_modifier :: "sess_env \<Rightarrow> key_event \<Rightarrow> sess \<Rightarrow> sess" where
  "track_modifier env k s =
     (case modifier_key env k of
        Some key \<Rightarrow>
          s\<lparr>ss_pressed_modifiers := (if is_key_press env k then insert key (ss_pressed_modifiers s) else ss_pressed_modifiers s - {key})\<rparr>
      | None \<Rightarrow> s)"

definition on_key_event :: "sess_env \<Rightarrow> key_event \<Rightarrow> 'm sst \<Rightarrow> 'm sst \<times> effect list" where
  "on_key_event env k =
     (case se_target env of
        Android \<Rightarrow> actions
          [modify_sess (track_modifier env k), \<lambda>st. (st, [EfKeyService k (ss_pressed_modifiers (fst st))])]
      | Linux \<Rightarrow> actions
          [guarded peer_keyboard_enabled (actions
             [modify_sess (track_modifier env k),
              emit [EfKey k (is_key_press env k \<and> (case ke_union k of UnicodeKey _ \<Rightarrow> False | SeqKey _ \<Rightarrow> False | _ \<Rightarrow> True))]]),
           modify_sess (update_auto_disconnect_timer env)])"

definition mouse_effects :: "sess_env \<Rightarrow> int \<Rightarrow> int \<Rightarrow> int \<Rightarrow> sess \<Rightarrow> effect list" where
  "mouse_effects env msk x y s =
     (case se_target env of
        Android \<Rightarrow> [EfPointerInput ''mouse'' msk x y]
      | Linux \<Rightarrow>
          if peer_keyboard_enabled s then [EfMouse msk x y True (ss_show_my_cursor s)]
          else if ss_show_my_cursor s then [EfMouse msk x y False True] else [])"

definition on_mouse_event :: "sess_env \<Rightarrow> int \<Rightarrow> int \<Rightarrow> int \<Rightarrow> 'm sst \<Rightarrow> 'm sst \<times> effect list" where
  "on_mouse_event env msk x y = actions
     [\<lambda>st. (st, mouse_effects env msk x y (fst st)), modify_sess (update_auto_disconnect_timer env)]"

definition pointer_effects :: "sess_env \<Rightarrow> touch \<Rightarrow> sess \<Rightarrow> effect list" where
  "pointer_effects env t s =
     (case se_target env of
        Android \<Rightarrow>
          (case t of PanStart x y \<Rightarrow> [EfPointerInput ''touch'' 4 x y] | PanUpdate x y \<Rightarrow> [EfPointerInput ''touch'' 5 x y]
           | PanEnd x y \<Rightarrow> [EfPointerInput ''touch'' 6 x y] | OtherTouch \<Rightarrow> [])
      | Linux \<Rightarrow> if peer_keyboard_enabled s then [EfPointer t] else [])"

definition on_pointer_event :: "sess_env \<Rightarrow> touch \<Rightarrow> 'm sst \<Rightarrow> 'm sst \<times> effect list" where
  "on_pointer_event env t = actions
     [\<lambda>st. (st, pointer_effects env t (fst st)), modify_sess (update_auto_disconnect_timer env)]"

subsection \<open>Closing\<close>

definition on_close :: "sess_env \<Rightarrow> string \<Rightarrow> bool \<Rightarrow> 'm sst \<Rightarrow> 'm sst \<times> effect list" where
  "on_close env reason lock =
     guarded (\<lambda>s. \<not> ss_closed s) (actions
       [modify_sess (\<lambda>s. s\<lparr>ss_closed := True\<rparr>),
        emit [EfVoiceDevice False],
        desktop env (guarded (\<lambda>s. lock \<and> ss_lock_after_session_end s \<and> ss_keyboard s) (emit [EfLockScreen])),
        \<lambda>st. (st, [EfClosed reason (se_target env = Linux \<and> ss_chat_unanswered (fst st))]),
        modify_sess (\<lambda>s. s\<lparr>ss_conn := (ss_conn s)\<lparr>cn_port_forward_socket := False\<rparr>\<rparr>)])"

definition send_close_reason_no_retry :: "string \<Rightarrow> 'm sst \<Rightarrow> 'm sst \<times> effect list" where
  "send_close_reason_no_retry reason =
     emit [EfCloseReason (if reason = [] then ''Closed manually by the peer'' else reason), EfRemoveSession]"

definition auth_type_name :: "auth_conn_type option \<Rightarrow> string" where
  "auth_type_name t =
     (case t of
        Some Remote \<Rightarrow> ''remote'' | Some FileTransferConn \<Rightarrow> ''file_transfer'' | Some PortForwardConn \<Rightarrow> ''port_forward''
      | Some ViewCameraConn \<Rightarrow> ''view_camera'' | Some TerminalConn \<Rightarrow> ''terminal'' | None \<Rightarrow> ''unknown'')"

definition handle_authorized_scope_violation :: "sess_env \<Rightarrow> string \<Rightarrow> 'm sst \<Rightarrow> bool \<times> 'm sst \<times> effect list" where
  "handle_authorized_scope_violation env m st =
     (let is_first = (m \<notin> ss_scope_violation_messages (fst st));
          alarm = (if is_first \<and> se_alarm env then [EfAlarm (auth_type_name (authed_conn_type (fst st))) m] else [])
      in (\<not> se_close env,
          actions
            [modify_sess (\<lambda>s. s\<lparr>ss_scope_violation_messages := insert m (ss_scope_violation_messages s)\<rparr>),
             emit alarm,
             guarded (\<lambda>_. se_close env) (actions
               [send_close_reason_no_retry ''Connection not allowed'', on_close env ''Session scope violation'' True])] st))"

subsection \<open>Messages of the peer\<close>

fun on_misc :: "sess_env \<Rightarrow> misc \<Rightarrow> 'm sst \<Rightarrow> 'm sst \<times> effect list" where
  "on_misc env (SwitchDisplay d w h) = handle_switch_display env d w h"
| "on_misc env (CaptureDisplays add sub set1) =
     capture_displays (map usize_of_i32 add) (map usize_of_i32 sub) (map usize_of_i32 set1)"
| "on_misc env (TogglePrivacyMode key on) =
     guarded (\<lambda>s. \<not> cn_view_camera (ss_conn s)) (\<lambda>st. (st, toggle_privacy_mode env key on (fst st)))"
| "on_misc env (ChatMessage text) = actions
     [emit [EfChat text], modify_sess (\<lambda>s. s\<lparr>ss_chat_unanswered := True\<rparr>), modify_sess (update_auto_disconnect_timer env)]"
| "on_misc env (OptionMsg o1) =
     (\<lambda>st. if authed_conn_type (fst st) = Some Remote then update_options env o1 st
           else case scoped_update_option_message (authed_conn_type (fst st)) o1 of
             Some o2 \<Rightarrow> update_options env o2 st | None \<Rightarrow> (st, []))"
| "on_misc env (RefreshVideo r) =
     guarded should_handle_render_broadcast_message
       (actions [if r then refresh_video_display (\<lambda>_. None) else emit [], modify_sess (update_auto_disconnect_timer env)])"
| "on_misc env (RefreshVideoDisplay d) =
     guarded should_handle_render_broadcast_message
       (actions [refresh_video_display (\<lambda>_. Some (usize_of_i32 d)), modify_sess (update_auto_disconnect_timer env)])"
| "on_misc env (VideoReceived b) = emit [EfFrameFetched]"
| "on_misc env (RestartRemoteDevice b) = desktop env (guarded ss_restart (emit [EfReboot True, EfReboot False]))"
| "on_misc env (AudioFormat rate channels) =
     guarded (\<lambda>s. \<not> ss_disable_audio s) (actions [modify_sess (\<lambda>s. s\<lparr>ss_audio_sender := True\<rparr>), emit [EfAudioStart rate channels]])"
| "on_misc env (ChangeResolution w h) =
     desktop env (guarded (\<lambda>s. \<not> cn_view_camera (ss_conn s)) (\<lambda>st. (st, change_resolution env None w h (fst st))))"
| "on_misc env (ChangeDisplayResolution d w h) =
     desktop env (guarded (\<lambda>s. \<not> cn_view_camera (ss_conn s)) (\<lambda>st. (st, change_resolution env (Some (usize_of_i32 d)) w h (fst st))))"
| "on_misc env (AutoAdjustFps fps) = (\<lambda>st. (st, [EfQos (AutoFps (ss_id (fst st)) fps)]))"
| "on_misc env (ClientRecordStatus b) = (\<lambda>st. (st, [EfQos (Record (ss_id (fst st)) b)]))"
| "on_misc env (MessageQuery d) = (\<lambda>st. (st, display_changed env (usize_of_i32 d) (fst st)))"
| "on_misc env _ = emit []"

definition on_test_delay :: "sess_env \<Rightarrow> int \<Rightarrow> bool \<Rightarrow> 'm sst \<Rightarrow> 'm sst \<times> effect list" where
  "on_test_delay env time from_client st =
     (if from_client then (st, [EfEcho time])
      else case ss_last_test_delay (fst st) of
        None \<Rightarrow> (st, [])
      | Some tm \<Rightarrow>
          let d = (se_instant env - tm) mod 2 ^ 32
          in (((fst st)\<lparr>ss_last_test_delay := None, ss_network_delay := d\<rparr>, snd st),
              [EfQos (NetworkDelay (se_instant env) (se_target env = Linux) (ss_id (fst st)) d)]))"

definition on_file_action :: "sess_env \<Rightarrow> file_action option \<Rightarrow> 'm sst \<Rightarrow> ('m sst \<times> effect list) rust" where
  "on_file_action env fa st =
     (case fa of
        None \<Rightarrow> Ret (st, [])
      | Some fa \<Rightarrow>
          rust_bind (handle_file_action (se_fa env) (se_fs env) fa (ss_ft (fst st))) (\<lambda>(fs, c, out).
            Ret (((fst st)\<lparr>ss_ft := c\<rparr>, snd st), map EfFile out)))"

fun on_plain_message :: "sess_env \<Rightarrow> message \<Rightarrow> 'm sst \<Rightarrow> 'm sst \<times> effect list" where
  "on_plain_message env (MMouse msk x y) = guarded (\<lambda>s. \<not> is_authed_view_camera_conn s) (on_mouse_event env msk x y)"
| "on_plain_message env (MPointer t) = guarded (\<lambda>s. \<not> is_authed_view_camera_conn s) (on_pointer_event env t)"
| "on_plain_message env (MKey k) = guarded (\<lambda>s. \<not> is_authed_view_camera_conn s) (on_key_event env k)"
| "on_plain_message env (MClipboard cb) =
     guarded (\<lambda>s. should_handle_text_clipboard_message s \<and> clipboard_enabled s) (emit [EfSetClipboard [cb]])"
| "on_plain_message env (MMultiClipboards cbs) =
     guarded (\<lambda>s. should_handle_text_clipboard_message s \<and> clipboard_enabled s) (emit [EfSetClipboard cbs])"
| "on_plain_message env (MFileResponse fr) = emit (map EfFile (handle_file_response fr))"
| "on_plain_message env (MMisc m) = on_misc env m"
| "on_plain_message env (MAudioFrame d) = guarded (\<lambda>s. \<not> ss_disable_audio s \<and> ss_audio_sender s) (emit [EfAudioFrame d])"
| "on_plain_message env (MVoiceCallRequest ts connect) =
     (if connect then actions
        [modify_sess (\<lambda>s. s\<lparr>ss_voice_call_request_timestamp := Some (if ts \<noteq> 0 then ts else se_now_ms env)\<rparr>), emit [EfVoiceIncoming]]
      else close_voice_call)"
| "on_plain_message env (MScreenshotRequest d sid) = actions
     [\<lambda>st. (st, [EfScreenshot (video_source (fst st)) d sid]), refresh_video_display (\<lambda>_. Some (usize_of_i32 d))]"
| "on_plain_message env (MTerminalAction a) = desktop env (guarded ss_terminal_user_token (emit [EfTerminal a]))"
| "on_plain_message env _ = emit []"

definition on_session_message :: "sess_env \<Rightarrow> message \<Rightarrow> 'm sst \<Rightarrow> (bool \<times> 'm sst \<times> effect list) rust" where
  "on_session_message env msg st =
     (case msg of
        MMisc (CloseReason r) \<Rightarrow> Ret (False, actions [on_close env ''Peer close'' True, emit [EfRemoveSession]] st)
      | _ \<Rightarrow>
          if cn_authorized (ss_conn (fst st)) \<and> (case msg of MLogin _ \<Rightarrow> True | _ \<Rightarrow> False) then Ret (True, st, [])
          else
            (case (if cn_authorized (ss_conn (fst st)) then authorized_scope_violation (authed_conn_type (fst st)) msg else None) of
               Some m \<Rightarrow> Ret (handle_authorized_scope_violation env m st)
             | None \<Rightarrow>
                 (case msg of
                    MTestDelay t from_client \<Rightarrow> Ret (True, on_test_delay env t from_client st)
                  | _ \<Rightarrow>
                      if \<not> cn_authorized (ss_conn (fst st)) \<or> cn_port_forward_socket (ss_conn (fst st)) then Ret (True, st, [])
                      else
                        (case msg of
                           MFileAction fa \<Rightarrow> rust_bind (on_file_action env fa st) (\<lambda>r. Ret (True, r))
                         | _ \<Rightarrow> Ret (True, on_plain_message env msg st)))))"

subsection \<open>The local user and the start of a session\<close>

definition switch_privacy :: "sess_env \<Rightarrow> bool \<Rightarrow> 'm sst \<Rightarrow> 'm sst \<times> effect list" where
  "switch_privacy env enabled st =
     (let key = (case se_privacy_key env of Some k \<Rightarrow> k | None \<Rightarrow> []);
          mine = (\<not> enabled \<and> se_privacy_on env = Some (ss_id (fst st)));
          failed = (mine \<and> (case se_turn_off env of Some (Inr _) \<Rightarrow> False | _ \<Rightarrow> True))
      in actions
           ([emit (if mine then
                     (case se_turn_off env of
                        Some (Inr _) \<Rightarrow> [EfTurnOffPrivacy, EfPrivacyMsg PrvOffByPeer [] key]
                      | r \<Rightarrow> [EfTurnOffPrivacy, turn_off_privacy_result_to_msg r key, EfRevertSwitch (ss_privacy_mode (fst st))])
                   else [])]
            @ (if failed then []
               else [modify_sess (\<lambda>s. s\<lparr>ss_privacy_mode := enabled\<rparr>), emit [EfPermission ''privacy_mode'' enabled]])) st)"

definition switch_permission :: "sess_env \<Rightarrow> string \<Rightarrow> bool \<Rightarrow> 'm sst \<Rightarrow> 'm sst \<times> effect list" where
  "switch_permission env name enabled =
     (if name = ''keyboard'' then actions
        [modify_sess (\<lambda>s. s\<lparr>ss_keyboard := enabled\<rparr>), emit [EfPermission name enabled],
         sub_service NAME_CLIPBOARD (can_sub_clipboard_service env),
         sub_service NAME_CURSOR (\<lambda>s. enabled \<or> ss_show_remote_cursor s)]
      else if name = ''clipboard'' then actions
        [modify_sess (\<lambda>s. s\<lparr>ss_clipboard := enabled\<rparr>), emit [EfPermission name enabled],
         sub_service NAME_CLIPBOARD (can_sub_clipboard_service env)]
      else if name = ''audio'' then actions
        [modify_sess (\<lambda>s. s\<lparr>ss_audio := enabled\<rparr>), emit [EfPermission name enabled],
         guarded (\<lambda>s. cn_authorized (ss_conn s)) sub_audio]
      else if name = ''file'' then actions [modify_sess (\<lambda>s. s\<lparr>ss_file := enabled\<rparr>), emit [EfPermission name enabled]]
      else if name = ''restart'' then actions [modify_sess (\<lambda>s. s\<lparr>ss_restart := enabled\<rparr>), emit [EfPermission name enabled]]
      else if name = ''recording'' then actions [modify_sess (\<lambda>s. s\<lparr>ss_recording := enabled\<rparr>), emit [EfPermission name enabled]]
      else if name = ''block_input'' then actions [modify_sess (\<lambda>s. s\<lparr>ss_block_input := enabled\<rparr>), emit [EfPermission name enabled]]
      else if name = ''privacy_mode'' then switch_privacy env enabled
      else emit [])"

definition try_sub_camera_displays :: "sess_env \<Rightarrow> 'm sst \<Rightarrow> 'm sst \<times> effect list" where
  "try_sub_camera_displays env st =
     ((fst st, add_camera_connection (se_camera env) (ss_id (fst st)) (try_add_primary_camera_service (se_camera env) (snd st))), [])"

definition noperms_of :: "sess_env \<Rightarrow> sess \<Rightarrow> string list" where
  "noperms_of env s =
     (if \<not> peer_keyboard_enabled s \<and> \<not> ss_show_remote_cursor s then [NAME_CURSOR] else [])
     @ (if \<not> ss_show_remote_cursor s then [NAME_POS] else [])
     @ (if \<not> ss_follow_remote_window s then [NAME_WINDOW_FOCUS] else [])
     @ (if \<not> can_sub_clipboard_service env s then [NAME_CLIPBOARD] else [])
     @ (if \<not> audio_enabled s then [NAME_AUDIO] else [])"

definition try_sub_monitor_services :: "sess_env \<Rightarrow> 'm sst \<Rightarrow> 'm sst \<times> effect list" where
  "try_sub_monitor_services env st =
     (if is_remote (fst st) \<and> \<not> ss_services_subed (fst st) then
        (((fst st)\<lparr>ss_services_subed := True, ss_auto_disconnect := get_auto_disconnect_timer env\<rparr>,
          add_connection (se_primary env) (ss_id (fst st)) (noperms_of env (fst st))
            (try_add_primay_video_service (se_primary env) (snd st))), [])
      else (st, []))"

definition init_terminal_service :: "sess_env \<Rightarrow> 'm sst \<Rightarrow> 'm sst \<times> effect list" where
  "init_terminal_service env = guarded ss_terminal_user_token (actions
     [modify_sess (\<lambda>s. s\<lparr>ss_conn := (ss_conn s)\<lparr>cn_terminal_service_id :=
        (if cn_terminal_service_id (ss_conn s) = [] then se_new_terminal_id env else cn_terminal_service_id (ss_conn s))\<rparr>\<rparr>),
      \<lambda>st. (st, [EfTerminalInit (cn_terminal_service_id (ss_conn (fst st))) (ss_terminal_persistent (fst st))])])"

text \<open>
  What follows the logon response: \<open>displays_ok\<close> tells whether the displays could be listed, and
  \<open>is_dir\<close> whether the directory asked for exists. Without a registered user session to confirm
  (a matter of Windows) nothing is delayed.
\<close>

definition start_services :: "sess_env \<Rightarrow> bool \<Rightarrow> (string \<Rightarrow> bool) \<Rightarrow> 'm sst \<Rightarrow> 'm sst \<times> effect list" where
  "start_services env displays_ok is_dir st =
     (case cn_file_transfer (ss_conn (fst st)) of
        Some (dir, hidden) \<Rightarrow> actions
          [modify_sess (\<lambda>s. s\<lparr>ss_keyboard := False\<rparr>),
           emit [EfFile (ToCm (ReadDir (if dir \<noteq> [] \<and> is_dir dir then dir else []) hidden))]] st
      | None \<Rightarrow>
          if cn_terminal (ss_conn (fst st)) then actions
            [modify_sess (\<lambda>s. s\<lparr>ss_keyboard := False\<rparr>), desktop env (init_terminal_service env)] st
          else if cn_view_camera (ss_conn (fst st)) then actions
            [try_sub_camera_displays env, modify_sess (\<lambda>s. s\<lparr>ss_keyboard := False\<rparr>), emit [EfPermission ''keyboard'' False]] st
          else if displays_ok then try_sub_monitor_services env st
          else (st, []))"

definition after_logon :: "sess_env \<Rightarrow> bool \<Rightarrow> (string \<Rightarrow> bool) \<Rightarrow> 'm sst \<Rightarrow> 'm sst \<times> effect list" where
  "after_logon env displays_ok is_dir st =
     (if cn_port_forward_socket (ss_conn (fst st)) then (st, [])
      else actions [update_scoped_login_options env, start_services env displays_ok is_dir] st)"

text \<open>Modifiers are never recorded as held: a key that is a modifier never counts as pressed.\<close>

lemma modifiers_never_held: "ss_pressed_modifiers (track_modifier env k s) \<subseteq> ss_pressed_modifiers s"
  by (auto simp: track_modifier_def is_key_press_def split: option.splits)

end
