(* ===== verification/Session_Loop.thy ===== *)
theory Session_Loop
  imports Session
begin

text \<open>
  The main loop of a connection (\<^verbatim>\<open>Connection::start\<close> in \<^verbatim>\<open>src/server/connection.rs\<close>) from the moment it is
  authorised: what the peer sends, what the connection manager and the services hand over, the timers
  and the web console, in any order, until one of them ends the loop, and what happens then.

  Every event is handled in an environment of its own (the options and the time of that moment). The
  effects are collected with their cause: \<^const>\<open>True\<close> for what the peer's messages bring about.
\<close>

subsection \<open>Events\<close>

datatype privacy_off = OffSucceeded | OffByPeer | OffUnknown

datatype sess_event =
    Peer message
  | PeerUnparsed
  | PeerError string
  | PeerReset
  | Authorize
  | LocalClose
  | CmErr string
  | LocalChat string
  | SwitchPermission string bool
  | VoiceAnswer bool
  | CloseVoiceCall
  | PrivacyModeState privacy_off string
  | CmResult cm_out
  | WebConsole "int set"
  | VideoOut "nat option" "string option"
  | ServiceOut nat service_msg "string option"
  | FileTick "string option"
  | SecondTick bool
  | DelayTick

subsection \<open>Handlers\<close>

text \<open>A handler tells whether the loop goes on.\<close>

definition go_on :: "('m sst \<Rightarrow> 'm sst \<times> effect list) \<Rightarrow> 'm sst \<Rightarrow> bool \<times> 'm sst \<times> effect list" where
  "go_on f st = (True, f st)"

definition leave :: "('m sst \<Rightarrow> 'm sst \<times> effect list) \<Rightarrow> 'm sst \<Rightarrow> bool \<times> 'm sst \<times> effect list" where
  "leave f st = (False, f st)"

definition close_no_retry :: "sess_env \<Rightarrow> string \<Rightarrow> string \<Rightarrow> bool \<Rightarrow> 'm sst \<Rightarrow> 'm sst \<times> effect list" where
  "close_no_retry env reason what lock = actions [send_close_reason_no_retry reason, on_close env what lock]"

definition on_local_close :: "sess_env \<Rightarrow> 'm sst \<Rightarrow> 'm sst \<times> effect list" where
  "on_local_close env = actions
     [modify_sess (\<lambda>s. s\<lparr>ss_chat_unanswered := False, ss_ft := (ss_ft s)\<lparr>cf_file_transferred := False\<rparr>\<rparr>),
      close_no_retry env [] ''connection manager'' True]"

definition on_reauthorize :: "'m sst \<Rightarrow> bool \<times> 'm sst \<times> effect list" where
  "on_reauthorize st =
     (let s = (fst st)\<lparr>ss_conn := (ss_conn (fst st))\<lparr>cn_primary_auth := Click, cn_require_2fa := False\<rparr>\<rparr>
      in (\<not> cn_port_forward_socket (ss_conn s), (s, snd st), []))"

definition on_cm_result :: "sess_env \<Rightarrow> cm_out \<Rightarrow> 'm sst \<Rightarrow> 'm sst \<times> effect list" where
  "on_cm_result env r st =
     (case relay_cm (se_fa env) r (ss_ft (fst st)) of (c, out) \<Rightarrow> (((fst st)\<lparr>ss_ft := c\<rparr>, snd st), map EfFile out))"

definition send_or_close :: "sess_env \<Rightarrow> string option \<Rightarrow> effect \<Rightarrow> 'm sst \<Rightarrow> bool \<times> 'm sst \<times> effect list" where
  "send_or_close env err e st =
     (case err of None \<Rightarrow> go_on (emit [e]) st | Some what \<Rightarrow> leave (on_close env what False) st)"

definition then_send :: "('m sst \<Rightarrow> 'm sst \<times> effect list) \<Rightarrow> sess_env \<Rightarrow> string option \<Rightarrow> effect \<Rightarrow> 'm sst \<Rightarrow> bool \<times> 'm sst \<times> effect list" where
  "then_send f env err e st =
     (case f st of (st, out) \<Rightarrow> case send_or_close env err e st of (go, st, out') \<Rightarrow> (go, st, out @ out'))"

definition on_video_out :: "sess_env \<Rightarrow> nat option \<Rightarrow> string option \<Rightarrow> 'm sst \<Rightarrow> bool \<times> 'm sst \<times> effect list" where
  "on_video_out env display err =
     then_send (\<lambda>st. (st, case display of Some d \<Rightarrow> if ss_video_ack_required (fst st) then [] else [EfFrameSent d] | None \<Rightarrow> []))
       env err EfSendVideo"

definition handle_cursor_switch_display :: "sess_env \<Rightarrow> int \<Rightarrow> int \<Rightarrow> 'm sst \<Rightarrow> 'm sst \<times> effect list" where
  "handle_cursor_switch_display env x y st =
     (st, if ss_multi_ui_session (fst st) then []
          else case se_cursor_display env x y of
            Some d \<Rightarrow> if ss_display_idx (fst st) \<noteq> d then [EfFollowDisplay d] else []
          | None \<Rightarrow> [])"

fun on_service_out :: "sess_env \<Rightarrow> nat \<Rightarrow> service_msg \<Rightarrow> string option \<Rightarrow> 'm sst \<Rightarrow> bool \<times> 'm sst \<times> effect list" where
  "on_service_out env latency (SmAudioFrame d) err =
     (if latency > 1000 then go_on (emit []) else send_or_close env err (EfSend (SmAudioFrame d)))"
| "on_service_out env latency SmStopService err = leave (close_no_retry env [] ''stop service'' False)"
| "on_service_out env latency SmPeerInfo err = then_send (refresh_video_display (\<lambda>_. None)) env err (EfSend SmPeerInfo)"
| "on_service_out env latency (SmCursorPosition x y) err =
     then_send (desktop env (guarded ss_follow_remote_cursor (handle_cursor_switch_display env x y))) env err (EfSend (SmCursorPosition x y))"
| "on_service_out env latency (SmMultiClipboards cbs) err =
     send_or_close env err (EfSend (case se_single_clipboard env cbs of Some m \<Rightarrow> m | None \<Rightarrow> SmMultiClipboards cbs))"
| "on_service_out env latency SmOther err = send_or_close env err (EfSend SmOther)"

definition on_file_tick :: "sess_env \<Rightarrow> string option \<Rightarrow> 'm sst \<Rightarrow> bool \<times> 'm sst \<times> effect list" where
  "on_file_tick env err st =
     (case err of
        Some e \<Rightarrow> leave (on_close env e False) st
      | None \<Rightarrow>
          (case conn_file_tick (se_fa env) (se_fs env) (ss_ft (fst st)) of
             (c, out) \<Rightarrow> (True, ((fst st)\<lparr>ss_ft := c\<rparr>, snd st), map EfFile out)))"

definition on_second :: "sess_env \<Rightarrow> bool \<Rightarrow> 'm sst \<Rightarrow> bool \<times> 'm sst \<times> effect list" where
  "on_second env quiet_second st =
     (if (case ss_auto_disconnect (fst st) of Some (since, m) \<Rightarrow> (se_instant env - since) div 1000 > m * 60 | None \<Rightarrow> False)
      then leave (close_no_retry env ''Connection failed due to inactivity'' ''auto disconnect'' True) st
      else case remove_log_on_timer quiet_second (cf_remove_log (ss_ft (fst st))) of
        (g, logs) \<Rightarrow> (True, ((fst st)\<lparr>ss_ft := (ss_ft (fst st))\<lparr>cf_remove_log := g\<rparr>\<rparr>, snd st), map (EfFile \<circ> LogToCm) logs))"

definition SEC30 :: nat where "SEC30 = 30000"

definition on_delay_tick :: "sess_env \<Rightarrow> 'm sst \<Rightarrow> bool \<times> 'm sst \<times> effect list" where
  "on_delay_tick env st =
     (if se_instant env - ss_last_recv (fst st) \<ge> SEC30 then leave (on_close env ''Timeout'' True) st
      else go_on (actions
        [guarded (\<lambda>s. ss_last_test_delay s = None \<and> \<not> (cn_port_forward_socket (ss_conn s) \<and> cn_authorized (ss_conn s)))
           (actions [modify_sess (\<lambda>s. s\<lparr>ss_last_test_delay := Some (se_instant env)\<rparr>), \<lambda>st. (st, [EfTestDelay (ss_network_delay (fst st))])]),
         guarded (\<lambda>s. is_authed_remote_conn s \<or> cn_view_camera (ss_conn s))
           (\<lambda>st. (st, case ss_last_test_delay (fst st) of
              Some tm \<Rightarrow> [EfQos (DelayElapsed (se_instant env) (ss_id (fst st)) (se_instant env - tm))] | None \<Rightarrow> []))]) st)"

definition privacy_off_msg :: "privacy_off \<Rightarrow> string \<Rightarrow> effect" where
  "privacy_off_msg p key =
     EfPrivacyMsg (case p of OffSucceeded \<Rightarrow> PrvOffSucceeded | OffByPeer \<Rightarrow> PrvOffByPeer | OffUnknown \<Rightarrow> PrvOffUnknown) [] key"

definition received :: "sess_env \<Rightarrow> 'm sst \<Rightarrow> 'm sst" where
  "received env st = ((fst st)\<lparr>ss_last_recv := se_instant env\<rparr>, snd st)"

text \<open>
  A forwarded port leaves the loop once no delay test is outstanding: what follows on the stream are
  forwarded bytes.
\<close>

definition on_peer_message :: "sess_env \<Rightarrow> message \<Rightarrow> 'm sst \<Rightarrow> (bool \<times> 'm sst \<times> effect list) rust" where
  "on_peer_message env msg st =
     rust_bind (on_session_message env msg (received env st)) (\<lambda>(go, st, out).
       Ret (go \<and> \<not> (cn_port_forward_socket (ss_conn (fst st)) \<and> cn_authorized (ss_conn (fst st)) \<and> ss_last_test_delay (fst st) = None),
            st, out))"

fun on_event :: "sess_env \<Rightarrow> sess_event \<Rightarrow> 'm sst \<Rightarrow> (bool \<times> 'm sst \<times> effect list) rust" where
  "on_event env (Peer msg) st = on_peer_message env msg st"
| "on_event env PeerUnparsed st = Ret (True, received env st, [])"
| "on_event env (PeerError e) st = Ret (leave (on_close env e True) st)"
| "on_event env PeerReset st = Ret (leave (on_close env ''Reset by the peer'' True) st)"
| "on_event env Authorize st = Ret (on_reauthorize st)"
| "on_event env LocalClose st = Ret (leave (on_local_close env) st)"
| "on_event env (CmErr e) st =
     Ret (if e \<noteq> ''expected'' then leave (on_close env (''connection manager error: '' @ e) False) st else go_on (emit []) st)"
| "on_event env (LocalChat text) st =
     Ret (go_on (actions [emit [EfSendChat text], modify_sess (\<lambda>s. s\<lparr>ss_chat_unanswered := False\<rparr>)]) st)"
| "on_event env (SwitchPermission name enabled) st = Ret (go_on (switch_permission env name enabled) st)"
| "on_event env (VoiceAnswer accepted) st = Ret (go_on (handle_voice_call accepted) st)"
| "on_event env CloseVoiceCall st = Ret (go_on (actions [close_voice_call, emit [EfSendVoiceRequest False]]) st)"
| "on_event env (PrivacyModeState p key) st = Ret (go_on (emit [privacy_off_msg p key]) st)"
| "on_event env (CmResult r) st = Ret (go_on (on_cm_result env r) st)"
| "on_event env (WebConsole ids) st =
     Ret (if ss_id (fst st) \<in> ids then leave (close_no_retry env ''Closed manually by web console'' ''web console'' True) st
          else go_on (emit []) st)"
| "on_event env (VideoOut display err) st = Ret (on_video_out env display err st)"
| "on_event env (ServiceOut latency m err) st = Ret (on_service_out env latency m err st)"
| "on_event env (FileTick err) st = Ret (on_file_tick env err st)"
| "on_event env (SecondTick quiet_second) st = Ret (on_second env quiet_second st)"
| "on_event env DelayTick st = Ret (on_delay_tick env st)"

subsection \<open>The loop\<close>

type_synonym 'm loop_state = "'m sst \<times> (bool \<times> effect) list"

definition by_peer :: "sess_event \<Rightarrow> bool" where
  "by_peer e = (case e of Peer _ \<Rightarrow> True | _ \<Rightarrow> False)"

fun sess_step :: "sess_env \<times> sess_event \<Rightarrow> 'm loop_state \<Rightarrow> 'm loop_state rust" where
  "sess_step (env, e) (st, hist) =
     (if \<not> ss_running (fst st) then Ret (st, hist)
      else rust_bind (on_event env e st) (\<lambda>(go, st, out).
        Ret (((fst st)\<lparr>ss_running := go\<rparr>, snd st), hist @ map (Pair (by_peer e)) out)))"

text \<open>
  After the loop: a forwarded port is served until it fails with \<open>pf_err\<close>; then the connection leaves the
  registry, is closed if it was not, and drops what it held.
\<close>

definition port_forward_end :: "sess_env \<Rightarrow> string \<Rightarrow> 'm sst \<Rightarrow> 'm sst \<times> effect list" where
  "port_forward_end env pf_err =
     guarded (\<lambda>s. cn_port_forward_socket (ss_conn s)) (actions
       [modify_sess (\<lambda>s. s\<lparr>ss_conn := (ss_conn s)\<lparr>cn_port_forward_socket := False\<rparr>\<rparr>),
        on_close env pf_err False, emit [EfRemoveSession]])"

definition leave_registry :: "'m sst \<Rightarrow> 'm sst \<times> effect list" where
  "leave_registry st = ((fst st, remove_connection (ss_id (fst st)) (snd st)), [])"

definition drop_authed :: "sess_env \<Rightarrow> 'm sst \<Rightarrow> 'm sst \<times> effect list" where
  "drop_authed env st =
     (st, if is_authed_remote_conn (fst st) \<or> is_authed_view_camera_conn (fst st)
          then [EfEncoder (Remove (ss_id (fst st))), EfQos (Close (se_instant env) (ss_id (fst st)))] else [])"

definition session_end :: "sess_env \<Rightarrow> string \<Rightarrow> 'm sst \<Rightarrow> 'm sst \<times> effect list" where
  "session_end env pf_err = actions
     [\<lambda>st. (st, if se_privacy_on env = Some (ss_id (fst st)) then [EfTurnOffPrivacy] else []),
      emit [EfFrameFetched],
      guarded (\<lambda>s. cn_authorized (ss_conn s)) (emit [EfNewTemporaryPassword]),
      port_forward_end env pf_err,
      emit [EfAuditClose],
      leave_registry,
      on_close env ''End'' True,
      desktop env (actions [\<lambda>st. (st, [EfReleaseKeys (ss_pressed_modifiers (fst st))]), modify_sess (\<lambda>s. s\<lparr>ss_pressed_modifiers := {}\<rparr>)]),
      \<lambda>st. (st, if ss_terminal_user_token (fst st) then [EfTerminalJoin] else []),
      drop_authed env]"

subsection \<open>The first state\<close>

record permissions =
  pm_keyboard :: bool
  pm_clipboard :: bool
  pm_audio :: bool
  pm_file :: bool
  pm_restart :: bool
  pm_recording :: bool
  pm_block_input :: bool
  pm_privacy_mode :: bool

text \<open>What the start of the connection and its login request leave behind besides the state of the login.\<close>

record sess_params =
  sp_primary :: nat
  sp_now :: nat
  sp_video_ack :: bool
  sp_options :: "option_message option"
  sp_prints :: "(string \<times> bytes) list"

definition new_sess :: "int \<Rightarrow> permissions \<Rightarrow> sess_params \<Rightarrow> conn \<Rightarrow> sess" where
  "new_sess i p sp c =
     \<lparr>ss_conn = c, ss_id = i, ss_keyboard = pm_keyboard p, ss_clipboard = pm_clipboard p, ss_audio = pm_audio p, ss_file = pm_file p,
      ss_restart = pm_restart p, ss_recording = pm_recording p, ss_block_input = pm_block_input p, ss_privacy_mode = pm_privacy_mode p,
      ss_disable_keyboard = False, ss_disable_clipboard = False, ss_disable_audio = False, ss_show_remote_cursor = False,
      ss_show_my_cursor = False, ss_lock_after_session_end = False, ss_follow_remote_cursor = False, ss_follow_remote_window = False,
      ss_multi_ui_session = False, ss_display_idx = sp_primary sp, ss_voice_call_request_timestamp = None, ss_voice_calling = False,
      ss_audio_sender = False, ss_pressed_modifiers = {}, ss_terminal_persistent = False, ss_terminal_user_token = cn_terminal c,
      ss_scope_violation_messages = {}, ss_chat_unanswered = False, ss_closed = False, ss_services_subed = False,
      ss_last_test_delay = None, ss_network_delay = 0, ss_options_in_login = sp_options sp,
      ss_ft = new_conn_ft i (lr_version (cn_lr c)) (cn_file_transfer c \<noteq> None) (sp_prints sp),
      ss_last_recv = sp_now sp, ss_auto_disconnect = None, ss_video_ack_required = sp_video_ack sp, ss_running = True\<rparr>"

text \<open>The loop with the start of the session before it and its end after it.\<close>

definition session_start :: "sess_env \<Rightarrow> bool \<Rightarrow> (string \<Rightarrow> bool) \<Rightarrow> 'm sst \<Rightarrow> 'm loop_state" where
  "session_start env displays_ok is_dir st =
     (case after_logon env displays_ok is_dir st of (st, out) \<Rightarrow> (st, map (Pair True) out))"

end
