(* ===== verification/Session_Safety.thy ===== *)
theory Session_Safety
  imports Session_Loop
begin

text \<open>
  What holds of every session: the effects of the peer's messages stay within the scope the
  connection was authorised for, and its subscriptions follow the permissions of the moment.

  The actions of the session are reasoned about by weakest preconditions (\<open>wp\<close>); an action that
  restores an invariant and has only permitted effects \<open>keeps\<close> it, and so does a sequence of them.
\<close>

subsection \<open>Weakest preconditions of actions\<close>

definition wp :: "(effect \<Rightarrow> bool) \<Rightarrow> ('m sst \<Rightarrow> 'm sst \<times> effect list) \<Rightarrow> ('m sst \<Rightarrow> bool) \<Rightarrow> 'm sst \<Rightarrow> bool" where
  "wp P f Q st \<longleftrightarrow> Q (fst (f st)) \<and> list_all P (snd (f st))"

definition keeps :: "('m sst \<Rightarrow> bool) \<Rightarrow> (effect \<Rightarrow> bool) \<Rightarrow> ('m sst \<Rightarrow> 'm sst \<times> effect list) \<Rightarrow> bool" where
  "keeps I P f \<longleftrightarrow> (\<forall>st. I st \<longrightarrow> wp P f I st)"

named_theorems wp_simps
named_theorems keeps_intros

lemma keepsI: "(\<And>s sr. I (s, sr) \<Longrightarrow> wp P f I (s, sr)) \<Longrightarrow> keeps I P f"
  by (simp add: keeps_def)

lemma keepsD: "keeps I P f \<Longrightarrow> I st \<Longrightarrow> f st = (st', out) \<Longrightarrow> I st' \<and> list_all P out"
  unfolding keeps_def wp_def by (metis fst_conv snd_conv)

lemma wp_actions [wp_simps]:
  "wp P (actions []) Q = Q"
  "wp P (actions (f # fs)) Q st = wp P f (wp P (actions fs) Q) st"
  by (auto simp: wp_def fun_eq_iff split: prod.splits)

lemma wp_emit [wp_simps]: "wp P (emit es) Q st = (Q st \<and> list_all P es)"
  by (simp add: wp_def emit_def)

lemma wp_pure: "wp P (\<lambda>st. (st, f st)) Q st = (Q st \<and> list_all P (f st))"
  by (simp add: wp_def)

lemma wp_modify [wp_simps]: "wp P (modify_sess f) Q st = Q (f (fst st), snd st)"
  by (simp add: wp_def modify_sess_def)

lemma wp_sub [wp_simps]:
  "wp P (sub_service name g) Q st =
     (Q (fst st, subscribe name (ss_id (fst st)) (g (fst st)) (snd st)) \<and> P (EfSubscribe name (g (fst st))))"
  by (simp add: wp_def sub_service_def)

lemma wp_guarded [wp_simps]: "wp P (guarded b f) Q st = (if b (fst st) then wp P f Q st else Q st)"
  by (simp add: wp_def guarded_def)

lemma wp_desktop [wp_simps]: "wp P (desktop env f) Q st = (if se_target env = Linux then wp P f Q st else Q st)"
  by (simp add: wp_def desktop_def emit_def)

lemma keeps_actions [keeps_intros]: "list_all (keeps I P) fs \<Longrightarrow> keeps I P (actions fs)"
proof (induction fs)
  case (Cons f fs)
  then have "keeps I P (actions fs)" and "keeps I P f" by simp_all
  moreover have "wp P f Q st \<Longrightarrow> (\<And>st'. Q st' \<Longrightarrow> R st') \<Longrightarrow> wp P f R st" for Q R :: "'a sst \<Rightarrow> bool" and st
    by (auto simp: wp_def)
  ultimately show ?case unfolding keeps_def wp_actions by meson
qed (simp add: keeps_def wp_simps)

lemma keeps_pure [keeps_intros]: "(\<And>st. I st \<Longrightarrow> list_all P (f st)) \<Longrightarrow> keeps I P (\<lambda>st. (st, f st))"
  by (simp add: keeps_def wp_pure)

lemma keeps_emit [keeps_intros]: "list_all P es \<Longrightarrow> keeps I P (emit es)"
  by (simp add: keeps_def wp_simps)

lemma keeps_guarded [keeps_intros]: "(\<And>st. I st \<Longrightarrow> b (fst st) \<Longrightarrow> wp P f I st) \<Longrightarrow> keeps I P (guarded b f)"
  by (simp add: keeps_def wp_simps)

lemma keeps_desktop [keeps_intros]: "keeps I P f \<Longrightarrow> keeps I P (desktop env f)"
  by (simp add: keeps_def wp_simps)

lemma keeps_with_bool [keeps_intros]: "(\<And>b. v \<noteq> 0 \<Longrightarrow> keeps I P (f b)) \<Longrightarrow> keeps I P (with_bool v f)"
  by (auto simp: keeps_def wp_def with_bool_def bool_option_of_def split: option.splits bool_option.splits)

lemma with_bool_0 [simp]: "with_bool 0 f = emit []"
  by (rule ext) (simp add: with_bool_def bool_option_of_def emit_def)

subsection \<open>Scopes and their effects\<close>

fun housekeeping_effect :: "effect \<Rightarrow> bool" where
  "housekeeping_effect (EfEcho t) = True"
| "housekeeping_effect (EfQos (NetworkDelay now lin i d)) = True"
| "housekeeping_effect (EfAlarm t m) = True"
| "housekeeping_effect (EfCloseReason r) = True"
| "housekeeping_effect (EfClosed r d) = True"
| "housekeeping_effect EfRemoveSession = True"
| "housekeeping_effect (EfVoiceDevice on) = (\<not> on)"
| "housekeeping_effect _ = False"

fun remote_effect :: "effect \<Rightarrow> bool" where
  "remote_effect (EfTerminal a) = False"
| "remote_effect (EfTerminalInit sid p) = False"
| "remote_effect (EfFile x) = print_out {} x"
| "remote_effect (EfRefresh d) = (case d of Some (src, _) \<Rightarrow> src = Monitor | None \<Rightarrow> True)"
| "remote_effect (EfScreenshot src d sid) = (src = Monitor)"
| "remote_effect (EfDisplayChanged src d) = (src = Monitor)"
| "remote_effect _ = True"

fun camera_effect :: "effect \<Rightarrow> bool" where
  "camera_effect (EfQos q) = True"
| "camera_effect (EfEncoder u) = True"
| "camera_effect (EfRefresh d) = (case d of Some (src, _) \<Rightarrow> src = Camera | None \<Rightarrow> True)"
| "camera_effect (EfScreenshot src d sid) = (src = Camera)"
| "camera_effect (EfDisplayChanged src d) = (src = Camera)"
| "camera_effect EfFrameFetched = True"
| "camera_effect (EfSubscribe name on) = (name = NAME_AUDIO \<or> prefix (service_name_prefix Camera) name)"
| "camera_effect (EfAudioStart r c) = True"
| "camera_effect (EfAudioFrame d) = True"
| "camera_effect EfVoiceIncoming = True"
| "camera_effect EfVoiceClosed = True"
| "camera_effect (EfChat t) = True"
| "camera_effect (EfPermission n on) = (n = ''keyboard'' \<and> \<not> on)"
| "camera_effect _ = False"

fun terminal_effect :: "effect \<Rightarrow> bool" where
  "terminal_effect (EfTerminal a) = True"
| "terminal_effect (EfTerminalInit sid p) = True"
| "terminal_effect (EfTerminalPersistence sid p) = True"
| "terminal_effect (EfChat t) = True"
| "terminal_effect _ = False"

fun file_effect :: "effect \<Rightarrow> bool" where
  "file_effect (EfFile x) = True"
| "file_effect _ = False"

definition permitted_effect :: "auth_conn_type \<Rightarrow> effect \<Rightarrow> bool" where
  "permitted_effect t e \<longleftrightarrow> housekeeping_effect e \<or>
     (case t of Remote \<Rightarrow> remote_effect e | FileTransferConn \<Rightarrow> file_effect e | PortForwardConn \<Rightarrow> False
      | ViewCameraConn \<Rightarrow> camera_effect e | TerminalConn \<Rightarrow> terminal_effect e)"

text \<open>The state of a session that was authorised for \<open>t\<close>.\<close>

definition session_scoped :: "auth_conn_type \<Rightarrow> sess \<Rightarrow> bool" where
  "session_scoped t s \<longleftrightarrow> cn_authorized (ss_conn s) \<and> cn_auth_type (ss_conn s) = Some t
     \<and> (ss_closed s \<or> auth_type_of (ss_conn s) = t)
     \<and> cf_file_transfer (ss_ft s) = (cn_file_transfer (ss_conn s) \<noteq> None)
     \<and> (ss_terminal_user_token s \<longrightarrow> cn_terminal (ss_conn s)) \<and> \<not> (cn_view_camera (ss_conn s) \<and> cn_terminal (ss_conn s))
     \<and> (t \<noteq> Remote \<longrightarrow> \<not> ss_lock_after_session_end s \<and> \<not> ss_follow_remote_window s \<and> \<not> ss_show_my_cursor s)"

definition open_scoped :: "auth_conn_type \<Rightarrow> sess \<Rightarrow> bool" where
  "open_scoped t s \<longleftrightarrow> session_scoped t s \<and> \<not> ss_closed s"

lemma video_source_scoped:
  "open_scoped Remote s \<Longrightarrow> video_source s = Monitor"
  "open_scoped ViewCameraConn s \<Longrightarrow> video_source s = Camera"
  by (auto simp: open_scoped_def session_scoped_def video_source_def auth_type_of_def split: if_split_asm)

lemma authed_scoped:
  "session_scoped t s \<Longrightarrow> authed_conn_type s = Some t"
  "session_scoped t s \<Longrightarrow> is_authed_view_camera_conn s = (t = ViewCameraConn)"
  "session_scoped t s \<Longrightarrow> is_authed_remote_conn s = (t = Remote)"
  by (simp_all add: session_scoped_def authed_conn_type_def is_authed_view_camera_conn_def is_authed_remote_conn_def)

subsection \<open>File requests\<close>

lemma handle_send_action_scoped:
  assumes "handle_send_action env fs i ty path k hidden c = (c', out)"
  shows "cf_file_transfer c' = cf_file_transfer c" and "job_type_of_i32 ty = Printer \<Longrightarrow> list_all (print_out {}) out"
proof -
  show "cf_file_transfer c' = cf_file_transfer c"
    using assms by (auto simp: handle_send_action_def create_and_start_read_job_def process_new_read_job_def Let_def
        split: job_type.splits if_split_asm sum.splits option.splits prod.splits)
  show "list_all (print_out {}) out" if "job_type_of_i32 ty = Printer"
    using assms that by (auto simp: handle_send_action_def create_and_start_read_job_def process_new_read_job_def Let_def
        new_read_def default_job_def post_file_audit_def print_msg_def split: if_split_asm sum.splits option.splits prod.splits)
qed

lemma dispatch_file_transfer:
  assumes "dispatch_file_action env fs fa c = Ret (fs', c', out)"
  shows "cf_file_transfer c' = cf_file_transfer c"
proof (cases fa)
  case (FaSend i ty path k hidden)
  then show ?thesis using assms by (auto dest: handle_send_action_scoped(1))
next
  case (FaSendConfirm r)
  then show ?thesis using assms by (auto simp: handle_confirm_action_def rust_bind_Ret split: option.splits)
next
  case (FaCancel i)
  then show ?thesis using assms by (auto simp: handle_cancel_action_def split: prod.splits option.splits)
qed (use assms in auto)

lemma handle_file_action_scoped:
  assumes "handle_file_action env fs fa c = Ret (fs', c', out)"
  shows "cf_file_transfer c' = cf_file_transfer c \<and> (\<not> cf_file_transfer c \<longrightarrow> list_all (print_out {}) out)"
proof (cases "(cf_file_transfer c \<or> is_printer_send fa) \<and> cf_delayed_read_dir c = None \<and> \<not> (fv_one_way env = ''Y'' \<and> one_way_job_id fa \<noteq> None)")
  case True
  then have d: "dispatch_file_action env fs fa c = Ret (fs', c', out)" using assms by (auto simp: handle_file_action_def)
  have "list_all (print_out {}) out" if "\<not> cf_file_transfer c"
  proof -
    from True that obtain i ty path k hidden where fa: "fa = FaSend i ty path k hidden" "job_type_of_i32 ty = Printer"
      by (cases fa) (auto simp: is_printer_send_def)
    from d fa(1) have "handle_send_action env fs i ty path k hidden c = (c', out)" by auto
    from handle_send_action_scoped(2) [OF this fa(2)] show ?thesis .
  qed
  with dispatch_file_transfer [OF d] show ?thesis by simp
next
  case False
  then show ?thesis using assms
    by (auto simp: handle_file_action_def print_msg_def split: if_split_asm file_action.splits)
qed

lemma handle_file_response_scoped: "list_all (print_out {}) (handle_file_response fr)"
  by (cases fr) simp_all

subsection \<open>Options of a narrow scope\<close>

text \<open>The filters leave only a few fields; with the others unset, the update is a short sequence.\<close>

definition narrow_option :: "option_message \<Rightarrow> bool" where
  "narrow_option o1 \<longleftrightarrow> om_lock_after_session_end o1 = 0 \<and> om_show_remote_cursor o1 = 0 \<and> om_privacy_mode o1 = 0
     \<and> om_block_input o1 = 0 \<and> om_disable_clipboard o1 = 0 \<and> om_disable_keyboard o1 = 0 \<and> om_follow_remote_cursor o1 = 0
     \<and> om_follow_remote_window o1 = 0 \<and> om_show_my_cursor o1 = 0"

definition terminal_option :: "option_message \<Rightarrow> bool" where
  "terminal_option o1 \<longleftrightarrow> narrow_option o1 \<and> om_image_quality o1 = 0 \<and> om_custom_image_quality o1 = 0 \<and> om_custom_fps o1 = 0
     \<and> om_supported_decoding o1 = None \<and> om_disable_audio o1 = 0"

lemma scoped_options:
  "fst (scoped_terminal_login_option o1) = Some o2 \<Longrightarrow> terminal_option o2"
  "fst (scoped_view_camera_option o1) = Some o2 \<Longrightarrow> narrow_option o2 \<and> om_terminal_persistent o2 = 0"
  by (auto simp: scoped_terminal_login_option_def scoped_view_camera_option_def terminal_option_def narrow_option_def
      option_message_new_def Let_def split: if_split_asm)

lemma update_narrow_options:
  assumes "narrow_option o1"
  shows "update_options env o1 = actions
     [option_image_quality env o1,
      \<lambda>st. (st, if om_custom_fps o1 > 0 then [EfQos (CustomFps (ss_id (fst st)) (nat (om_custom_fps o1)))] else []),
      \<lambda>st. (st, case om_supported_decoding o1 of Some q \<Rightarrow> [EfEncoder (Update (ss_id (fst st)) q)] | None \<Rightarrow> []),
      with_bool (om_disable_audio o1) (\<lambda>b. actions [modify_sess (\<lambda>s. s\<lparr>ss_disable_audio := b\<rparr>), sub_audio]),
      desktop env (with_bool (om_terminal_persistent o1) (\<lambda>b. actions
        [modify_sess (\<lambda>s. s\<lparr>ss_terminal_persistent := b\<rparr>),
         \<lambda>st. (st, [EfTerminalPersistence (cn_terminal_service_id (ss_conn (fst st))) b])]))]"
  using assms
  by (intro ext) (simp add: update_options_def narrow_option_def option_block_input_def option_show_my_cursor_def bool_option_of_def
      desktop_def guarded_def emit_def split: prod.splits)

subsection \<open>Every message stays in its scope\<close>

abbreviation in_scope :: "auth_conn_type \<Rightarrow> 'm sst \<Rightarrow> bool" where
  "in_scope t st \<equiv> open_scoped t (fst st)"

lemma permitted_simps [simp]:
  "housekeeping_effect e \<Longrightarrow> permitted_effect t e"
  "permitted_effect Remote e = (housekeeping_effect e \<or> remote_effect e)"
  "permitted_effect FileTransferConn e = (housekeeping_effect e \<or> file_effect e)"
  "permitted_effect ViewCameraConn e = (housekeeping_effect e \<or> camera_effect e)"
  "permitted_effect TerminalConn e = (housekeeping_effect e \<or> terminal_effect e)"
  by (simp_all add: permitted_effect_def)

lemma scoped_update [simp]:
  "open_scoped t (s\<lparr>ss_disable_audio := b\<rparr>) = open_scoped t s"
  "open_scoped t (s\<lparr>ss_disable_clipboard := b\<rparr>) = open_scoped t s"
  "open_scoped t (s\<lparr>ss_disable_keyboard := b\<rparr>) = open_scoped t s"
  "open_scoped t (s\<lparr>ss_terminal_persistent := b\<rparr>) = open_scoped t s"
  "open_scoped t (s\<lparr>ss_show_remote_cursor := b\<rparr>) = open_scoped t s"
  "open_scoped t (s\<lparr>ss_follow_remote_cursor := b\<rparr>) = open_scoped t s"
  "open_scoped t (s\<lparr>ss_keyboard := b\<rparr>) = open_scoped t s"
  "open_scoped t (s\<lparr>ss_clipboard := b\<rparr>) = open_scoped t s"
  "open_scoped t (s\<lparr>ss_audio := b\<rparr>) = open_scoped t s"
  "open_scoped t (s\<lparr>ss_file := b\<rparr>) = open_scoped t s"
  "open_scoped t (s\<lparr>ss_restart := b\<rparr>) = open_scoped t s"
  "open_scoped t (s\<lparr>ss_recording := b\<rparr>) = open_scoped t s"
  "open_scoped t (s\<lparr>ss_block_input := b\<rparr>) = open_scoped t s"
  "open_scoped t (s\<lparr>ss_privacy_mode := b\<rparr>) = open_scoped t s"
  "open_scoped t (s\<lparr>ss_display_idx := d\<rparr>) = open_scoped t s"
  "open_scoped t (s\<lparr>ss_multi_ui_session := b\<rparr>) = open_scoped t s"
  "open_scoped t (s\<lparr>ss_voice_calling := b\<rparr>) = open_scoped t s"
  "open_scoped t (s\<lparr>ss_voice_call_request_timestamp := ts\<rparr>) = open_scoped t s"
  "open_scoped t (s\<lparr>ss_audio_sender := b\<rparr>) = open_scoped t s"
  "open_scoped t (s\<lparr>ss_pressed_modifiers := ks\<rparr>) = open_scoped t s"
  "open_scoped t (s\<lparr>ss_scope_violation_messages := ms\<rparr>) = open_scoped t s"
  "open_scoped t (s\<lparr>ss_chat_unanswered := b\<rparr>) = open_scoped t s"
  "open_scoped t (s\<lparr>ss_services_subed := b\<rparr>) = open_scoped t s"
  "open_scoped t (s\<lparr>ss_last_test_delay := l, ss_network_delay := d\<rparr>) = open_scoped t s"
  "open_scoped t (s\<lparr>ss_options_in_login := o1\<rparr>) = open_scoped t s"
  "open_scoped t (s\<lparr>ss_last_test_delay := l\<rparr>) = open_scoped t s"
  "open_scoped t (s\<lparr>ss_last_recv := d\<rparr>) = open_scoped t s"
  "open_scoped t (s\<lparr>ss_auto_disconnect := ad\<rparr>) = open_scoped t s"
  "open_scoped t (s\<lparr>ss_running := b\<rparr>) = open_scoped t s"
  by (simp_all add: open_scoped_def session_scoped_def)

lemma timer_scoped [simp]: "open_scoped t (update_auto_disconnect_timer env s) = open_scoped t s"
  by (simp add: update_auto_disconnect_timer_def)

lemma authed_open:
  "open_scoped t s \<Longrightarrow> authed_conn_type s = Some t"
  "open_scoped t s \<Longrightarrow> is_authed_view_camera_conn s = (t = ViewCameraConn)"
  "open_scoped t s \<Longrightarrow> is_authed_remote_conn s = (t = Remote)"
  "open_scoped t s \<Longrightarrow> t \<noteq> Remote \<Longrightarrow> \<not> ss_follow_remote_window s"
  "open_scoped t s \<Longrightarrow> cn_authorized (ss_conn s) \<and> \<not> ss_closed s"
  by (simp_all add: open_scoped_def authed_scoped) (simp_all add: session_scoped_def)

lemma token_open: "open_scoped Remote s \<Longrightarrow> \<not> ss_terminal_user_token s"
  by (auto simp: open_scoped_def session_scoped_def auth_type_of_def split: if_split_asm)

lemma image_quality_scope: "t = Remote \<or> t = ViewCameraConn \<Longrightarrow> keeps (in_scope t) (permitted_effect t) (option_image_quality env o1)"
  by (auto simp: keeps_def wp_def option_image_quality_def Let_def split: option.splits)

lemma privacy_scope:
  "list_all (permitted_effect Remote) (turn_on_privacy env key s)" "list_all (permitted_effect Remote) (turn_off_privacy env key)"
  "list_all (permitted_effect Remote) (toggle_privacy_mode env key on s)"
  by (auto simp: turn_on_privacy_def turn_off_privacy_def toggle_privacy_mode_def turn_off_privacy_result_to_msg_def
      split: option.splits sum.splits bool.splits)

lemma sub_audio_scope: "t = Remote \<or> t = ViewCameraConn \<Longrightarrow> keeps (in_scope t) (permitted_effect t) sub_audio"
  unfolding sub_audio_def by (rule keepsI) (auto simp: wp_simps)

lemma update_options_remote: "keeps (in_scope Remote) (permitted_effect Remote) (update_options env o1)"
proof -
  have lock: "open_scoped Remote s \<Longrightarrow> open_scoped Remote (s\<lparr>ss_lock_after_session_end := b\<rparr>)"
    and follow: "open_scoped Remote s \<Longrightarrow> open_scoped Remote (s\<lparr>ss_follow_remote_window := b\<rparr>)"
    and mine: "open_scoped Remote s \<Longrightarrow> open_scoped Remote (s\<lparr>ss_show_my_cursor := b\<rparr>)" for s b
    by (auto simp: open_scoped_def session_scoped_def)
  note here = wp_simps wp_pure lock follow mine
  show ?thesis
    unfolding update_options_def
  proof (rule keeps_actions, unfold list.pred_inject, intro conjI)
    show "list_all (keeps (in_scope Remote) (permitted_effect Remote)) []" by simp
    show "keeps (in_scope Remote) (permitted_effect Remote) (option_image_quality env o1)" by (simp add: image_quality_scope)
    show "keeps (in_scope Remote) (permitted_effect Remote) (option_block_input o1)"
      by (rule keepsI) (simp add: wp_def option_block_input_def split: option.splits)
    show "keeps (in_scope Remote) (permitted_effect Remote) (desktop env (option_show_my_cursor env o1))"
      unfolding option_show_my_cursor_def by (intro keeps_desktop keeps_with_bool; rule keepsI) (simp add: here)
    show "keeps (in_scope Remote) (permitted_effect Remote)
       (guarded (\<lambda>s. get_version_number (lr_version (cn_lr (ss_conn s))) < get_version_number ''1.2.4'' \<and> ss_keyboard s)
        (with_bool (om_privacy_mode o1) (\<lambda>b st. (st, if b then turn_on_privacy env [] (fst st) else turn_off_privacy env []))))"
      by (rule keeps_guarded) (auto simp: wp_def with_bool_def privacy_scope split: option.splits bool_option.splits)
    show "keeps (in_scope Remote) (permitted_effect Remote)
       (with_bool (om_disable_audio o1) (\<lambda>b. actions [modify_sess (\<lambda>s. s\<lparr>ss_disable_audio := b\<rparr>), sub_audio]))"
      by (rule keeps_with_bool, rule keepsI) (auto simp: here sub_audio_def)
  qed (rule keeps_pure keeps_with_bool keeps_desktop keepsI, (rule keeps_with_bool keepsI)?, (rule keepsI)?, simp add: here split: option.splits)+
qed

lemma update_options_camera:
  assumes "narrow_option o1" and "om_terminal_persistent o1 = 0"
  shows "keeps (in_scope ViewCameraConn) (permitted_effect ViewCameraConn) (update_options env o1)"
  unfolding update_narrow_options [OF assms(1)]
proof (rule keeps_actions, unfold list.pred_inject, intro conjI)
  show "list_all (keeps (in_scope ViewCameraConn) (permitted_effect ViewCameraConn)) []" by simp
qed (use assms(2) in \<open>auto simp: image_quality_scope wp_simps sub_audio_def split: option.splits
       intro!: keeps_pure keeps_with_bool keeps_desktop keeps_emit keepsI [where f = "actions xs" for xs]\<close>)

lemma update_options_terminal:
  assumes "terminal_option o1"
  shows "keeps (in_scope TerminalConn) (permitted_effect TerminalConn) (update_options env o1)"
proof -
  have n: "narrow_option o1" using assms by (simp add: terminal_option_def)
  show ?thesis
    unfolding update_narrow_options [OF n]
  proof (rule keeps_actions, unfold list.pred_inject, intro conjI)
    show "list_all (keeps (in_scope TerminalConn) (permitted_effect TerminalConn)) []" by simp
    show "keeps (in_scope TerminalConn) (permitted_effect TerminalConn) (option_image_quality env o1)"
      using assms by (auto simp: keeps_def wp_def option_image_quality_def terminal_option_def image_quality_of_def)
  qed (use assms in \<open>auto simp: terminal_option_def wp_simps wp_pure
       intro!: keeps_pure keeps_with_bool keeps_desktop keeps_emit keepsI [where f = "actions xs" for xs]\<close>)
qed

lemma keeps_wp: "keeps I P f \<Longrightarrow> I st \<Longrightarrow> wp P f I st"
  unfolding keeps_def by blast

lemma refresh_scope:
  assumes "t = Remote \<or> t = ViewCameraConn"
  shows "keeps (in_scope t) (permitted_effect t) (refresh_video_display d)"
  using assms by (auto simp: keeps_def wp_def refresh_video_display_def Let_def video_source_scoped split: option.splits)

lemma camera_prefix: "prefix (service_name_prefix Camera) (get_service_name Camera d)"
  by (simp add: get_service_name_def)

lemma switch_display_scope:
  assumes "t = Remote \<or> t = ViewCameraConn"
  shows "keeps (in_scope t) (permitted_effect t) (switch_display_to env d)"
  using assms by (auto simp: keeps_def wp_def switch_display_to_def sub_service_def guarded_def modify_sess_def Let_def
      video_source_scoped camera_prefix)

lemma display_changed_scope:
  assumes "t = Remote \<or> t = ViewCameraConn" and "open_scoped t s"
  shows "list_all (permitted_effect t) (display_changed env d s)"
  using assms by (auto simp: display_changed_def video_source_scoped)

lemma change_resolution_scope: "list_all (permitted_effect Remote) (change_resolution env d w h s)"
  by (simp add: change_resolution_def Let_def)

lemma camera_conn: "open_scoped ViewCameraConn s \<Longrightarrow> cn_view_camera (ss_conn s)"
  by (auto simp: open_scoped_def session_scoped_def auth_type_of_def split: if_split_asm)

lemma guarded_resolution_scope:
  assumes "t = Remote \<or> t = ViewCameraConn"
  shows "keeps (in_scope t) (permitted_effect t)
    (guarded (\<lambda>s. \<not> cn_view_camera (ss_conn s) \<and> b) (\<lambda>st. (st, change_resolution env d w h (fst st))))"
  using assms camera_conn by (auto simp: keeps_def wp_simps wp_pure change_resolution_scope)

lemma display_changed_keeps:
  assumes "t = Remote \<or> t = ViewCameraConn"
  shows "keeps (in_scope t) (permitted_effect t) (\<lambda>st. (st, display_changed env (d (fst st)) (fst st)))"
  by (rule keeps_pure) (use display_changed_scope [OF assms] in blast)

lemma handle_switch_display_scope:
  assumes t: "t = Remote \<or> t = ViewCameraConn"
  shows "keeps (in_scope t) (permitted_effect t) (handle_switch_display env d w h)"
  unfolding handle_switch_display_def Let_def
  by (rule keeps_guarded, rule keeps_wp [rotated], assumption, rule keeps_actions)
    (simp only: list.pred_inject keeps_desktop switch_display_scope [OF t] guarded_resolution_scope [OF t] display_changed_keeps [OF t] simp_thms)

lemma capture_displays_scope:
  assumes "t = Remote \<or> t = ViewCameraConn"
  shows "keeps (in_scope t) (permitted_effect t) (capture_displays a b c)"
  using assms authed_open(4) by (auto simp: keeps_def wp_def capture_displays_def Let_def guarded_def sub_service_def split: prod.splits)

lemma close_voice_call_scope:
  assumes "t = Remote \<or> t = ViewCameraConn"
  shows "keeps (in_scope t) (permitted_effect t) close_voice_call"
  unfolding close_voice_call_def using assms by (intro keepsI) (auto simp: wp_simps)

lemma timer_keeps: "keeps (in_scope t) P (modify_sess (update_auto_disconnect_timer env))"
  by (simp add: keeps_def wp_simps)

lemma keeps_timed:
  assumes "keeps I P f" and "keeps I P g" shows "keeps I P (guarded b (actions [f, g]))"
  by (rule keeps_guarded, rule keeps_wp [OF keeps_actions]) (simp_all add: assms)

lemma refresh_timed:
  assumes "t = Remote \<or> t = ViewCameraConn"
  shows "keeps (in_scope t) (permitted_effect t) (on_misc env (RefreshVideo r))"
    and "keeps (in_scope t) (permitted_effect t) (on_misc env (RefreshVideoDisplay d))"
  using refresh_scope [OF assms] by (auto intro!: keeps_timed timer_keeps keeps_emit)

lemma on_misc_remote: "keeps (in_scope Remote) (permitted_effect Remote) (on_misc env m)"
proof (cases m)
  case (OptionMsg o1)
  then show ?thesis using update_options_remote [of env o1] by (simp add: keeps_def wp_def authed_open)
next
  case (MessageQuery d)
  then show ?thesis by (simp add: keeps_pure display_changed_scope)
next
  case (RefreshVideo r)
  then show ?thesis by (simp add: refresh_timed del: on_misc.simps)
next
  case (RefreshVideoDisplay d)
  then show ?thesis by (simp add: refresh_timed del: on_misc.simps)
qed (auto simp: handle_switch_display_scope capture_displays_scope privacy_scope change_resolution_scope
       wp_simps wp_pure keeps_desktop keeps_pure keeps_emit
     intro!: keeps_guarded keeps_desktop keepsI [where f = "actions xs" for xs])

lemma on_misc_camera:
  assumes "is_view_camera_scoped_misc m"
  shows "keeps (in_scope ViewCameraConn) (permitted_effect ViewCameraConn) (on_misc env m)"
proof (cases m)
  case (OptionMsg o1)
  have "keeps (in_scope ViewCameraConn) (permitted_effect ViewCameraConn) (update_options env o2)"
    if "fst (scoped_view_camera_option o1) = Some o2" for o2
    using scoped_options(2) [OF that] update_options_camera by blast
  with OptionMsg show ?thesis
    by (auto simp: keeps_def wp_def authed_open scoped_update_option_message_def split: option.splits)
next
  case (MessageQuery d)
  then show ?thesis by (simp add: keeps_pure display_changed_scope)
next
  case (TogglePrivacyMode key on)
  then show ?thesis using camera_conn by (auto simp: keeps_def wp_simps)
next
  case (ChangeResolution w h)
  then show ?thesis using camera_conn by (auto simp: keeps_def wp_simps)
next
  case (ChangeDisplayResolution d w h)
  then show ?thesis using camera_conn by (auto simp: keeps_def wp_simps)
next
  case (RefreshVideo r)
  then show ?thesis by (simp add: refresh_timed del: on_misc.simps)
next
  case (RefreshVideoDisplay d)
  then show ?thesis by (simp add: refresh_timed del: on_misc.simps)
qed (use assms in \<open>auto simp: handle_switch_display_scope capture_displays_scope
       wp_simps wp_pure keeps_pure keeps_emit intro!: keeps_guarded keepsI [where f = "actions xs" for xs]\<close>)

lemma render_compat_idle:
  assumes "is_render_broadcast_noop_compat_message msg" and "in_scope t st" and "t = FileTransferConn \<or> t = TerminalConn"
  shows "on_plain_message env msg st = (st, [])"
proof -
  have r: "\<not> should_handle_render_broadcast_message (fst st)"
    using assms(2,3) by (auto simp: should_handle_render_broadcast_message_def authed_open(1))
  have o: "scoped_update_option_message (Some t) o1 = None" if "is_supported_decoding_only_option o1" for o1
    using assms(3) that by (auto simp: scoped_update_option_message_def scoped_terminal_login_option_def is_supported_decoding_only_option_def
        option_has_any_field_def option_has_non_terminal_login_field_def option_message_new_def is_bool_option_not_set_def
        bool_option_of_def image_quality_of_def Let_def split: if_split_asm)
  show ?thesis using assms r authed_open(1) [OF assms(2)]
    by (cases msg rule: is_render_broadcast_noop_compat_message.cases) (auto simp: guarded_def o)
qed

lemma clipboard_compat_idle:
  assumes "is_text_clipboard_noop_compat_message msg" and "in_scope t st" and "t \<noteq> Remote"
  shows "on_plain_message env msg st = (st, [])"
  using assms by (cases msg) (simp_all add: guarded_def should_handle_text_clipboard_message_def authed_open(1))

lemma on_plain_remote: "keeps (in_scope Remote) (permitted_effect Remote) (on_plain_message env msg)"
proof (cases msg)
  case (MKey k)
  then show ?thesis
    by (auto simp: on_key_event_def track_modifier_def keeps_def wp_simps wp_pure split: target.splits option.splits)
next
  case (MMouse k x y)
  then show ?thesis by (auto simp: on_mouse_event_def mouse_effects_def keeps_def wp_simps wp_pure split: target.splits)
next
  case (MPointer p)
  then show ?thesis by (auto simp: on_pointer_event_def pointer_effects_def keeps_def wp_simps wp_pure split: target.splits touch.splits)
next
  case (MFileResponse fr)
  then show ?thesis using handle_file_response_scoped [of fr] by (auto simp: keeps_def wp_simps list_all_iff)
next
  case (MScreenshotRequest d sid)
  then show ?thesis by (simp add: keeps_actions refresh_scope keeps_pure video_source_scoped)
qed (auto simp: on_misc_remote close_voice_call_scope wp_simps wp_pure keeps_emit token_open
     intro!: keeps_guarded keeps_desktop keepsI [where f = "actions xs" for xs])

lemma on_plain_camera:
  assumes "is_view_camera_scoped_message msg"
  shows "keeps (in_scope ViewCameraConn) (permitted_effect ViewCameraConn) (on_plain_message env msg)"
proof (cases msg)
  case (MScreenshotRequest d sid)
  then show ?thesis by (simp add: keeps_actions refresh_scope keeps_pure video_source_scoped)
qed (use assms in \<open>auto simp: on_misc_camera close_voice_call_scope wp_simps wp_pure keeps_emit authed_open
     intro!: keeps_guarded keeps_desktop keepsI [where f = "actions xs" for xs]\<close>)

lemma on_plain_terminal:
  assumes "is_terminal_scoped_message msg"
  shows "keeps (in_scope TerminalConn) (permitted_effect TerminalConn) (on_plain_message env msg)"
proof (cases msg)
  case (MMisc m)
  show ?thesis
  proof (cases m)
    case (OptionMsg o1)
    have "keeps (in_scope TerminalConn) (permitted_effect TerminalConn) (update_options env o2)"
      if "fst (scoped_terminal_login_option o1) = Some o2" for o2
      using scoped_options(1) [OF that] update_options_terminal by blast
    with MMisc OptionMsg show ?thesis
      by (auto simp: keeps_def wp_def authed_open scoped_update_option_message_def split: option.splits)
  qed (use assms MMisc in \<open>auto simp: wp_simps intro!: keepsI\<close>)
qed (use assms in \<open>auto simp: wp_simps intro!: keeps_guarded keeps_desktop\<close>)

lemma on_plain_file:
  assumes "is_file_transfer_scoped_message msg"
  shows "keeps (in_scope FileTransferConn) (permitted_effect FileTransferConn) (on_plain_message env msg)"
  using assms by (cases msg) (auto simp: keeps_emit list_all_iff)

lemma keeps_idle: "(\<And>st. I st \<Longrightarrow> f st = (st, [])) \<Longrightarrow> keeps I P f"
  by (rule keepsI) (simp add: wp_def)

lemma on_plain_scope:
  assumes "authorized_message_scope_violation t msg = None" and "\<not> is_connection_housekeeping_message msg"
    and "t \<noteq> PortForwardConn"
  shows "keeps (in_scope t) (permitted_effect t) (on_plain_message env msg)"
proof (cases "t \<noteq> Remote \<and> (is_render_broadcast_noop_compat_message msg \<and> t \<noteq> ViewCameraConn \<or> is_text_clipboard_noop_compat_message msg)")
  case True
  show ?thesis
    by (rule keeps_idle, use True assms(3) in \<open>cases t\<close>) (auto dest: render_compat_idle clipboard_compat_idle)
next
  case False
  then show ?thesis using assms
    by (cases t) (auto simp: authorized_message_scope_violation_def on_plain_remote on_plain_file on_plain_camera on_plain_terminal
        split: if_split_asm)
qed

lemma on_close_scope:
  assumes "session_scoped t (fst st)"
  shows "wp (permitted_effect t) (on_close env reason lock) (\<lambda>st. session_scoped t (fst st)) st"
  using assms by (cases t) (auto simp: on_close_def wp_simps wp_pure session_scoped_def)

text \<open>The outcome of a message: within the scope, and not closed if the session goes on.\<close>

definition outcome_ok :: "auth_conn_type \<Rightarrow> bool \<times> 'm sst \<times> effect list \<Rightarrow> bool" where
  "outcome_ok t r \<longleftrightarrow> (case r of (go, st, out) \<Rightarrow>
     session_scoped t (fst st) \<and> (go \<longrightarrow> \<not> ss_closed (fst st)) \<and> list_all (permitted_effect t) out)"

lemma scope_violation_scope:
  assumes "in_scope t st"
  shows "outcome_ok t (handle_authorized_scope_violation env m st)"
proof -
  let ?Q = "\<lambda>st. session_scoped t (fst st) \<and> (se_close env \<or> \<not> ss_closed (fst st))"
  define alarm where "alarm = (if m \<notin> ss_scope_violation_messages (fst st) \<and> se_alarm env then [EfAlarm (auth_type_name (authed_conn_type (fst st))) m] else [])"
  define f :: "'a sst \<Rightarrow> 'a sst \<times> effect list" where
    "f = actions [modify_sess (\<lambda>s. s\<lparr>ss_scope_violation_messages := insert m (ss_scope_violation_messages s)\<rparr>), emit alarm,
           guarded (\<lambda>_. se_close env) (actions [send_close_reason_no_retry ''Connection not allowed'', on_close env ''Session scope violation'' True])]"
  have "session_scoped t (fst st)" "\<not> ss_closed (fst st)" using assms by (simp_all add: open_scoped_def)
  then have "session_scoped t ((fst st)\<lparr>ss_scope_violation_messages := ms\<rparr>)" for ms by (simp add: session_scoped_def)
  then have "wp (permitted_effect t) f ?Q st"
    using \<open>\<not> ss_closed (fst st)\<close> by (auto simp: f_def alarm_def send_close_reason_no_retry_def wp_simps on_close_scope)
  moreover have "handle_authorized_scope_violation env m st = (\<not> se_close env, f st)"
    by (simp only: handle_authorized_scope_violation_def Let_def alarm_def f_def)
  ultimately show ?thesis by (auto simp: outcome_ok_def wp_def split: prod.splits)
qed

lemma on_file_action_scope:
  assumes "in_scope t st" and "t = Remote \<or> t = FileTransferConn" and "on_file_action env fa st = Ret (st', out)"
  shows "in_scope t st' \<and> list_all (permitted_effect t) out"
proof (cases fa)
  case None
  then show ?thesis using assms by (simp add: on_file_action_def)
next
  case (Some f)
  with assms(3) obtain fs c os where h: "handle_file_action (se_fa env) (se_fs env) f (ss_ft (fst st)) = Ret (fs, c, os)"
    and st': "st' = ((fst st)\<lparr>ss_ft := c\<rparr>, snd st)" "out = map EfFile os"
    by (auto simp: on_file_action_def rust_bind_Ret)
  have "cf_file_transfer (ss_ft (fst st)) = (t = FileTransferConn)"
    using assms(1,2) by (auto simp: open_scoped_def session_scoped_def auth_type_of_def split: if_split_asm)
  with handle_file_action_scoped [OF h] assms(1,2) show ?thesis
    by (auto simp: st' open_scoped_def session_scoped_def list_all_iff)
qed

lemma on_test_delay_scope:
  assumes "in_scope t st" and "on_test_delay env tm from_client st = (st', out)"
  shows "in_scope t st' \<and> list_all (permitted_effect t) out"
  using assms by (auto simp: on_test_delay_def open_scoped_def session_scoped_def Let_def split: if_split_asm option.splits)

lemma port_forward_open: "in_scope PortForwardConn st \<Longrightarrow> cn_port_forward_socket (ss_conn (fst st))"
  by (auto simp: open_scoped_def session_scoped_def auth_type_of_def split: if_split_asm)

lemma file_action_scope:
  "authorized_message_scope_violation t (MFileAction fa) = None \<Longrightarrow> t = Remote \<or> t = FileTransferConn"
  by (cases t) (auto simp: authorized_message_scope_violation_def)

lemma open_outcome: "in_scope t st \<Longrightarrow> list_all (permitted_effect t) out \<Longrightarrow> outcome_ok t (go, st, out)"
  by (simp add: outcome_ok_def open_scoped_def)

lemma peer_close_scope:
  assumes "in_scope t st"
  shows "outcome_ok t (False, actions [on_close env reason lock, emit [EfRemoveSession]] st)"
proof -
  have "wp (permitted_effect t) (actions [on_close env reason lock, emit [EfRemoveSession]]) (\<lambda>st. session_scoped t (fst st)) st"
    using on_close_scope [of t st env reason lock] assms by (simp add: wp_simps) (simp add: wp_def emit_def open_scoped_def)
  then show ?thesis by (auto simp: wp_def outcome_ok_def split: prod.splits)
qed

text \<open>The ways a message can be handled by an authorised session.\<close>

lemma other_message:
  assumes "\<not> is_connection_housekeeping_message msg" and "authed_conn_type (fst st) = Some t" and "cn_authorized (ss_conn (fst st))"
  shows "on_session_message env msg st =
    (case authorized_message_scope_violation t msg of
       Some m \<Rightarrow> Ret (handle_authorized_scope_violation env m st)
     | None \<Rightarrow>
         if cn_port_forward_socket (ss_conn (fst st)) then Ret (True, st, [])
         else case msg of MFileAction fa \<Rightarrow> rust_bind (on_file_action env fa st) (\<lambda>r. Ret (True, r))
           | _ \<Rightarrow> Ret (True, on_plain_message env msg st))"
  using assms by (cases msg rule: is_connection_housekeeping_message.cases)
    (simp_all only: on_session_message_def authorized_scope_violation_def message.case misc.case option.case if_True if_False simp_thms
      is_connection_housekeeping_message.simps)

lemma message_cases:
  assumes a: "authed_conn_type (fst st) = Some t" "cn_authorized (ss_conn (fst st))" and r: "on_session_message env msg st = Ret res"
  obtains (close) rs where "msg = MMisc (CloseReason rs)" "res = (False, actions [on_close env ''Peer close'' True, emit [EfRemoveSession]] st)"
    | (idle) "res = (True, st, [])"
    | (delay) tm b where "msg = MTestDelay tm b" "res = (True, on_test_delay env tm b st)"
    | (violation) m where "res = handle_authorized_scope_violation env m st"
    | (file_action) fa st' out where "authorized_message_scope_violation t (MFileAction fa) = None" "on_file_action env fa st = Ret (st', out)"
        "res = (True, st', out)"
    | (plain) "authorized_message_scope_violation t msg = None" "\<not> is_connection_housekeeping_message msg"
        "\<not> cn_port_forward_socket (ss_conn (fst st))" "res = (True, on_plain_message env msg st)"
proof (cases "is_connection_housekeeping_message msg")
  case True
  then show thesis using r a close idle delay
    by (cases msg rule: is_connection_housekeeping_message.cases)
      (auto simp: on_session_message_def authorized_scope_violation_def authorized_message_scope_violation_def simp del: actions.simps)
next
  case False
  note eq = other_message [OF False a, of env]
  show thesis
  proof (cases "authorized_message_scope_violation t msg")
    case (Some m)
    then show thesis using r violation [of m] by (simp add: eq)
  next
    case None
    consider "cn_port_forward_socket (ss_conn (fst st))" | fa where "\<not> cn_port_forward_socket (ss_conn (fst st))" "msg = MFileAction fa"
      | "\<not> cn_port_forward_socket (ss_conn (fst st))" "\<nexists>fa. msg = MFileAction fa" by blast
    then show thesis
    proof cases
      case 1
      then show thesis using r None idle by (simp add: eq)
    next
      case 2
      then have "rust_bind (on_file_action env fa st) (\<lambda>r. Ret (True, r)) = Ret res" using r None eq by simp
      then obtain st' out where "on_file_action env fa st = Ret (st', out)" "res = (True, st', out)" by (auto simp: rust_bind_Ret)
      then show thesis using file_action None 2(2) by blast
    next
      case 3
      then have "on_session_message env msg st = Ret (True, on_plain_message env msg st)"
        using None by (simp add: eq split: message.split del: on_plain_message.simps)
      then show thesis using plain None False 3(1) r by simp
    qed
  qed
qed

lemma on_session_message_scope:
  assumes st: "in_scope t st" and r: "on_session_message env msg st = Ret res"
  shows "outcome_ok t res"
  using authed_open(1) [OF st] authed_open(5) [OF st, THEN conjunct1] r
proof (cases rule: message_cases)
  case close
  then show ?thesis using peer_close_scope [OF st] by simp
next
  case idle
  then show ?thesis using open_outcome [OF st] by simp
next
  case (delay tm b)
  obtain st' out where d: "on_test_delay env tm b st = (st', out)" by (cases "on_test_delay env tm b st")
  from on_test_delay_scope [OF st d] show ?thesis by (simp add: delay(2) d open_outcome)
next
  case violation
  then show ?thesis using scope_violation_scope [OF st] by simp
next
  case (file_action fa st' out)
  from on_file_action_scope [OF st file_action_scope [OF file_action(1)] file_action(2)] show ?thesis
    by (simp add: file_action(3) open_outcome)
next
  case plain
  have "t \<noteq> PortForwardConn" using port_forward_open st plain(3) by blast
  obtain st' out where d: "on_plain_message env msg st = (st', out)" by (cases "on_plain_message env msg st")
  from keepsD [OF on_plain_scope [OF plain(1,2) \<open>t \<noteq> PortForwardConn\<close>] st d] show ?thesis by (simp add: plain(4) d open_outcome)
qed

subsection \<open>From the login to the end of the session\<close>

lemma login_options_scope: "keeps (in_scope t) (permitted_effect t) (update_scoped_login_options env)"
proof (rule keepsI)
  fix s and sr :: "'a server"
  assume s: "in_scope t (s, sr)"
  define s1 where "s1 = s\<lparr>ss_options_in_login := None\<rparr>"
  have s1: "in_scope t (s1, sr)" "authed_conn_type s1 = Some t" using s by (simp_all add: s1_def authed_open)
  have "wp (permitted_effect t) (update_options env o2) (in_scope t) (s1, sr)" if "fst (scoped_login_option t o1) = Some o2" for o1 o2
    using that s1(1) by (cases t)
      (auto simp: scoped_login_option_def keeps_wp [OF update_options_remote] dest: scoped_options
        intro: keeps_wp [OF update_options_terminal] keeps_wp [OF update_options_camera])
  then show "wp (permitted_effect t) (update_scoped_login_options env) (in_scope t) (s, sr)"
    using s s1 by (auto simp: wp_def update_scoped_login_options_def s1_def [symmetric] Let_def split: option.splits)
qed

lemma terminal_id_scope: "ss_conn s = k \<Longrightarrow> open_scoped t (s\<lparr>ss_conn := k\<lparr>cn_terminal_service_id := i\<rparr>\<rparr>) = open_scoped t s"
  by (auto simp: open_scoped_def session_scoped_def auth_type_of_def)

lemma start_services_scope:
  assumes "t \<noteq> PortForwardConn" and "in_scope t st"
  shows "wp (permitted_effect t) (start_services env ok is_dir) (in_scope t) st"
proof -
  obtain s sr where st: "st = (s, sr)" by (cases st)
  have c: "t = auth_type_of (ss_conn s)" and n: "\<not> (cn_view_camera (ss_conn s) \<and> cn_terminal (ss_conn s))"
    using assms(2) by (auto simp: st open_scoped_def session_scoped_def)
  show ?thesis
  proof (cases "cn_file_transfer (ss_conn s)")
    case None
    consider "cn_terminal (ss_conn s)" "t = TerminalConn" | "\<not> cn_terminal (ss_conn s)" "cn_view_camera (ss_conn s)" "t = ViewCameraConn"
      | "\<not> cn_terminal (ss_conn s)" "\<not> cn_view_camera (ss_conn s)" "t = Remote"
      using c n None assms(1) by (auto simp: auth_type_of_def st split: if_split_asm)
    then show ?thesis
    proof cases
      case 1
      have "wp (permitted_effect t) (actions [modify_sess (\<lambda>s. s\<lparr>ss_keyboard := False\<rparr>), desktop env (init_terminal_service env)]) (in_scope t) st"
        using assms(2) 1 by (auto simp: st wp_simps wp_pure init_terminal_service_def terminal_id_scope)
      then show ?thesis using 1 None by (simp add: wp_def start_services_def st del: actions.simps)
    next
      case 2
      then show ?thesis using assms(2) None
        by (simp add: wp_def start_services_def st try_sub_camera_displays_def emit_def modify_sess_def)
    next
      case 3
      then show ?thesis using assms(2) None by (simp add: wp_def start_services_def st try_sub_monitor_services_def)
    qed
  next
    case (Some a)
    then show ?thesis using assms(2) c
      by (cases a) (simp add: wp_def start_services_def st emit_def modify_sess_def auth_type_of_def)
  qed
qed

lemma list_all_True [simp]: "list_all (\<lambda>_. True) xs"
  by (simp add: list_all_iff)

lemma switch_privacy_scope: "keeps (in_scope t) (\<lambda>_. True) (switch_privacy env enabled)"
  by (rule keepsI) (simp add: wp_def switch_privacy_def Let_def emit_def modify_sess_def)

lemma switch_permission_scope: "keeps (in_scope t) (\<lambda>_. True) (switch_permission env name enabled)"
  unfolding switch_permission_def
  by (rule keepsI) (auto simp: wp_simps sub_audio_def keeps_wp [OF switch_privacy_scope])

lemma handle_voice_call_scope: "keeps (in_scope t) (\<lambda>_. True) (handle_voice_call accepted)"
  by (rule keepsI) (auto simp: wp_def handle_voice_call_def modify_sess_def emit_def guarded_def sub_service_def split: option.splits)

lemma after_logon_scope:
  assumes "in_scope t st" and "after_logon env ok is_dir st = (st', out)"
  shows "in_scope t st' \<and> list_all (permitted_effect t) out"
proof (cases "cn_port_forward_socket (ss_conn (fst st))")
  case True
  then show ?thesis using assms by (auto simp: after_logon_def)
next
  case False
  then have "t \<noteq> PortForwardConn" using port_forward_open assms(1) by blast
  then have "keeps (in_scope t) (permitted_effect t) (actions [update_scoped_login_options env, start_services env ok is_dir])"
    by (intro keeps_actions) (simp add: login_options_scope, simp add: start_services_scope keeps_def)
  from keepsD [OF this assms(1), of st' out] show ?thesis using assms(2) False by (simp add: after_logon_def)
qed

text \<open>What the other events of the loop do keeps the scope as well.\<close>

definition stays :: "auth_conn_type \<Rightarrow> bool \<times> 'm sst \<times> effect list \<Rightarrow> bool" where
  "stays t r \<longleftrightarrow> (case r of (go, st, out) \<Rightarrow> session_scoped t (fst st) \<and> (go \<longrightarrow> \<not> ss_closed (fst st)))"

lemma stays_go: "keeps (in_scope t) P f \<Longrightarrow> in_scope t st \<Longrightarrow> stays t (go_on f st)"
  using keepsD [of "in_scope t" P f st] by (cases "f st") (auto simp: stays_def go_on_def open_scoped_def)

lemma stays_leave: "wp P f (\<lambda>st. session_scoped t (fst st)) st \<Longrightarrow> stays t (leave f st)"
  by (auto simp: stays_def leave_def wp_def split: prod.splits)

lemma emit_stays: "in_scope t st \<Longrightarrow> stays t (go_on (emit es) st)"
  by (simp add: stays_def go_on_def emit_def open_scoped_def)

lemma on_close_stays: "in_scope t st \<Longrightarrow> stays t (leave (on_close env reason lock) st)"
  by (rule stays_leave, rule on_close_scope) (simp add: open_scoped_def)

lemma close_no_retry_stays:
  assumes "in_scope t st" shows "stays t (leave (close_no_retry env reason what lock) st)"
  using on_close_scope [of t st env what lock] assms
  by (auto intro!: stays_leave [where P = "permitted_effect t"] simp: close_no_retry_def send_close_reason_no_retry_def wp_simps open_scoped_def)

lemma send_or_close_stays: "in_scope t st \<Longrightarrow> stays t (send_or_close env err e st)"
  using on_close_stays [of t st env _ False] stays_go [OF keeps_emit, of "\<lambda>_. True" "[e]" t st]
  by (auto simp: send_or_close_def split: option.splits)

lemma then_send_stays: "keeps (in_scope t) P f \<Longrightarrow> in_scope t st \<Longrightarrow> stays t (then_send f env err e st)"
  by (cases "f st", drule keepsD, assumption, assumption, cases "send_or_close env err e (fst (f st))")
    (use send_or_close_stays [of t "fst (f st)" env err e] in \<open>simp add: then_send_def stays_def\<close>)

lemma relay_cm_file_transfer: "relay_cm env r c = (c', out) \<Longrightarrow> cf_file_transfer c' = cf_file_transfer c"
  by (cases r) (auto simp: handle_read_job_init_result_def handle_file_read_done_def handle_file_read_error_def
      split: if_split_asm sum.splits)

lemma file_state_scope: "cf_file_transfer c = cf_file_transfer (ss_ft s) \<Longrightarrow> open_scoped t (s\<lparr>ss_ft := c\<rparr>) = open_scoped t s"
  by (simp add: open_scoped_def session_scoped_def)

lemma service_out_stays:
  assumes "in_scope t st" shows "stays t (on_service_out env latency m err st)"
proof (cases m)
  case SmPeerInfo
  have "keeps (in_scope t) (\<lambda>_. True) (refresh_video_display (\<lambda>_. None))"
    by (simp add: keeps_def wp_def refresh_video_display_def)
  from then_send_stays [OF this assms] show ?thesis by (simp add: SmPeerInfo)
next
  case (SmCursorPosition x y)
  have "keeps (in_scope t) (\<lambda>_. True) (desktop env (guarded ss_follow_remote_cursor (handle_cursor_switch_display env x y)))"
    by (simp add: keeps_def wp_simps) (simp add: wp_def handle_cursor_switch_display_def)
  from then_send_stays [OF this assms] show ?thesis by (simp add: SmCursorPosition)
qed (use assms in \<open>auto simp: send_or_close_stays close_no_retry_stays emit_stays\<close>)

lemma on_second_stays:
  assumes "in_scope t st" shows "stays t (on_second env q st)"
proof -
  have "stays t (True, ((fst st)\<lparr>ss_ft := (ss_ft (fst st))\<lparr>cf_remove_log := g\<rparr>\<rparr>, snd st), out)" for g out
    using assms by (auto simp: stays_def open_scoped_def session_scoped_def)
  then show ?thesis using close_no_retry_stays [OF assms] by (auto simp: on_second_def split: prod.splits option.splits)
qed

lemma on_delay_tick_stays: "in_scope t st \<Longrightarrow> stays t (on_delay_tick env st)"
  by (auto simp: on_delay_tick_def on_close_stays intro!: stays_go [where P = "\<lambda>_. True"] keepsI
      simp: wp_simps wp_pure split: option.splits)

lemma on_file_tick_stays:
  assumes "in_scope t st" shows "stays t (on_file_tick env err st)"
proof -
  obtain c out where c: "conn_file_tick (se_fa env) (se_fs env) (ss_ft (fst st)) = (c, out)" by (cases "conn_file_tick (se_fa env) (se_fs env) (ss_ft (fst st))")
  then have "cf_file_transfer c = cf_file_transfer (ss_ft (fst st))" by (auto simp: conn_file_tick_def split: if_split_asm prod.splits)
  then have "in_scope t ((fst st)\<lparr>ss_ft := c\<rparr>, snd st)" using assms by (simp add: file_state_scope)
  then show ?thesis using on_close_stays [OF assms] c by (auto simp: on_file_tick_def stays_def open_scoped_def split: option.splits)
qed

lemma on_cm_result_scope: "keeps (in_scope t) (\<lambda>_. True) (on_cm_result env r)"
  by (auto simp: keeps_def wp_def on_cm_result_def file_state_scope dest: relay_cm_file_transfer split: prod.splits)

lemma on_local_close_stays:
  assumes "in_scope t st" shows "stays t (leave (on_local_close env) st)"
proof -
  let ?st = "((fst st)\<lparr>ss_chat_unanswered := False, ss_ft := (ss_ft (fst st))\<lparr>cf_file_transferred := False\<rparr>\<rparr>, snd st)"
  have "in_scope t ?st" using assms by (simp add: file_state_scope)
  from close_no_retry_stays [OF this, of env "[]" "''connection manager''" True] show ?thesis
    by (simp add: stays_def leave_def on_local_close_def modify_sess_def split: prod.splits)
qed

lemma on_reauthorize_stays: "in_scope t st \<Longrightarrow> stays t (on_reauthorize st)"
  by (auto simp: on_reauthorize_def stays_def open_scoped_def session_scoped_def auth_type_of_def Let_def split: if_split_asm)

lemma on_video_out_stays: "in_scope t st \<Longrightarrow> stays t (on_video_out env d err st)"
  unfolding on_video_out_def by (rule then_send_stays [where P = "\<lambda>_. True"]) (simp_all add: keeps_def wp_def)

lemma close_voice_call_open: "keeps (in_scope t) (\<lambda>_. True) (actions [close_voice_call, emit es])"
  unfolding close_voice_call_def by (rule keepsI) (auto simp: wp_simps)

lemma on_event_stays:
  assumes "in_scope t st" and "\<not> by_peer e"
  shows "\<exists>r. on_event env e st = Ret r \<and> stays t r"
proof (cases e)
  case PeerUnparsed
  then show ?thesis using assms(1) by (auto simp: stays_def received_def open_scoped_def session_scoped_def)
next
  case (LocalChat words)
  then show ?thesis using assms(1) by (auto intro!: stays_go [where P = "\<lambda>_. True"] keepsI simp: wp_simps)
next
  case (WebConsole ids)
  then show ?thesis using assms(1) by (auto simp: close_no_retry_stays emit_stays)
next
  case (CmErr x)
  then show ?thesis using assms(1) by (auto simp: on_close_stays emit_stays)
qed (use assms in \<open>auto simp: by_peer_def on_close_stays on_reauthorize_stays on_local_close_stays on_video_out_stays service_out_stays
      on_file_tick_stays on_second_stays on_delay_tick_stays emit_stays
      intro: stays_go [OF switch_permission_scope] stays_go [OF handle_voice_call_scope] stays_go [OF close_voice_call_open]
        stays_go [OF on_cm_result_scope]\<close>)

subsection \<open>Whole sessions\<close>

definition loop_ok :: "auth_conn_type \<Rightarrow> 'm loop_state \<Rightarrow> bool" where
  "loop_ok t x \<longleftrightarrow> (case x of (st, hist) \<Rightarrow> session_scoped t (fst st) \<and> (ss_running (fst st) \<longrightarrow> \<not> ss_closed (fst st))
     \<and> list_all (\<lambda>(p, e). p \<longrightarrow> permitted_effect t e) hist)"

lemma on_event_outcome:
  assumes "in_scope t st" and "on_event env e st = Ret (go, st', out)"
  shows "stays t (go, st', out) \<and> (by_peer e \<longrightarrow> list_all (permitted_effect t) out)"
proof (cases "by_peer e")
  case True
  then obtain msg where e: "e = Peer msg" by (auto simp: by_peer_def split: sess_event.splits)
  have "in_scope t (received env st)" using assms(1) by (simp add: received_def)
  from on_session_message_scope [OF this, of env msg] assms(2) show ?thesis
    by (auto simp: e on_peer_message_def rust_bind_Ret outcome_ok_def stays_def)
next
  case False
  then show ?thesis using on_event_stays [OF assms(1) False, of env] assms(2) by auto
qed

lemma running_scoped [simp]: "session_scoped t (s\<lparr>ss_running := b\<rparr>) = session_scoped t s"
  by (simp add: session_scoped_def)

lemma sess_step_scope:
  assumes "loop_ok t x" and "sess_step (env, e) x = Ret x'"
  shows "loop_ok t x'"
proof -
  obtain st hist where x: "x = (st, hist)" by (cases x)
  show ?thesis
  proof (cases "ss_running (fst st)")
    case True
    then have st: "in_scope t st" using assms(1) by (simp add: x loop_ok_def open_scoped_def)
    obtain res where "on_event env e st = Ret res" using assms(2) True by (cases "on_event env e st") (simp_all add: x)
    then obtain go st1 out where r: "on_event env e st = Ret (go, st1, out)" by (cases res) simp
    then have x': "x' = (((fst st1)\<lparr>ss_running := go\<rparr>, snd st1), hist @ map (Pair (by_peer e)) out)"
      using assms(2) True by (simp add: x)
    from on_event_outcome [OF st r] assms(1) show ?thesis
      by (auto simp: x x' loop_ok_def stays_def list_all_iff)
  qed (use assms in \<open>simp add: x\<close>)
qed

interpretation scoped: step_invariant sess_step "\<lambda>_. True" "loop_ok t" for t
  by unfold_locales (metis sess_step_scope surj_pair)

lemma new_sess_scope:
  assumes "scope_permitted p c" and "cn_authorized c"
  shows "open_scoped (auth_type_of c) (new_sess i pm sp c)"
  using assms by (simp add: open_scoped_def session_scoped_def new_sess_def scope_permitted_def)

lemma session_start_scope:
  assumes "in_scope t st" and "session_start env displays_ok is_dir st = x"
  shows "loop_ok t x"
proof -
  obtain st' out where l: "after_logon env displays_ok is_dir st = (st', out)" by (cases "after_logon env displays_ok is_dir st")
  from after_logon_scope [OF assms(1) l] assms(2) show ?thesis
    by (auto simp: session_start_def l loop_ok_def list_all_iff open_scoped_def)
qed

text \<open>
  C30. The scope of a session isolates it: take any history of login requests, two-factor codes and local consents that
  leaves a connection authorised, start its session, and let its loop handle any events in any order: messages of the peer,
  switches and answers of the local user, messages of the services, results of the connection manager and timers.
  Everything the peer's messages bring about is then within the scope the connection was authorised for, and that scope had
  its permission: only a terminal session reaches the terminal, only a file-transfer session the file system (a desktop
  session sends print jobs and nothing else), a camera session touches no input, clipboard, screen or privacy mode, and a
  forwarded port causes no more than housekeeping.
\<close>

theorem session_scope_isolation:
  assumes "\<forall>(env, ev) \<in> set evs. permission env = p"
    and "login_run evs (new_conn ip salt challenge tfa) sh = (True, c, sh')" and "cn_authorized c"
    and "rust_run sess_step es (session_start env0 displays_ok is_dir (new_sess i pm sp c, sr)) = Ret (st, hist)"
  shows "\<exists>t. cn_auth_type c = Some t \<and> auth_permitted p t \<and> (\<forall>e. (True, e) \<in> set hist \<longrightarrow> permitted_effect t e)"
proof -
  have "scope_permitted p (new_conn ip salt challenge tfa)" by (simp add: scope_permitted_def new_conn_def default_lr_def)
  from login_run_permitted [OF assms(1) this assms(2)] have p: "scope_permitted p c" .
  then have t: "cn_auth_type c = Some (auth_type_of c) \<and> auth_permitted p (auth_type_of c)"
    using assms(3) by (auto simp: scope_permitted_def auth_permitted_def auth_type_of_def)
  have "loop_ok (auth_type_of c) (session_start env0 displays_ok is_dir (new_sess i pm sp c, sr))"
    by (rule session_start_scope [OF _ refl]) (simp add: new_sess_scope [OF p assms(3)])
  from scoped.run_inv [OF _ this assms(4)] t show ?thesis by (force simp: loop_ok_def list_all_iff)
qed

definition demo_sess_env :: "target \<Rightarrow> sess_env" where
  "demo_sess_env tg = \<lparr>se_target = tg, se_fa = demo_fa_env [] True, se_fs = demo_fs, se_one_way_clipboard = [], se_alarm = True,
     se_close = False, se_now_ms = 0, se_instant = 0, se_primary = 0, se_camera = False, se_key_of_code = (\<lambda>c. c),
     se_is_modifier_key = (\<lambda>_. False), se_displays = 1, se_display_changed = (\<lambda>_ _. False), se_whiteboard = False,
     se_new_terminal_id = ''ts'', se_privacy_supported = False, se_privacy_on = None, se_privacy_after = False, se_privacy_key = None,
     se_privacy_current = (\<lambda>_. False), se_turn_on = (\<lambda>_. None), se_turn_off = None, se_privacy_err = [],
     se_allow_auto_disconnect = [], se_auto_disconnect_timeout = [], se_cursor_display = (\<lambda>_ _. None), se_single_clipboard = (\<lambda>_. None)\<rparr>"

definition demo_permissions :: permissions where
  "demo_permissions = \<lparr>pm_keyboard = True, pm_clipboard = True, pm_audio = True, pm_file = True, pm_restart = True,
     pm_recording = True, pm_block_input = True, pm_privacy_mode = True\<rparr>"

definition demo_params :: sess_params where
  "demo_params = \<lparr>sp_primary = 0, sp_now = 0, sp_video_ack = False, sp_options = None, sp_prints = []\<rparr>"

definition demo_events :: "(sess_env \<times> sess_event) list" where
  "demo_events = map (\<lambda>e. (demo_sess_env Linux, e))
     [Peer (MMouse 1 10 10), Peer (MFileAction (Some (FaReadDir ''/tmp'' False))), LocalChat ''hi'', Peer (MTerminalAction [1]),
      Peer (MTestDelay 5 True), PeerReset, Peer (MKey \<lparr>ke_down = True, ke_press = True, ke_union = Chr 1, ke_mode = 0\<rparr>)]"

lemma demo_session_run:
  assumes "cn_authorized c" and "cn_auth_type c = Some FileTransferConn" and "cn_file_transfer c = Some (dir, hidden)"
    and "\<not> cn_port_forward_socket c"
  shows "\<exists>st. rust_run sess_step demo_events
      (session_start (demo_sess_env Linux) True (\<lambda>_. False) (new_sess 1 demo_permissions demo_params c, sr))
    = Ret (st, [(True, EfFile (ToCm (ReadDir [] hidden))), (True, EfAlarm ''file_transfer'' ''mouse_event''),
        (True, EfFile (ToCm (ReadDir ''/tmp'' False))), (False, EfSendChat ''hi''),
        (True, EfAlarm ''file_transfer'' ''terminal_action''), (True, EfEcho 5),
        (False, EfVoiceDevice False), (False, EfClosed ''Reset by the peer'' False)])"
  using assms
  by (simp add: demo_events_def demo_sess_env_def demo_permissions_def demo_params_def demo_fa_env_def session_start_def after_logon_def
      update_scoped_login_options_def new_sess_def start_services_def modify_sess_def emit_def guarded_def on_session_message_def
      authorized_scope_violation_def authed_conn_type_def authorized_message_scope_violation_def handle_authorized_scope_violation_def
      auth_type_name_def on_file_action_def handle_file_action_def one_way_job_id_def on_test_delay_def on_peer_message_def received_def
      go_on_def leave_def on_close_def by_peer_def desktop_def)

theorem session_scope_isolation_witness:
  "permitted_effect FileTransferConn (EfFile (ToCm (ReadDir ''/tmp'' False))) \<and> permitted_effect FileTransferConn (EfAlarm ''file_transfer'' ''terminal_action'')
    \<and> permitted_effect FileTransferConn (EfEcho 5)"
proof -
  let ?c = "new_conn ''10.0.0.7'' (lit ''s'') (lit ''c'') False"
  let ?evs = "[(demo_env, LoginEv demo_lr)]"
  obtain k c sh where r: "login_run ?evs ?c demo_shared = (k, c, sh)" by (cases "login_run ?evs ?c demo_shared")
  have r': "login_run ?evs ?c demo_shared = (True, c, sh)" and a': "cn_authorized c" and t: "cn_auth_type c = Some FileTransferConn"
    and f: "cn_file_transfer c \<noteq> None" and p: "\<not> cn_port_forward_socket c" using r demo_login by simp_all
  from f obtain dir hidden where "cn_file_transfer c = Some (dir, hidden)" by auto
  with demo_session_run [OF a' t this p] obtain st :: "unit sst" and hist where
    run: "rust_run sess_step demo_events
      (session_start (demo_sess_env Linux) True (\<lambda>_. False) (new_sess 1 demo_permissions demo_params c, server_new False 0)) = Ret (st, hist)"
    and h: "{(True, EfFile (ToCm (ReadDir ''/tmp'' False))), (True, EfAlarm ''file_transfer'' ''terminal_action''), (True, EfEcho 5)} \<subseteq> set hist"
    by fastforce
  from session_scope_isolation [OF _ r' a' run, of "permission demo_env"] t h show ?thesis by auto
qed

end
