(* ===== verification/Session_Subscriptions.thy ===== *)
theory Session_Subscriptions
  imports Session_Safety
begin

text \<open>
  The subscriptions of a session: at every moment a connection is subscribed only to the services
  its scope, its permissions and the options of its peer entitle it to, although each handler
  updates only the subscriptions it changes.
\<close>

subsection \<open>The registry elsewhere\<close>

text \<open>Operations for one connection leave the subscriptions of the others alone.\<close>

lemma capture_displays_elsewhere:
  assumes "registry_ok sr" and "j \<noteq> i"
  shows "subed_at n j (capture_displays_at i src ds inc exc sr) = subed_at n j sr"
proof -
  have "registry_ok (foldl (\<lambda>sr name. if is_video_service_name name then
          (if name \<in> set (map (get_service_name src) ds) then (if inc then subscribe name i True sr else sr)
           else if exc then subscribe name i False sr else sr) else sr) sr ks)
      \<and> subed_at n j (foldl (\<lambda>sr name. if is_video_service_name name then
          (if name \<in> set (map (get_service_name src) ds) then (if inc then subscribe name i True sr else sr)
           else if exc then subscribe name i False sr else sr) else sr) sr ks) = subed_at n j sr" for ks
    using assms(1) by (induction ks arbitrary: sr) (simp_all add: registry_subscribe registry.sub_elsewhere assms(2))
  then show ?thesis by (simp add: capture_displays_at_def Let_def)
qed

lemma add_connection_elsewhere:
  assumes "registry_ok sr" and "j \<noteq> i"
  shows "subed_at n j (add_connection primary i noperms sr) = subed_at n j sr"
  using registry_get [OF assms(1), of n] assms(2)
  by (auto simp: add_connection_def Let_def subed_at_def on_services_def hm_get_map is_subed_simps split: option.splits)

lemma add_camera_connection_elsewhere:
  assumes "registry_ok sr" and "j \<noteq> i"
  shows "subed_at n j (add_camera_connection b i sr) = subed_at n j sr"
  using registry_get [OF assms(1), of n] assms(2)
  by (auto simp: add_camera_connection_def Let_def subed_at_def on_services_def hm_get_map is_subed_simps split: option.splits)

subsection \<open>What a session may be subscribed to\<close>

definition entitled :: "string \<Rightarrow> auth_conn_type \<Rightarrow> sess \<Rightarrow> string \<Rightarrow> bool" where
  "entitled one_way t s n \<longleftrightarrow>
     (n = NAME_CLIPBOARD \<longrightarrow> clipboard_enabled s \<and> peer_keyboard_enabled s \<and> one_way \<noteq> ''Y'')
     \<and> (n = NAME_CURSOR \<longrightarrow> ss_keyboard s \<or> ss_show_remote_cursor s)
     \<and> (n = NAME_AUDIO \<longrightarrow> audio_enabled s \<and> (t = ViewCameraConn \<longrightarrow> ss_voice_calling s))
     \<and> (n = NAME_POS \<longrightarrow> t = Remote \<and> ss_show_remote_cursor s)
     \<and> (n = NAME_WINDOW_FOCUS \<longrightarrow> t = Remote \<and> ss_follow_remote_window s)
     \<and> (n \<notin> {NAME_CLIPBOARD, NAME_CURSOR, NAME_AUDIO} \<longrightarrow>
          (if prefix (service_name_prefix Camera) n then t = ViewCameraConn else t = Remote))"

text \<open>What must not change: the id of the connection and the subscriptions of all others.\<close>

datatype rest = Rest (own_id: int) (subed_by: "string \<Rightarrow> int \<Rightarrow> bool")

definition subscriptions_ok :: "string \<Rightarrow> auth_conn_type \<Rightarrow> rest \<Rightarrow> 'm sst \<Rightarrow> bool" where
  "subscriptions_ok one_way t U st \<longleftrightarrow> registry_ok (snd st) \<and> ss_id (fst st) = own_id U
     \<and> (\<forall>n. subed_at n (ss_id (fst st)) (snd st) \<longrightarrow> entitled one_way t (fst st) n)
     \<and> (\<forall>n j. j \<noteq> ss_id (fst st) \<longrightarrow> subed_at n j (snd st) = subed_by U n j)"

abbreviation entitled_open :: "string \<Rightarrow> auth_conn_type \<Rightarrow> rest \<Rightarrow> 'm sst \<Rightarrow> bool" where
  "entitled_open one_way t U st \<equiv> open_scoped t (fst st) \<and> subscriptions_ok one_way t U st"

lemma names_distinct [simp]:
  "distinct [NAME_CLIPBOARD, NAME_CURSOR, NAME_AUDIO, NAME_POS, NAME_WINDOW_FOCUS, NAME_DISPLAY]"
  "\<not> prefix (service_name_prefix Camera) NAME_CLIPBOARD" "\<not> prefix (service_name_prefix Camera) NAME_CURSOR"
  "\<not> prefix (service_name_prefix Camera) NAME_AUDIO" "\<not> prefix (service_name_prefix Camera) NAME_POS"
  "\<not> prefix (service_name_prefix Camera) NAME_WINDOW_FOCUS" "\<not> prefix (service_name_prefix Camera) NAME_DISPLAY"
  by (simp_all add: NAME_CLIPBOARD_def NAME_CURSOR_def NAME_AUDIO_def NAME_POS_def NAME_WINDOW_FOCUS_def NAME_DISPLAY_def
      service_name_prefix_def)

lemma video_not_named:
  "is_video_service_name n \<Longrightarrow> n \<notin> {NAME_CLIPBOARD, NAME_CURSOR, NAME_AUDIO, NAME_POS, NAME_WINDOW_FOCUS}"
  by (auto simp: video_names)

lemma entitled_video: "entitled w t s (get_service_name src d) \<longleftrightarrow> t = (case src of Monitor \<Rightarrow> Remote | Camera \<Rightarrow> ViewCameraConn)"
proof -
  have "prefix (service_name_prefix Camera) (get_service_name Monitor d) = False"
    by (simp add: get_service_name_def service_name_prefix_def)
  then show ?thesis
    using video_not_named [OF video_names(1), of src d] by (cases src) (simp_all add: entitled_def camera_prefix)
qed

text \<open>
  While a handler updates the permissions, the services in \<open>S\<close> still await their update; each
  subscription settles one of them.
\<close>

definition pending :: "string set \<Rightarrow> string \<Rightarrow> auth_conn_type \<Rightarrow> rest \<Rightarrow> 'm sst \<Rightarrow> bool" where
  "pending S one_way t U st \<longleftrightarrow> registry_ok (snd st) \<and> ss_id (fst st) = own_id U
     \<and> (\<forall>n. n \<notin> S \<longrightarrow> subed_at n (ss_id (fst st)) (snd st) \<longrightarrow> entitled one_way t (fst st) n)
     \<and> (\<forall>n j. j \<noteq> ss_id (fst st) \<longrightarrow> subed_at n j (snd st) = subed_by U n j)"

lemma settled: "subscriptions_ok w t U st = pending {} w t U st"
  by (simp add: subscriptions_ok_def pending_def)

lemma pending_sub:
  assumes "pending S w t U (s, sr)" and "S \<subseteq> insert m T" and "b \<Longrightarrow> m \<notin> T \<Longrightarrow> entitled w t s m"
  shows "pending T w t U (s, subscribe m (ss_id s) b sr)"
proof -
  have r: "registry_ok sr" and e: "\<And>n. n \<notin> S \<Longrightarrow> subed_at n (ss_id s) sr \<Longrightarrow> entitled w t s n"
    using assms(1) by (simp_all add: pending_def)
  have "entitled w t s n" if "n \<notin> T" "subed_at n (ss_id s) (subscribe m (ss_id s) b sr)" for n
    by (rule registry.sub_guarded [OF r, of m "ss_id s" "\<lambda>n. n \<notin> T \<longrightarrow> entitled w t s n" b n, rule_format])
      (use assms(2,3) e that in auto)
  with registry.sub_valid [OF r] registry.sub_elsewhere [OF r] assms(1) show ?thesis by (auto simp: pending_def)
qed

lemma pending_modify:
  assumes "subscriptions_ok w t U (s, sr)" and "ss_id s' = ss_id s" and "\<And>n. n \<notin> S \<Longrightarrow> entitled w t s n \<Longrightarrow> entitled w t s' n"
  shows "pending S w t U (s', sr)"
  using assms by (auto simp: subscriptions_ok_def pending_def)

lemmas entitled_defs = entitled_def clipboard_enabled_def peer_keyboard_enabled_def audio_enabled_def

lemma entitled_update [simp]:
  "entitled w t (s\<lparr>ss_terminal_persistent := b\<rparr>) n = entitled w t s n"
  "entitled w t (s\<lparr>ss_follow_remote_cursor := b\<rparr>) n = entitled w t s n"
  "entitled w t (s\<lparr>ss_lock_after_session_end := b\<rparr>) n = entitled w t s n"
  "entitled w t (s\<lparr>ss_show_my_cursor := b\<rparr>) n = entitled w t s n"
  "entitled w t (s\<lparr>ss_file := b\<rparr>) n = entitled w t s n"
  "entitled w t (s\<lparr>ss_restart := b\<rparr>) n = entitled w t s n"
  "entitled w t (s\<lparr>ss_recording := b\<rparr>) n = entitled w t s n"
  "entitled w t (s\<lparr>ss_block_input := b\<rparr>) n = entitled w t s n"
  "entitled w t (s\<lparr>ss_privacy_mode := b\<rparr>) n = entitled w t s n"
  "entitled w t (s\<lparr>ss_display_idx := d\<rparr>) n = entitled w t s n"
  "entitled w t (s\<lparr>ss_multi_ui_session := b\<rparr>) n = entitled w t s n"
  "entitled w t (s\<lparr>ss_voice_call_request_timestamp := ts\<rparr>) n = entitled w t s n"
  "entitled w t (s\<lparr>ss_audio_sender := b\<rparr>) n = entitled w t s n"
  "entitled w t (s\<lparr>ss_pressed_modifiers := ks\<rparr>) n = entitled w t s n"
  "entitled w t (s\<lparr>ss_scope_violation_messages := ms\<rparr>) n = entitled w t s n"
  "entitled w t (s\<lparr>ss_chat_unanswered := b\<rparr>) n = entitled w t s n"
  "entitled w t (s\<lparr>ss_services_subed := b\<rparr>) n = entitled w t s n"
  "entitled w t (s\<lparr>ss_closed := b\<rparr>) n = entitled w t s n"
  "entitled w t (s\<lparr>ss_conn := c\<rparr>) n = entitled w t s n"
  "entitled w t (s\<lparr>ss_ft := ft\<rparr>) n = entitled w t s n"
  "entitled w t (s\<lparr>ss_last_test_delay := l, ss_network_delay := d\<rparr>) n = entitled w t s n"
  "entitled w t (s\<lparr>ss_options_in_login := o1\<rparr>) n = entitled w t s n"
  "entitled w t (s\<lparr>ss_last_test_delay := l\<rparr>) n = entitled w t s n"
  "entitled w t (s\<lparr>ss_last_recv := d\<rparr>) n = entitled w t s n"
  "entitled w t (s\<lparr>ss_running := b\<rparr>) n = entitled w t s n"
  "entitled w t (s\<lparr>ss_auto_disconnect := ad\<rparr>) n = entitled w t s n"
  by (simp_all add: entitled_defs)

lemma subscriptions_same:
  assumes "subscriptions_ok w t U (s, sr)" and "ss_id s' = ss_id s" and "\<And>n. entitled w t s' n = entitled w t s n"
  shows "subscriptions_ok w t U (s', sr)"
  using assms by (simp add: subscriptions_ok_def)

text \<open>An update of the state followed by the subscriptions that depend on it.\<close>

lemma subs_settle:
  assumes "open_scoped t s" and "pending (fst ` set subs) w t U (s, sr)" and "\<forall>(m, g) \<in> set subs. g s \<longrightarrow> entitled w t s m"
  shows "wp (\<lambda>_. True) (actions (map (\<lambda>(m, g). sub_service m g) subs)) (entitled_open w t U) (s, sr)"
  using assms(2,3)
proof (induction subs arbitrary: sr)
  case Nil
  then show ?case using assms(1) by (simp add: wp_simps settled del: actions.simps)
next
  case (Cons x subs)
  obtain m g where x: "x = (m, g)" by (cases x)
  have "pending (fst ` set subs) w t U (s, subscribe m (ss_id s) (g s) sr)"
    using Cons.prems(2) by (intro pending_sub [OF Cons.prems(1)]) (auto simp: x)
  from Cons.IH [OF this] Cons.prems(2) show ?case by (simp add: x wp_simps del: actions.simps)
qed

lemma update_entitled:
  assumes "\<And>s. open_scoped t s \<Longrightarrow> open_scoped t (f s) \<and> ss_id (f s) = ss_id s"
    and "\<And>s n. open_scoped t s \<Longrightarrow> n \<notin> fst ` set subs \<Longrightarrow> entitled w t s n \<Longrightarrow> entitled w t (f s) n"
    and "\<And>s. open_scoped t s \<Longrightarrow> \<forall>(m, g) \<in> set subs. g (f s) \<longrightarrow> entitled w t (f s) m"
  shows "keeps (entitled_open w t U) (\<lambda>_. True) (actions (modify_sess f # emit es # map (\<lambda>(m, g). sub_service m g) subs))"
proof (rule keepsI)
  fix s and sr :: "'c server"
  assume s: "entitled_open w t U (s, sr)"
  then have "pending (fst ` set subs) w t U (f s, sr)" using assms(1,2) by (intro pending_modify [where s = s]) auto
  then have "wp (\<lambda>_. True) (actions (map (\<lambda>(m, g). sub_service m g) subs)) (entitled_open w t U) (f s, sr)"
    using s assms(1,3) by (intro subs_settle) auto
  then show "wp (\<lambda>_. True) (actions (modify_sess f # emit es # map (\<lambda>(m, g). sub_service m g) subs)) (entitled_open w t U) (s, sr)"
    by (simp add: wp_simps del: actions.simps)
qed

lemma actions_no_emit: "actions (f # emit [] # fs) = actions (f # fs)"
  by (rule ext) (simp add: emit_def split: prod.splits)

lemmas update_entitled' = update_entitled [where es = "[]", unfolded actions_no_emit]

subsection \<open>Options\<close>

lemma image_quality_entitled: "keeps (entitled_open w t U) (\<lambda>_. True) (option_image_quality env o1)"
  by (auto simp: keeps_def wp_def option_image_quality_def Let_def split: option.splits)

lemma block_input_entitled: "keeps (entitled_open w t U) (\<lambda>_. True) (option_block_input o1)"
  by (auto simp: keeps_def wp_def option_block_input_def Let_def split: option.splits)

lemma sub_audio_entitled:
  assumes "open_scoped t s" and "pending {NAME_AUDIO} w t U (s, sr)"
    and "t = ViewCameraConn \<Longrightarrow> \<not> ss_voice_calling s \<Longrightarrow> \<not> subed_at NAME_AUDIO (ss_id s) sr"
  shows "wp (\<lambda>_. True) sub_audio (entitled_open w t U) (s, sr)"
proof (cases "\<not> is_authed_view_camera_conn s \<or> ss_voice_calling s \<or> \<not> audio_enabled s")
  case True
  have "pending {} w t U (s, subscribe NAME_AUDIO (ss_id s) (audio_enabled s) sr)"
    by (rule pending_sub [OF assms(2)]) (use True names_distinct(1) assms(1) in \<open>auto simp: entitled_def authed_open\<close>)
  with True assms(1) show ?thesis by (simp add: sub_audio_def wp_simps settled)
next
  case False
  then have "\<not> subed_at NAME_AUDIO (ss_id s) sr" using assms(1,3) by (auto simp: authed_open)
  then have "subscriptions_ok w t U (s, sr)" using assms(2) unfolding pending_def subscriptions_ok_def by (metis empty_iff fst_conv insertE snd_conv)
  with False assms(1) show ?thesis by (simp add: sub_audio_def wp_simps)
qed

lemma disable_audio_entitled:
  "keeps (entitled_open w t U) (\<lambda>_. True) (actions [modify_sess (\<lambda>s. s\<lparr>ss_disable_audio := b\<rparr>), sub_audio])"
proof (rule keepsI)
  fix s and sr :: "'a server"
  assume i: "entitled_open w t U (s, sr)"
  then have "pending {NAME_AUDIO} w t U (s\<lparr>ss_disable_audio := b\<rparr>, sr)"
    by (elim conjE pending_modify) (simp_all add: entitled_defs)
  moreover have "\<not> subed_at NAME_AUDIO (ss_id s) sr" if "t = ViewCameraConn" "\<not> ss_voice_calling s"
    using i that names_distinct(1) by (auto simp: subscriptions_ok_def entitled_def)
  ultimately show "wp (\<lambda>_. True) (actions [modify_sess (\<lambda>s. s\<lparr>ss_disable_audio := b\<rparr>), sub_audio]) (entitled_open w t U) (s, sr)"
    using i sub_audio_entitled [of t "s\<lparr>ss_disable_audio := b\<rparr>" w U sr] by (simp add: wp_simps)
qed

lemma update_entitled_simple:
  assumes "\<And>s. open_scoped t s \<Longrightarrow> open_scoped t (f s) \<and> ss_id (f s) = ss_id s" and "\<And>s n. entitled w t (f s) n = entitled w t s n"
  shows "keeps (entitled_open w t U) (\<lambda>_. True) (modify_sess f)"
  using assms by (auto simp: keeps_def wp_simps intro: subscriptions_same)

lemma follow_entitled:
  "keeps (entitled_open w Remote U) (\<lambda>_. True)
     (actions [modify_sess (\<lambda>s. s\<lparr>ss_follow_remote_window := b\<rparr>), sub_service NAME_WINDOW_FOCUS ss_follow_remote_window])"
  by (rule update_entitled' [of _ _ "[(NAME_WINDOW_FOCUS, ss_follow_remote_window)]", simplified])
    (use names_distinct(1) in \<open>auto simp: entitled_defs open_scoped_def session_scoped_def\<close>)

lemma show_cursor_entitled:
  "keeps (entitled_open w Remote U) (\<lambda>_. True) (actions [modify_sess (\<lambda>s. s\<lparr>ss_show_remote_cursor := b\<rparr>),
     sub_service NAME_CURSOR (\<lambda>s. peer_keyboard_enabled s \<or> ss_show_remote_cursor s), sub_service NAME_POS ss_show_remote_cursor])"
  by (rule update_entitled' [of _ _ "[(NAME_CURSOR, \<lambda>s. peer_keyboard_enabled s \<or> ss_show_remote_cursor s),
        (NAME_POS, ss_show_remote_cursor)]", simplified])
    (use names_distinct(1) in \<open>auto simp: entitled_defs\<close>)

lemma disable_clipboard_entitled:
  assumes "se_one_way_clipboard env = w"
  shows "keeps (entitled_open w t U) (\<lambda>_. True)
    (actions [modify_sess (\<lambda>s. s\<lparr>ss_disable_clipboard := b\<rparr>), sub_service NAME_CLIPBOARD (can_sub_clipboard_service env)])"
  by (rule update_entitled' [of _ _ "[(NAME_CLIPBOARD, can_sub_clipboard_service env)]", simplified])
    (use names_distinct(1) in \<open>auto simp: entitled_defs can_sub_clipboard_service_def assms\<close>)

lemma disable_keyboard_entitled:
  assumes "se_one_way_clipboard env = w"
  shows "keeps (entitled_open w t U) (\<lambda>_. True) (actions [modify_sess (\<lambda>s. s\<lparr>ss_disable_keyboard := b\<rparr>),
     sub_service NAME_CLIPBOARD (can_sub_clipboard_service env),
     sub_service NAME_CURSOR (\<lambda>s. peer_keyboard_enabled s \<or> ss_show_remote_cursor s)])"
  by (rule update_entitled' [of _ _ "[(NAME_CLIPBOARD, can_sub_clipboard_service env),
        (NAME_CURSOR, \<lambda>s. peer_keyboard_enabled s \<or> ss_show_remote_cursor s)]", simplified])
    (use names_distinct(1) in \<open>auto simp: entitled_defs can_sub_clipboard_service_def assms\<close>)

lemma update_options_entitled:
  assumes "se_one_way_clipboard env = w"
  shows "keeps (entitled_open w Remote U) (\<lambda>_. True) (update_options env o1)"
  unfolding update_options_def
proof (rule keeps_actions, unfold list.pred_inject, intro conjI)
  have lock: "open_scoped Remote s \<Longrightarrow> open_scoped Remote (s\<lparr>ss_lock_after_session_end := b\<rparr>)" for s b
    by (auto simp: open_scoped_def session_scoped_def)
  show "list_all (keeps (entitled_open w Remote U) (\<lambda>_. True)) []" by simp
  show "keeps (entitled_open w Remote U) (\<lambda>_. True) (desktop env (option_show_my_cursor env o1))"
    unfolding option_show_my_cursor_def
    by (intro keeps_desktop keeps_with_bool) (auto simp: keeps_def wp_simps open_scoped_def session_scoped_def intro: subscriptions_same)
  show "keeps (entitled_open w Remote U) (\<lambda>_. True)
       (with_bool (om_lock_after_session_end o1) (\<lambda>b. modify_sess (\<lambda>s. s\<lparr>ss_lock_after_session_end := b\<rparr>)))"
    by (intro keeps_with_bool update_entitled_simple) (auto simp: lock)
  show "keeps (entitled_open w Remote U) (\<lambda>_. True)
       (guarded (\<lambda>s. get_version_number (lr_version (cn_lr (ss_conn s))) < get_version_number ''1.2.4'' \<and> ss_keyboard s)
        (with_bool (om_privacy_mode o1) (\<lambda>b st. (st, if b then turn_on_privacy env [] (fst st) else turn_off_privacy env []))))"
    by (rule keeps_guarded) (auto simp: wp_def with_bool_def split: option.splits bool_option.splits)
  show "keeps (entitled_open w Remote U) (\<lambda>_. True) (desktop env (with_bool (om_terminal_persistent o1) (\<lambda>b. actions
        [modify_sess (\<lambda>s. s\<lparr>ss_terminal_persistent := b\<rparr>),
         \<lambda>st. (st, [EfTerminalPersistence (cn_terminal_service_id (ss_conn (fst st))) b])])))"
    by (intro keeps_desktop keeps_with_bool keepsI) (auto simp: wp_simps wp_pure intro: subscriptions_same)
  show "keeps (entitled_open w Remote U) (\<lambda>_. True)
       (desktop env (with_bool (om_follow_remote_cursor o1) (\<lambda>b. modify_sess (\<lambda>s. s\<lparr>ss_follow_remote_cursor := b\<rparr>))))"
    by (intro keeps_desktop keeps_with_bool update_entitled_simple) simp_all
qed (intro keeps_desktop keeps_with_bool image_quality_entitled block_input_entitled follow_entitled show_cursor_entitled
       disable_clipboard_entitled [OF assms] disable_keyboard_entitled [OF assms] disable_audio_entitled keeps_pure; simp)+

lemma update_narrow_entitled:
  assumes "narrow_option o1"
  shows "keeps (entitled_open w t U) (\<lambda>_. True) (update_options env o1)"
  unfolding update_narrow_options [OF assms]
proof (rule keeps_actions, unfold list.pred_inject, intro conjI)
  show "list_all (keeps (entitled_open w t U) (\<lambda>_. True)) []" by simp
  show "keeps (entitled_open w t U) (\<lambda>_. True) (desktop env (with_bool (om_terminal_persistent o1) (\<lambda>b. actions
        [modify_sess (\<lambda>s. s\<lparr>ss_terminal_persistent := b\<rparr>),
         \<lambda>st. (st, [EfTerminalPersistence (cn_terminal_service_id (ss_conn (fst st))) b])])))"
    by (intro keeps_desktop keeps_with_bool keepsI) (auto simp: wp_simps wp_pure intro: subscriptions_same)
qed (intro keeps_with_bool image_quality_entitled disable_audio_entitled keeps_pure; simp)+

text \<open>Before its services are started, a session of a narrow scope is at most subscribed to the audio service.\<close>

definition audio_only :: "'m sst \<Rightarrow> bool" where
  "audio_only st \<longleftrightarrow> registry_ok (snd st) \<and> (\<forall>n. subed_at n (ss_id (fst st)) (snd st) \<longrightarrow> n = NAME_AUDIO)"

lemma update_narrow_audio_only:
  assumes "narrow_option o1"
  shows "keeps audio_only (\<lambda>_. True) (update_options env o1)"
  unfolding update_narrow_options [OF assms]
proof (rule keeps_actions, unfold list.pred_inject, intro conjI)
  show "list_all (keeps audio_only (\<lambda>_. True)) []" by simp
qed (auto simp: keeps_def wp_def audio_only_def option_image_quality_def Let_def with_bool_def modify_sess_def sub_audio_def guarded_def
       sub_service_def registry_subscribe subed_subscribe desktop_def emit_def split: option.splits bool_option.splits if_split_asm)

lemma keeps_conj: "keeps I P f \<Longrightarrow> keeps J P f \<Longrightarrow> keeps (\<lambda>st. I st \<and> J st) P f"
  by (simp add: keeps_def wp_def)

subsection \<open>Displays, voice calls and permissions\<close>

lemma refresh_entitled: "keeps (entitled_open w t U) (\<lambda>_. True) (refresh_video_display d)"
  by (auto simp: keeps_def wp_def refresh_video_display_def Let_def subscriptions_ok_def registry_set_video_service_opt)

lemma ensure_subscriptions: "subscriptions_ok w t U (s, sr) \<Longrightarrow> subscriptions_ok w t U (s, ensure_video_service src d sr)"
  by (simp add: subscriptions_ok_def registry_ensure)

lemma scoped_video:
  assumes "t = Remote \<or> t = ViewCameraConn" and "open_scoped t s"
  shows "entitled w t s' (get_service_name (video_source s) d)"
  using assms by (auto simp: entitled_video video_source_scoped)

lemma switch_display_entitled:
  assumes "t = Remote \<or> t = ViewCameraConn"
  shows "keeps (entitled_open w t U) (\<lambda>_. True) (switch_display_to env d)"
proof (rule keepsI)
  fix s and sr :: "'a server"
  assume i: "entitled_open w t U (s, sr)"
  define sr1 where "sr1 = (if d \<noteq> se_primary env then ensure_video_service (video_source s) d sr else sr)"
  define m where "m = get_service_name (video_source s) d"
  define k where "k = get_service_name (video_source s) (ss_display_idx s)"
  have 1: "pending {} w t U (s, sr1)" using i ensure_subscriptions by (auto simp: sr1_def settled)
  have 2: "pending {} w t U (s, subscribe k (ss_id s) False sr1)" by (rule pending_sub [OF 1]) simp_all
  have e: "entitled w t s m" unfolding m_def using assms i scoped_video by auto
  have 3: "pending {} w t U (s, subscribe m (ss_id s) True sr1)" "pending {} w t U (s, subscribe m (ss_id s) True (subscribe k (ss_id s) False sr1))"
    by (rule pending_sub [OF 1] pending_sub [OF 2]; simp add: e)+
  have 4: "pending {} w t U (s\<lparr>ss_display_idx := d\<rparr>, r)" if "pending {} w t U (s, r)" for r :: "'a server"
    using that by (simp add: pending_def)
  show "wp (\<lambda>_. True) (switch_display_to env d) (entitled_open w t U) (s, sr)"
    using i 3 [THEN 4] by (auto simp: wp_def switch_display_to_def guarded_def sub_service_def modify_sess_def Let_def settled
        sr1_def [symmetric] m_def [symmetric] k_def [symmetric])
qed

lemma handle_switch_display_entitled:
  assumes t: "t = Remote \<or> t = ViewCameraConn"
  shows "keeps (entitled_open w t U) (\<lambda>_. True) (handle_switch_display env d x y)"
  unfolding handle_switch_display_def Let_def
proof (rule keeps_guarded, rule keeps_wp [rotated], assumption, rule keeps_actions, unfold list.pred_inject, intro conjI)
  show "keeps (entitled_open w t U) (\<lambda>_. True) (switch_display_to env (usize_of_i32 d))" by (rule switch_display_entitled [OF t])
qed (auto intro!: keeps_desktop keeps_guarded keeps_pure simp: wp_pure)

lemma capture_displays_entitled:
  assumes "t = Remote \<or> t = ViewCameraConn"
  shows "keeps (entitled_open w t U) (\<lambda>_. True) (capture_displays add sub1 set1)"
proof (rule keepsI)
  fix s and sr :: "'a server"
  assume i: "entitled_open w t U (s, sr)"
  define sr1 where "sr1 = foldl (\<lambda>sr d. ensure_video_service (video_source s) d sr) sr (add @ set1)"
  define sr2 where "sr2 = (if add \<noteq> [] then capture_displays_at (ss_id s) (video_source s) add True False sr1
                else if sub1 \<noteq> [] then capture_displays_at (ss_id s) (video_source s) sub1 False True sr1
                else capture_displays_at (ss_id s) (video_source s) set1 True True sr1)"
  define s1 where "s1 = s\<lparr>ss_multi_ui_session := (get_subbed_displays_count (ss_id s) sr2 > 1)\<rparr>"
  have "subscriptions_ok w t U (s, foldl (\<lambda>sr d. ensure_video_service (video_source s) d sr) sr ds)" for ds
    using i by (induction ds arbitrary: sr) (auto simp: ensure_subscriptions)
  then have 1: "subscriptions_ok w t U (s, sr1)" unfolding sr1_def by blast
  have r: "registry_ok sr1" and e: "\<And>n. subed_at n (ss_id s) sr1 \<Longrightarrow> entitled w t s n"
    and u: "\<And>n j. j \<noteq> ss_id s \<Longrightarrow> subed_at n j sr1 = subed_by U n j" "ss_id s = own_id U" using 1 by (simp_all add: subscriptions_ok_def)
  have v: "entitled w t s n" if "n \<in> get_service_name (video_source s) ` set ds" for n ds
    using that scoped_video [OF assms] i by auto
  have "subscriptions_ok w t U (s, capture_displays_at (ss_id s) (video_source s) ds inc exc sr1)" for ds inc exc
    unfolding subscriptions_ok_def fst_conv snd_conv
    using capture_displays_at_registry [OF r] capture_displays_elsewhere [OF r] e v u by blast
  then have "subscriptions_ok w t U (s, sr2)" by (simp add: sr2_def)
  then have 2: "subscriptions_ok w t U (s1, sr2)" by (rule subscriptions_same) (simp_all add: s1_def)
  have s1: "open_scoped t s1" "ss_id s1 = ss_id s" "ss_follow_remote_window s1 = ss_follow_remote_window s" using i by (simp_all add: s1_def)
  have f: "entitled w t s1 NAME_WINDOW_FOCUS" if "ss_follow_remote_window s1"
    using that s1(1) authed_open(4) names_distinct(1) by (cases "t = Remote") (auto simp: entitled_def)
  have 3: "pending {} w t U (s1, subscribe NAME_WINDOW_FOCUS (ss_id s1) b sr2)" if "ss_follow_remote_window s1" for b
    by (rule pending_sub [of "{}"]) (use 2 f that in \<open>auto simp: settled\<close>)
  have "capture_displays add sub1 set1 (s, sr)
    = guarded ss_follow_remote_window (sub_service NAME_WINDOW_FOCUS (\<lambda>s. \<not> ss_multi_ui_session s)) (s1, sr2)"
    by (simp only: capture_displays_def Let_def prod.case sr1_def sr2_def s1_def)
  with 2 3 s1(1) show "wp (\<lambda>_. True) (capture_displays add sub1 set1) (entitled_open w t U) (s, sr)"
    by (simp add: wp_def guarded_def sub_service_def settled)
qed

lemma handle_voice_call_entitled: "keeps (entitled_open w t U) (\<lambda>_. True) (handle_voice_call accepted)"
proof (rule keepsI)
  fix s and sr :: "'a server"
  assume i: "entitled_open w t U (s, sr)"
  define s1 where "s1 = s\<lparr>ss_voice_call_request_timestamp := None, ss_voice_calling := accepted\<rparr>"
  have o: "open_scoped t s1" "is_authed_view_camera_conn s1 = (t = ViewCameraConn)" using i by (simp_all add: s1_def authed_open)
  have "pending (if t = ViewCameraConn then {NAME_AUDIO} else {}) w t U (s1, sr)"
    using i by (elim conjE pending_modify) (auto simp: s1_def entitled_defs split: if_split_asm)
  then have "pending {} w t U (if t = ViewCameraConn then (s1, subscribe NAME_AUDIO (ss_id s1) (audio_enabled s1 \<and> accepted) sr) else (s1, sr))"
    by (auto intro!: pending_sub [where S = "{NAME_AUDIO}"]) (use names_distinct(1) in \<open>auto simp: entitled_defs s1_def\<close>)
  moreover have "fst (handle_voice_call accepted (s, sr)) =
      (if t = ViewCameraConn then (s1, subscribe NAME_AUDIO (ss_id s1) (audio_enabled s1 \<and> accepted) sr) else (s1, sr))"
    if "ss_voice_call_request_timestamp s = Some ts" for ts
    using that o(2) by (simp add: handle_voice_call_def modify_sess_def emit_def guarded_def sub_service_def s1_def)
  ultimately show "wp (\<lambda>_. True) (handle_voice_call accepted) (entitled_open w t U) (s, sr)"
    using i o(1) by (cases "ss_voice_call_request_timestamp s") (auto simp: wp_def settled handle_voice_call_def split: if_split_asm)
qed

lemma close_voice_call_entitled: "keeps (entitled_open w t U) (\<lambda>_. True) close_voice_call"
proof (rule keepsI)
  fix s and sr :: "'a server"
  assume i: "entitled_open w t U (s, sr)"
  define s1 where "s1 = s\<lparr>ss_voice_calling := False\<rparr>"
  have o: "open_scoped t s1" "is_authed_view_camera_conn s1 = (t = ViewCameraConn)" using i by (simp_all add: s1_def authed_open)
  have "pending (if t = ViewCameraConn then {NAME_AUDIO} else {}) w t U (s1, sr)"
    using i by (elim conjE pending_modify) (auto simp: s1_def entitled_defs split: if_split_asm)
  then have "pending {} w t U (if t = ViewCameraConn then (s1, subscribe NAME_AUDIO (ss_id s1) False sr) else (s1, sr))"
    by (auto intro!: pending_sub [where S = "{NAME_AUDIO}"])
  with i o show "wp (\<lambda>_. True) close_voice_call (entitled_open w t U) (s, sr)"
    by (auto simp: wp_def close_voice_call_def modify_sess_def emit_def guarded_def sub_service_def s1_def [symmetric] settled
        split: if_split_asm)
qed

lemma switch_audio_entitled:
  "keeps (entitled_open w t U) (\<lambda>_. True) (actions [modify_sess (\<lambda>s. s\<lparr>ss_audio := b\<rparr>), emit es, guarded (\<lambda>s. cn_authorized (ss_conn s)) sub_audio])"
proof (rule keepsI)
  fix s and sr :: "'a server"
  assume i: "entitled_open w t U (s, sr)"
  then have "pending {NAME_AUDIO} w t U (s\<lparr>ss_audio := b\<rparr>, sr)"
    by (elim conjE pending_modify) (simp_all add: entitled_defs)
  moreover have "\<not> subed_at NAME_AUDIO (ss_id s) sr" if "t = ViewCameraConn" "\<not> ss_voice_calling s"
    using i that names_distinct(1) by (auto simp: subscriptions_ok_def entitled_def)
  moreover have "cn_authorized (ss_conn s)" using i by (auto dest: authed_open(5))
  ultimately show "wp (\<lambda>_. True) (actions [modify_sess (\<lambda>s. s\<lparr>ss_audio := b\<rparr>), emit es, guarded (\<lambda>s. cn_authorized (ss_conn s)) sub_audio])
      (entitled_open w t U) (s, sr)"
    using i sub_audio_entitled [of t "s\<lparr>ss_audio := b\<rparr>" w U sr] by (simp add: wp_simps)
qed

lemma switch_permission_entitled:
  assumes "se_one_way_clipboard env = w"
  shows "keeps (entitled_open w t U) (\<lambda>_. True) (switch_permission env name b)"
proof -
  have k: "keeps (entitled_open w t U) (\<lambda>_. True) (actions [modify_sess (\<lambda>s. s\<lparr>ss_keyboard := b\<rparr>), emit es,
         sub_service NAME_CLIPBOARD (can_sub_clipboard_service env), sub_service NAME_CURSOR (\<lambda>s. b \<or> ss_show_remote_cursor s)])" for es
    by (rule update_entitled [of _ _ "[(NAME_CLIPBOARD, can_sub_clipboard_service env), (NAME_CURSOR, \<lambda>s. b \<or> ss_show_remote_cursor s)]", simplified])
      (use names_distinct(1) in \<open>auto simp: entitled_defs can_sub_clipboard_service_def assms\<close>)
  have c: "keeps (entitled_open w t U) (\<lambda>_. True) (actions [modify_sess (\<lambda>s. s\<lparr>ss_clipboard := b\<rparr>), emit es,
         sub_service NAME_CLIPBOARD (can_sub_clipboard_service env)])" for es
    by (rule update_entitled [of _ _ "[(NAME_CLIPBOARD, can_sub_clipboard_service env)]", simplified])
      (use names_distinct(1) in \<open>auto simp: entitled_defs can_sub_clipboard_service_def assms\<close>)
  have p: "keeps (entitled_open w t U) (\<lambda>_. True) (switch_privacy env b)"
    by (rule keepsI) (auto simp: wp_def switch_privacy_def Let_def emit_def modify_sess_def intro: subscriptions_same)
  have m: "keeps (entitled_open w t U) (\<lambda>_. True) (actions [modify_sess f, emit es])"
    if "\<And>s. open_scoped t s \<Longrightarrow> open_scoped t (f s) \<and> ss_id (f s) = ss_id s" and "\<And>s n. entitled w t (f s) n = entitled w t s n" for f es
    using that by (auto simp: keeps_def wp_simps intro: subscriptions_same)
  show ?thesis by (simp add: switch_permission_def k c p m switch_audio_entitled keeps_emit del: actions.simps)
qed

lemma subscriptions_update [simp]:
  "subscriptions_ok w t U (s\<lparr>ss_chat_unanswered := b\<rparr>, sr) = subscriptions_ok w t U (s, sr)"
  "subscriptions_ok w t U (s\<lparr>ss_audio_sender := b\<rparr>, sr) = subscriptions_ok w t U (s, sr)"
  "subscriptions_ok w t U (s\<lparr>ss_voice_call_request_timestamp := ts\<rparr>, sr) = subscriptions_ok w t U (s, sr)"
  "subscriptions_ok w t U (s\<lparr>ss_options_in_login := o1\<rparr>, sr) = subscriptions_ok w t U (s, sr)"
  "subscriptions_ok w t U (s\<lparr>ss_scope_violation_messages := ms\<rparr>, sr) = subscriptions_ok w t U (s, sr)"
  "subscriptions_ok w t U (s\<lparr>ss_closed := c\<rparr>, sr) = subscriptions_ok w t U (s, sr)"
  "subscriptions_ok w t U (s\<lparr>ss_conn := k\<rparr>, sr) = subscriptions_ok w t U (s, sr)"
  "subscriptions_ok w t U (s\<lparr>ss_ft := ft\<rparr>, sr) = subscriptions_ok w t U (s, sr)"
  "subscriptions_ok w t U (s\<lparr>ss_last_test_delay := l, ss_network_delay := d\<rparr>, sr) = subscriptions_ok w t U (s, sr)"
  "subscriptions_ok w t U (s\<lparr>ss_last_test_delay := l\<rparr>, sr) = subscriptions_ok w t U (s, sr)"
  "subscriptions_ok w t U (s\<lparr>ss_last_recv := d\<rparr>, sr) = subscriptions_ok w t U (s, sr)"
  "subscriptions_ok w t U (s\<lparr>ss_running := b\<rparr>, sr) = subscriptions_ok w t U (s, sr)"
  "subscriptions_ok w t U (update_auto_disconnect_timer env s, sr) = subscriptions_ok w t U (s, sr)"
  by (simp_all add: subscriptions_ok_def update_auto_disconnect_timer_def)

subsection \<open>Messages\<close>

text \<open>Handlers that change no subscription and no permission.\<close>

lemma track_modifier_entitled:
  "open_scoped t (track_modifier env k s) = open_scoped t s" "subscriptions_ok w t U (track_modifier env k s, sr) = subscriptions_ok w t U (s, sr)"
  by (simp_all add: track_modifier_def subscriptions_ok_def split: option.splits)

lemma input_entitled:
  "keeps (entitled_open w t U) (\<lambda>_. True) (on_key_event env k)"
  "keeps (entitled_open w t U) (\<lambda>_. True) (on_mouse_event env m x y)"
  "keeps (entitled_open w t U) (\<lambda>_. True) (on_pointer_event env p)"
  by (auto simp: keeps_def on_key_event_def on_mouse_event_def on_pointer_event_def wp_simps wp_pure track_modifier_entitled split: target.splits)

lemma timer_entitled: "keeps (entitled_open w t U) P (modify_sess (update_auto_disconnect_timer env))"
  by (simp add: keeps_def wp_simps)

lemma on_misc_entitled:
  assumes "t = Remote \<or> t = ViewCameraConn \<or> (t = TerminalConn \<and> is_terminal_scoped_misc m)" and "se_one_way_clipboard env = w"
  shows "keeps (entitled_open w t U) (\<lambda>_. True) (on_misc env m)"
proof (cases m)
  case (OptionMsg o1)
  have "narrow_option o2" if "scoped_update_option_message (Some t) o1 = Some o2" for o2
    using that assms(1) scoped_options by (auto simp: scoped_update_option_message_def terminal_option_def)
  then have n: "keeps (entitled_open w t U) (\<lambda>_. True) (update_options env o2)" if "scoped_update_option_message (Some t) o1 = Some o2" for o2
    using that update_narrow_entitled by blast
  show ?thesis
  proof (rule keepsI)
    fix s and sr :: "'a server"
    assume i: "entitled_open w t U (s, sr)"
    show "wp (\<lambda>_. True) (on_misc env m) (entitled_open w t U) (s, sr)"
      using i OptionMsg keeps_wp [OF n i] keeps_wp [OF update_options_entitled [OF assms(2), where U = U and ?o1.0 = o1], of "(s, sr)"]
      by (cases "t = Remote") (auto simp: wp_def authed_open split: option.splits)
  qed
next
  case (SwitchDisplay d w h)
  then show ?thesis using assms(1) by (auto simp: handle_switch_display_entitled)
next
  case (CaptureDisplays a b c)
  then show ?thesis using assms(1) by (auto simp: capture_displays_entitled)
next
  case (RefreshVideo r)
  then show ?thesis by (auto intro!: keeps_timed timer_entitled refresh_entitled keeps_emit)
next
  case (RefreshVideoDisplay d)
  then show ?thesis by (auto intro!: keeps_timed timer_entitled refresh_entitled)
qed (auto simp: keeps_emit keeps_pure wp_simps wp_pure
     intro!: keeps_guarded keeps_desktop keepsI [where f = "actions xs" for xs] intro: subscriptions_same)

lemma on_plain_entitled:
  assumes "authorized_message_scope_violation t msg = None" and "\<not> is_connection_housekeeping_message msg"
    and "t \<noteq> PortForwardConn" and "se_one_way_clipboard env = w"
  shows "keeps (entitled_open w t U) (\<lambda>_. True) (on_plain_message env msg)"
proof (cases "t \<noteq> Remote \<and> (is_render_broadcast_noop_compat_message msg \<and> t \<noteq> ViewCameraConn \<or> is_text_clipboard_noop_compat_message msg)")
  case True
  show ?thesis
    by (rule keeps_idle, use True assms(3) in \<open>cases t\<close>) (auto dest: render_compat_idle clipboard_compat_idle)
next
  case False
  show ?thesis
  proof (cases msg)
    case (MMisc m)
    have "t = Remote \<or> t = ViewCameraConn \<or> (t = TerminalConn \<and> is_terminal_scoped_misc m)"
      using assms(1-3) False MMisc by (cases t) (auto simp: authorized_message_scope_violation_def split: if_split_asm)
    with MMisc show ?thesis by (simp add: on_misc_entitled assms(4))
  next
    case (MScreenshotRequest d sid)
    then show ?thesis by (simp add: keeps_actions refresh_entitled keeps_pure)
  qed (auto simp: keeps_wp [OF input_entitled(1)] keeps_wp [OF input_entitled(2)] keeps_wp [OF input_entitled(3)]
         close_voice_call_entitled keeps_emit wp_simps intro!: keeps_guarded keeps_desktop keepsI [where f = "actions xs" for xs]
       intro: subscriptions_same)
qed

lemma on_close_entitled:
  assumes "subscriptions_ok w t U st" shows "subscriptions_ok w t U (fst (on_close env reason lock st))"
proof -
  have "wp (\<lambda>_. True) (on_close env reason lock) (subscriptions_ok w t U) st"
    using assms by (cases st) (auto simp: on_close_def wp_simps wp_pure)
  then show ?thesis by (simp add: wp_def)
qed

lemma scope_violation_entitled:
  assumes "subscriptions_ok w t U st" and "handle_authorized_scope_violation env m st = (go, st', out)"
  shows "subscriptions_ok w t U st'"
proof -
  obtain s sr where st: "st = (s, sr)" by (cases st)
  let ?s = "s\<lparr>ss_scope_violation_messages := insert m (ss_scope_violation_messages s)\<rparr>"
  have "subscriptions_ok w t U (?s, sr)" using assms(1) by (simp add: st)
  then show ?thesis using assms(2) on_close_entitled [of w t U "(?s, sr)" env "''Session scope violation''" True]
    by (auto simp: st handle_authorized_scope_violation_def send_close_reason_no_retry_def Let_def modify_sess_def emit_def guarded_def
        split: prod.splits if_split_asm)
qed

lemma message_entitled:
  assumes st: "entitled_open w t U st" and r: "on_session_message env msg st = Ret (go, st', out)" and w: "se_one_way_clipboard env = w"
  shows "subscriptions_ok w t U st'"
proof -
  have a: "authed_conn_type (fst st) = Some t" "cn_authorized (ss_conn (fst st))" using st authed_open by blast+
  obtain s sr where s: "st = (s, sr)" by (cases st)
  from a r show ?thesis
  proof (cases rule: message_cases)
    case close
    then show ?thesis using st on_close_entitled [of w t U st env "''Peer close''" True] by (auto simp: emit_def split: prod.splits)
  next
    case (delay tm b)
    then show ?thesis using st by (auto simp: s on_test_delay_def Let_def split: if_split_asm option.splits)
  next
    case violation
    then show ?thesis using scope_violation_entitled st by metis
  next
    case file_action
    then show ?thesis using st by (auto simp: s on_file_action_def rust_bind_Ret split: option.splits)
  next
    case plain
    have "t \<noteq> PortForwardConn" using port_forward_open st plain(3) by blast
    from keepsD [OF on_plain_entitled [OF plain(1,2) this w] st] plain(4) show ?thesis by (metis prod.inject)
  qed (use st in simp)
qed

subsection \<open>The start of a session\<close>

lemma noperms_entitled:
  assumes "n \<notin> set (noperms_of env s)" and "is_video_service_name n \<longrightarrow> n = get_service_name Monitor d"
  shows "entitled (se_one_way_clipboard env) Remote s n"
proof -
  have "\<not> prefix (service_name_prefix Camera) n"
    using assms(2) by (auto simp: is_video_service_name_def get_service_name_def service_name_prefix_def)
  with assms(1) show ?thesis
    by (auto simp: noperms_of_def entitled_def can_sub_clipboard_service_def peer_keyboard_enabled_def split: if_split_asm)
qed

lemma monitor_entitled:
  "keeps (entitled_open (se_one_way_clipboard env) Remote U) (\<lambda>_. True) (try_sub_monitor_services env)"
proof (rule keepsI)
  fix s and sr :: "'a server"
  assume i: "entitled_open (se_one_way_clipboard env) Remote U (s, sr)"
  define sr1 where "sr1 = try_add_primay_video_service (se_primary env) sr"
  have r: "registry_ok sr1" "\<And>n j. subed_at n j sr1 = subed_at n j sr"
    using i by (simp_all add: sr1_def try_add_primay_video_service_def registry_ensure subscriptions_ok_def)
  have "subscriptions_ok (se_one_way_clipboard env) Remote U (s\<lparr>ss_services_subed := True, ss_auto_disconnect := get_auto_disconnect_timer env\<rparr>, add_connection (se_primary env) (ss_id s) (noperms_of env s) sr1)"
    using i r(2) registry_add_connection [OF r(1)] subed_add_connection [OF r(1), of _ "ss_id s" "se_primary env" "ss_id s" "noperms_of env s"]
      noperms_entitled [of _ env s] add_connection_elsewhere [OF r(1)] unfolding subscriptions_ok_def by fastforce
  with i show "wp (\<lambda>_. True) (try_sub_monitor_services env) (entitled_open (se_one_way_clipboard env) Remote U) (s, sr)"
    by (simp add: wp_def try_sub_monitor_services_def sr1_def)
qed

lemma audio_only_narrow:
  assumes "audio_only (s, sr)" and "subscriptions_ok w t U (s, sr)"
  shows "subscriptions_ok w t U (s\<lparr>ss_keyboard := b\<rparr>, sr)"
  using assms names_distinct(1) by (auto simp: audio_only_def subscriptions_ok_def entitled_defs)

lemma camera_entitled:
  assumes "audio_only (s, sr)" and "subscriptions_ok w ViewCameraConn U (s, sr)"
  shows "subscriptions_ok w ViewCameraConn U (s\<lparr>ss_keyboard := b\<rparr>, snd (fst (try_sub_camera_displays env (s, sr))))"
proof -
  define sr1 where "sr1 = try_add_primary_camera_service (se_camera env) sr"
  have r: "registry_ok sr1" "\<And>n j. subed_at n j sr1 = subed_at n j sr"
    using assms by (simp_all add: sr1_def try_add_primary_camera_service_def registry_ensure subscriptions_ok_def)
  from audio_only_narrow [OF assms] have "\<And>n. subed_at n (ss_id s) sr \<Longrightarrow> entitled w ViewCameraConn (s\<lparr>ss_keyboard := b\<rparr>) n"
    and "\<And>n j. j \<noteq> ss_id s \<Longrightarrow> subed_at n j sr = subed_by U n j" and "ss_id s = own_id U"
    by (simp_all add: subscriptions_ok_def)
  then show ?thesis
    using r(2) registry_add_camera_connection [OF r(1)] subed_add_camera_connection [OF r(1), of _ "ss_id s" "se_camera env" "ss_id s"]
      add_camera_connection_elsewhere [OF r(1)]
    unfolding subscriptions_ok_def by (fastforce simp: try_sub_camera_displays_def sr1_def [symmetric] entitled_video)
qed

lemma start_services_entitled:
  assumes "entitled_open w t U (s, sr)" and "t \<noteq> Remote \<Longrightarrow> audio_only (s, sr)" and "t \<noteq> PortForwardConn"
    and "se_one_way_clipboard env = w"
  shows "subscriptions_ok w t U (fst (start_services env ok is_dir (s, sr)))"
proof -
  have c: "t = auth_type_of (ss_conn s)" using assms(1) by (auto simp: open_scoped_def session_scoped_def)
  have n: "\<not> (cn_view_camera (ss_conn s) \<and> cn_terminal (ss_conn s))" using assms(1) by (auto simp: open_scoped_def session_scoped_def)
  have k: "subscriptions_ok w t U (s\<lparr>ss_keyboard := False\<rparr>, sr)" if "t \<noteq> Remote" using audio_only_narrow assms(1,2) that by blast
  consider (ft) a where "cn_file_transfer (ss_conn s) = Some a" "t \<noteq> Remote"
    | (terminal) "cn_file_transfer (ss_conn s) = None" "cn_terminal (ss_conn s)" "t \<noteq> Remote"
    | (camera) "cn_file_transfer (ss_conn s) = None" "\<not> cn_terminal (ss_conn s)" "cn_view_camera (ss_conn s)" "t = ViewCameraConn"
    | (remote) "cn_file_transfer (ss_conn s) = None" "\<not> cn_terminal (ss_conn s)" "\<not> cn_view_camera (ss_conn s)" "t = Remote"
    using c n assms(3) by (cases "cn_file_transfer (ss_conn s)") (auto simp: auth_type_of_def split: if_split_asm)
  then show ?thesis
  proof cases
    case ft
    then show ?thesis using k by (cases a) (simp add: start_services_def modify_sess_def emit_def)
  next
    case terminal
    then show ?thesis using k by (simp add: start_services_def modify_sess_def emit_def init_terminal_service_def desktop_def guarded_def)
  next
    case camera
    then have "subscriptions_ok w t U (s\<lparr>ss_keyboard := False\<rparr>, snd (fst (try_sub_camera_displays env (s, sr))))"
      using camera_entitled assms(1,2) by blast
    with camera show ?thesis by (simp add: start_services_def modify_sess_def emit_def try_sub_camera_displays_def)
  next
    case remote
    then show ?thesis using keeps_wp [OF monitor_entitled [of env U], of "(s, sr)"] assms by (simp add: start_services_def wp_def)
  qed
qed

lemma login_options_entitled:
  assumes "se_one_way_clipboard env = w" and "entitled_open w t U (s, sr)" and "audio_only (s, sr)"
    and "update_scoped_login_options env (s, sr) = (st', out)"
  shows "entitled_open w t U st' \<and> (t \<noteq> Remote \<longrightarrow> audio_only st')"
proof (cases "ss_options_in_login s")
  case None
  then show ?thesis using assms by (auto simp: update_scoped_login_options_def)
next
  case (Some o1)
  define s1 where "s1 = s\<lparr>ss_options_in_login := None\<rparr>"
  have s1: "entitled_open w t U (s1, sr)" "audio_only (s1, sr)" "authed_conn_type s1 = Some t"
    using assms(2,3) by (simp_all add: s1_def audio_only_def authed_open)
  show ?thesis
  proof (cases "fst (scoped_login_option t o1)")
    case None
    then show ?thesis using s1 assms(4) Some by (auto simp: update_scoped_login_options_def s1_def Let_def)
  next
    case o2: (Some o2)
    have u: "update_options env o2 (s1, sr) = (st', out)"
      using assms(4) Some s1 o2 by (auto simp: update_scoped_login_options_def s1_def Let_def)
    show ?thesis
    proof (cases "t = Remote")
      case True
      with s1(1) have "entitled_open w Remote U (s1, sr)" by simp
      from keepsD [OF update_options_entitled [OF assms(1)] this u] True show ?thesis by simp
    next
      case False
      then have "narrow_option o2"
        using o2 scoped_options by (cases t) (auto simp: scoped_login_option_def terminal_option_def)
      from keepsD [OF keeps_conj [OF update_narrow_entitled [OF this, where w = w and t = t] update_narrow_audio_only [OF this]] _ u] s1
      show ?thesis by auto
    qed
  qed
qed

lemma after_logon_entitled:
  assumes "se_one_way_clipboard env = w" and "open_scoped t s" and "registry_ok sr" and "\<And>n. \<not> subed_at n (ss_id s) sr"
    and "ss_id s = own_id U" and "\<And>n j. j \<noteq> ss_id s \<Longrightarrow> subed_at n j sr = subed_by U n j" and "after_logon env ok is_dir (s, sr) = (st', out)"
  shows "subscriptions_ok w t U st'"
proof (cases "cn_port_forward_socket (ss_conn s)")
  case True
  then show ?thesis using assms by (auto simp: after_logon_def subscriptions_ok_def)
next
  case False
  then have t: "t \<noteq> PortForwardConn" using port_forward_open [of "(s, sr)"] assms(2) by auto
  obtain st1 o1 where u: "update_scoped_login_options env (s, sr) = (st1, o1)" by (cases "update_scoped_login_options env (s, sr)")
  have "entitled_open w t U (s, sr)" "audio_only (s, sr)" using assms(2-6) by (simp_all add: subscriptions_ok_def audio_only_def)
  from login_options_entitled [OF assms(1) this u] have "entitled_open w t U st1 \<and> (t \<noteq> Remote \<longrightarrow> audio_only st1)" .
  then have "subscriptions_ok w t U (fst (start_services env ok is_dir st1))"
    using start_services_entitled [where s = "fst st1" and sr = "snd st1" and w = w and t = t] t assms(1) by simp
  with assms(7) False u show ?thesis by (auto simp: after_logon_def split: prod.splits)
qed

subsection \<open>Whole sessions\<close>

text \<open>The other events of the loop change no subscription but those already considered.\<close>

lemma fst_actions: "fst (actions [] st) = st" "fst (actions (f # fs) st) = fst (actions fs (fst (f st)))"
  by (simp_all split: prod.splits)

lemma goes_entitled: "keeps (entitled_open w t U) P f \<Longrightarrow> entitled_open w t U st \<Longrightarrow> subscriptions_ok w t U (fst (snd (go_on f st)))"
  by (drule keeps_wp, assumption) (simp add: go_on_def wp_def)

lemma close_no_retry_entitled:
  "subscriptions_ok w t U st \<Longrightarrow> subscriptions_ok w t U (fst (close_no_retry env reason what lock st))"
  using on_close_entitled [of w t U st env what lock]
  by (simp add: close_no_retry_def send_close_reason_no_retry_def emit_def fst_actions del: actions.simps)

lemma closed_entitled:
  "on_close env reason lock st = (st', out) \<Longrightarrow> subscriptions_ok w t U st \<Longrightarrow> subscriptions_ok w t U st'"
  "close_no_retry env reason what lock st = (st', out) \<Longrightarrow> subscriptions_ok w t U st \<Longrightarrow> subscriptions_ok w t U st'"
  using on_close_entitled [of w t U st env reason lock] close_no_retry_entitled [of w t U st env reason what lock] by simp_all

lemma send_or_close_entitled: "subscriptions_ok w t U st \<Longrightarrow> subscriptions_ok w t U (fst (snd (send_or_close env err e st)))"
  by (simp add: send_or_close_def go_on_def leave_def emit_def on_close_entitled split: option.splits)

lemma then_send_entitled:
  "subscriptions_ok w t U (fst (f st)) \<Longrightarrow> subscriptions_ok w t U (fst (snd (then_send f env err e st)))"
  using send_or_close_entitled [of w t U "fst (f st)" env err e]
  by (cases "f st", cases "send_or_close env err e (fst (f st))") (simp add: then_send_def)

lemma service_out_entitled:
  assumes "entitled_open w t U st" shows "subscriptions_ok w t U (fst (snd (on_service_out env latency m err st)))"
proof (cases m)
  case SmPeerInfo
  have "subscriptions_ok w t U (fst (refresh_video_display (\<lambda>_. None) st))"
    using keeps_wp [OF refresh_entitled assms, of "\<lambda>_. None"] by (simp add: wp_def)
  then show ?thesis by (simp add: SmPeerInfo then_send_entitled)
next
  case (SmCursorPosition x y)
  have "subscriptions_ok w t U (fst (desktop env (guarded ss_follow_remote_cursor (handle_cursor_switch_display env x y)) st))"
    using assms by (simp add: desktop_def guarded_def handle_cursor_switch_display_def emit_def)
  then show ?thesis by (simp add: SmCursorPosition then_send_entitled)
qed (use assms in \<open>auto simp: send_or_close_entitled close_no_retry_entitled go_on_def leave_def emit_def\<close>)

lemma on_event_entitled:
  assumes "entitled_open w t U st" and "se_one_way_clipboard env = w" and "on_event env e st = Ret (go, st', out)"
  shows "subscriptions_ok w t U st'"
proof (cases e)
  case (Peer msg)
  have "entitled_open w t U (received env st)" using assms(1) by (cases st) (simp add: received_def)
  from message_entitled [OF this _ assms(2), of msg] show ?thesis
    using assms(3) Peer by (auto simp: on_peer_message_def rust_bind_Ret)
next
  case (SwitchPermission name b)
  then show ?thesis using goes_entitled [OF switch_permission_entitled [OF assms(2)] assms(1), of name b] assms(3) by simp
next
  case (VoiceAnswer b)
  then show ?thesis using goes_entitled [OF handle_voice_call_entitled assms(1), of b] assms(3) by simp
next
  case CloseVoiceCall
  have "keeps (entitled_open w t U) (\<lambda>_. True) (actions [close_voice_call, emit [EfSendVoiceRequest False]])"
    by (rule keeps_actions) (simp add: close_voice_call_entitled keeps_emit)
  from goes_entitled [OF this assms(1)] CloseVoiceCall assms(3) show ?thesis by simp
next
  case (ServiceOut latency m err)
  then show ?thesis using service_out_entitled [OF assms(1), of env latency m err] assms(3) by simp
next
  case (VideoOut d err)
  then show ?thesis using assms(1,3) then_send_entitled [of w t U "\<lambda>st. (st, case d of Some d \<Rightarrow> if ss_video_ack_required (fst st) then [] else [EfFrameSent d] | None \<Rightarrow> [])" st env err EfSendVideo]
    by (simp add: on_video_out_def)
next
  case DelayTick
  then show ?thesis using assms(1,3) on_close_entitled [of w t U st env "''Timeout''" True]
    by (cases st) (auto simp: on_delay_tick_def go_on_def leave_def guarded_def modify_sess_def split: if_split_asm)
next
  case LocalClose
  then have "st' = fst (on_local_close env st)" using assms(3) by (auto simp: leave_def)
  then show ?thesis using assms(1)
    by (cases st) (simp add: on_local_close_def fst_actions modify_sess_def close_no_retry_entitled del: actions.simps)
next
  case (SecondTick q)
  then show ?thesis using assms(1,3)
    by (cases st) (auto simp: on_second_def leave_def elim!: closed_entitled split: if_split_asm prod.splits)
next
  case (FileTick err)
  then show ?thesis using assms(1,3)
    by (cases st) (auto simp: on_file_tick_def leave_def elim!: closed_entitled split: option.splits prod.splits)
qed (use assms in \<open>auto simp: go_on_def leave_def emit_def received_def on_reauthorize_def on_cm_result_def modify_sess_def Let_def
      elim!: closed_entitled split: prod.splits if_split_asm\<close>)

lemma sess_step_entitled:
  assumes "loop_ok t (st, hist)" and "subscriptions_ok w t U st" and "se_one_way_clipboard env = w"
    and "sess_step (env, e) (st, hist) = Ret (st', hist')"
  shows "subscriptions_ok w t U st'"
proof (cases "ss_running (fst st)")
  case True
  then have st: "entitled_open w t U st" using assms(1,2) by (simp add: loop_ok_def open_scoped_def)
  from True assms(4) obtain go st1 out where r: "on_event env e st = Ret (go, st1, out)"
    and st': "st' = ((fst st1)\<lparr>ss_running := go\<rparr>, snd st1)" by (auto simp: rust_bind_Ret)
  have "subscriptions_ok w t U (fst st1, snd st1)" using on_event_entitled [OF st assms(3) r] by simp
  then show ?thesis unfolding st' by (rule subscriptions_same) simp_all
qed (use assms in simp)

interpretation subscribed: step_invariant sess_step "\<lambda>(env, e). se_one_way_clipboard env = w"
  "\<lambda>x. loop_ok t x \<and> subscriptions_ok w t U (fst x)" for w t U
proof unfold_locales
  fix x :: "sess_env \<times> sess_event" and y y' :: "'a loop_state"
  assume a: "case x of (env, e) \<Rightarrow> se_one_way_clipboard env = w" and i: "loop_ok t y \<and> subscriptions_ok w t U (fst y)"
    and r: "sess_step x y = Ret y'"
  obtain env e where x: "x = (env, e)" by (cases x)
  have "subscriptions_ok w t U (fst y')"
    by (rule sess_step_entitled [of t "fst y" "snd y" w U env e "fst y'" "snd y'"]) (use i a r in \<open>simp_all add: x\<close>)
  then show "loop_ok t y' \<and> subscriptions_ok w t U (fst y')" using sess_step_scope [of t y env e y'] i r by (simp add: x)
qed

text \<open>The state any session reaches: \<open>t\<close> is the scope it was authorised for.\<close>

lemma reached_subscriptions:
  assumes "scope_permitted p c" and "cn_authorized c" and "registry_ok sr" and "\<forall>n. \<not> subed_at n i sr"
    and "rust_run sess_step es (session_start env0 displays_ok is_dir (new_sess i pm sp c, sr)) = Ret (st, hist)"
    and "\<forall>env \<in> set (env0 # map fst es). se_one_way_clipboard env = w"
  shows "loop_ok (auth_type_of c) (st, hist) \<and> subscriptions_ok w (auth_type_of c) (Rest i (\<lambda>n j. subed_at n j sr)) st"
proof -
  let ?t = "auth_type_of c" and ?U = "Rest i (\<lambda>n j. subed_at n j sr)"
  obtain st0 out0 where l: "after_logon env0 displays_ok is_dir (new_sess i pm sp c, sr) = (st0, out0)"
    by (cases "after_logon env0 displays_ok is_dir (new_sess i pm sp c, sr)")
  have o: "open_scoped ?t (new_sess i pm sp c)" by (rule new_sess_scope [OF assms(1,2)])
  have "subscriptions_ok w ?t ?U st0"
    by (rule after_logon_entitled [OF _ o assms(3) _ _ _ l]) (use assms(4,6) in \<open>auto simp: new_sess_def\<close>)
  then have "subscriptions_ok w ?t ?U (fst (session_start env0 displays_ok is_dir (new_sess i pm sp c, sr)))"
    by (simp add: session_start_def l)
  moreover have "loop_ok ?t (session_start env0 displays_ok is_dir (new_sess i pm sp c, sr))"
    by (rule session_start_scope [OF _ refl]) (simp add: o)
  moreover have "list_all (\<lambda>(env, e). se_one_way_clipboard env = w) es" using assms(6) by (auto simp: list_all_iff)
  ultimately show ?thesis using subscribed.run_inv [OF _ _ assms(5), of w ?t ?U] by auto
qed


lemma demo_desktop_run:
  assumes "cn_authorized c" and "cn_auth_type c = Some Remote" and "cn_file_transfer c = None" and "\<not> cn_port_forward_socket c"
    and "\<not> cn_view_camera c" and "\<not> cn_terminal c"
  shows "\<exists>(st :: unit sst) hist. rust_run sess_step [(demo_sess_env Linux, SwitchPermission ''clipboard'' False)]
      (session_start (demo_sess_env Linux) True (\<lambda>_. False) (new_sess 1 demo_permissions demo_params c, server_new False 0)) = Ret (st, hist)
    \<and> subed_at NAME_AUDIO 1 (snd st) \<and> \<not> subed_at NAME_CLIPBOARD 1 (snd st)"
proof -
  define sr :: "unit server" where "sr = add_connection 0 1 [NAME_POS, NAME_WINDOW_FOCUS] (ensure_video_service Monitor 0 (server_new False 0))"
  define s0 where "s0 = new_sess 1 demo_permissions demo_params c"
  have r: "registry_ok sr" by (simp add: sr_def registry_add_connection registry_ensure registry_server_new)
  have a: "subed_at NAME_AUDIO 1 sr" by (simp add: sr_def) code_simp
  have n: "noperms_of (demo_sess_env Linux) s0 = [NAME_POS, NAME_WINDOW_FOCUS]"
    by (simp add: s0_def noperms_of_def new_sess_def demo_permissions_def demo_sess_env_def peer_keyboard_enabled_def
        can_sub_clipboard_service_def clipboard_enabled_def audio_enabled_def)
  have f: "se_primary (demo_sess_env Linux) = 0" "ss_conn s0 = c" "ss_options_in_login s0 = None" "\<not> ss_services_subed s0"
    "ss_id s0 = 1" "ss_running s0"
    by (simp_all add: demo_sess_env_def s0_def new_sess_def demo_params_def)
  have l: "fst (after_logon (demo_sess_env Linux) True (\<lambda>_. False) (s0, server_new False 0))
      = (s0\<lparr>ss_services_subed := True, ss_auto_disconnect := get_auto_disconnect_timer (demo_sess_env Linux)\<rparr>, sr)"
    using assms n f by (simp add: after_logon_def update_scoped_login_options_def start_services_def try_sub_monitor_services_def is_remote_def
        try_add_primay_video_service_def sr_def)
  show ?thesis using a r names_distinct(1) f l unfolding s0_def [symmetric]
    by (cases "after_logon (demo_sess_env Linux) True (\<lambda>_. False) (s0, server_new False 0 :: unit server)")
      (auto simp: session_start_def go_on_def switch_permission_def modify_sess_def emit_def sub_service_def subed_subscribe
        can_sub_clipboard_service_def clipboard_enabled_def)
qed

lemma demo_desktop_login:
  "\<exists>c sh. login_run [(demo_env, LoginEv (demo_lr\<lparr>lr_union := PlainLogin\<rparr>))] (new_conn ''10.0.0.7'' (lit ''s'') (lit ''c'') False) demo_shared = (True, c, sh)
    \<and> cn_authorized c \<and> cn_auth_type c = Some Remote \<and> cn_file_transfer c = None \<and> \<not> cn_port_forward_socket c \<and> \<not> cn_view_camera c \<and> \<not> cn_terminal c"
proof -
  have "case login_run [(demo_env, LoginEv (demo_lr\<lparr>lr_union := PlainLogin\<rparr>))] (new_conn ''10.0.0.7'' (lit ''s'') (lit ''c'') False) demo_shared of
    (k, c, _) \<Rightarrow> k \<and> cn_authorized c \<and> cn_auth_type c = Some Remote
      \<and> cn_file_transfer c = None \<and> \<not> cn_port_forward_socket c \<and> \<not> cn_view_camera c \<and> \<not> cn_terminal c"
    by code_simp
  then show ?thesis by (auto simp del: login_run.simps split: prod.split_asm)
qed

lemma demo_fresh: "\<forall>n. \<not> subed_at n i (server_new False 0 :: unit server)"
  by (auto simp: subed_at_def server_new_def service_new_def is_subed_def split: option.splits dest!: map_of_SomeD)

lemma demo_one_way: "se_one_way_clipboard (demo_sess_env tg) = []"
  by (simp add: demo_sess_env_def)


end
