(* ===== verification/Session_End.thy ===== *)
theory Session_End
  imports Session_Subscriptions
begin

text \<open>
  The end of a session: whatever led to it, the connection is closed and gives back all it held, and a
  peer that falls silent brings it about.
\<close>

subsection \<open>Cleaning up\<close>

lemma snd_actions: "snd (actions [] st) = []" "snd (actions (f # fs) st) = snd (f st) @ snd (actions fs (fst (f st)))"
  by (simp_all split: prod.splits)

lemmas act_simps = fst_actions snd_actions guarded_def modify_sess_def emit_def desktop_def

lemma on_close_state:
  "snd (fst (on_close env reason lock st)) = snd st" "ss_closed (fst (fst (on_close env reason lock st)))"
  "ss_id (fst (fst (on_close env reason lock st))) = ss_id (fst st)"
  "authed_conn_type (fst (fst (on_close env reason lock st))) = authed_conn_type (fst st)"
  by (simp_all add: on_close_def act_simps authed_conn_type_def del: actions.simps)

lemma on_close_notifies:
  "\<not> ss_closed (fst st) \<Longrightarrow> \<exists>b. EfClosed reason b \<in> set (snd (on_close env reason lock st))"
  by (auto simp: on_close_def act_simps simp del: actions.simps)

lemma port_forward_end_state:
  "snd (fst (port_forward_end env err st)) = snd st" "ss_id (fst (fst (port_forward_end env err st))) = ss_id (fst st)"
  "authed_conn_type (fst (fst (port_forward_end env err st))) = authed_conn_type (fst st)"
  using on_close_state [of env err False "((fst st)\<lparr>ss_conn := (ss_conn (fst st))\<lparr>cn_port_forward_socket := False\<rparr>\<rparr>, snd st)"]
  by (simp_all add: port_forward_end_def fst_actions guarded_def modify_sess_def emit_def authed_conn_type_def del: actions.simps)

text \<open>The state after the end: the registry without the connection, and a closed session.\<close>

lemma session_end_state:
  "snd (fst (session_end env err st)) = remove_connection (ss_id (fst st)) (snd st)"
  "ss_closed (fst (fst (session_end env err st)))" "se_target env = Linux \<Longrightarrow> ss_pressed_modifiers (fst (fst (session_end env err st))) = {}"
  by (simp_all add: session_end_def act_simps on_close_state port_forward_end_state leave_registry_def drop_authed_def del: actions.simps)

lemma modifiers_authed [simp]: "authed_conn_type (s\<lparr>ss_pressed_modifiers := ks\<rparr>) = authed_conn_type s"
  by (simp add: authed_conn_type_def)

lemma session_end_effects:
  "se_privacy_on env = Some (ss_id (fst st)) \<Longrightarrow> EfTurnOffPrivacy \<in> set (snd (session_end env err st))"
  "cn_authorized (ss_conn (fst st)) \<Longrightarrow> EfNewTemporaryPassword \<in> set (snd (session_end env err st))"
  "authed_conn_type (fst st) \<in> {Some Remote, Some ViewCameraConn} \<Longrightarrow>
     {EfEncoder (Remove (ss_id (fst st))), EfQos (Close (se_instant env) (ss_id (fst st)))} \<subseteq> set (snd (session_end env err st))"
  by (auto simp: session_end_def act_simps on_close_state port_forward_end_state leave_registry_def drop_authed_def
      is_authed_remote_conn_def is_authed_view_camera_conn_def simp del: actions.simps)

lemma remove_connection_connections [simp]: "sr_connections (remove_connection i sr) = sr_connections sr - {i}"
  by (simp add: remove_connection_def on_services_def)



subsection \<open>Silent peers\<close>

text \<open>Only what arrives from the peer renews the time of the last sign of life.\<close>

definition from_peer :: "sess_event \<Rightarrow> bool" where
  "from_peer e = (case e of Peer _ \<Rightarrow> True | PeerUnparsed \<Rightarrow> True | _ \<Rightarrow> False)"

definition alive_at :: "nat \<Rightarrow> 'm sst \<Rightarrow> bool" where
  "alive_at r st \<longleftrightarrow> ss_last_recv (fst st) = r"

lemma keeps_alive_modify: "(\<And>s. ss_last_recv (f s) = ss_last_recv s) \<Longrightarrow> keeps (alive_at r) (\<lambda>_. True) (modify_sess f)"
  by (simp add: keeps_def wp_simps alive_at_def)

lemma keeps_alive_sub: "keeps (alive_at r) (\<lambda>_. True) (sub_service n g)"
  by (simp add: keeps_def wp_simps alive_at_def)

lemma keeps_alive_guarded: "keeps (alive_at r) (\<lambda>_. True) f \<Longrightarrow> keeps (alive_at r) (\<lambda>_. True) (guarded b f)"
  by (simp add: keeps_def wp_simps)

lemmas alive_intros = keeps_actions keeps_alive_modify keeps_alive_sub keeps_alive_guarded keeps_emit keeps_desktop

lemma on_close_alive: "keeps (alive_at r) (\<lambda>_. True) (on_close env reason lock)"
  unfolding on_close_def by (intro alive_intros) (simp add: alive_intros keeps_pure)

lemma close_no_retry_alive: "keeps (alive_at r) (\<lambda>_. True) (close_no_retry env reason what lock)"
  unfolding close_no_retry_def send_close_reason_no_retry_def by (intro alive_intros) (simp add: alive_intros on_close_alive)

lemma switch_privacy_alive: "keeps (alive_at r) (\<lambda>_. True) (switch_privacy env enabled)"
  by (auto simp: keeps_def wp_def alive_at_def switch_privacy_def Let_def act_simps split: option.splits simp del: actions.simps)

lemma switch_permission_alive: "keeps (alive_at r) (\<lambda>_. True) (switch_permission env name enabled)"
  unfolding switch_permission_def sub_audio_def by (simp add: alive_intros switch_privacy_alive)

lemma handle_voice_call_alive: "keeps (alive_at r) (\<lambda>_. True) (handle_voice_call accepted)"
  by (auto simp: keeps_def wp_def alive_at_def handle_voice_call_def act_simps sub_service_def split: option.splits simp del: actions.simps)

lemma close_voice_call_alive: "keeps (alive_at r) (\<lambda>_. True) (actions [close_voice_call, emit es])"
  unfolding close_voice_call_def by (intro alive_intros) (simp add: alive_intros)

lemma on_local_close_alive: "keeps (alive_at r) (\<lambda>_. True) (on_local_close env)"
  unfolding on_local_close_def by (intro alive_intros) (simp add: alive_intros close_no_retry_alive)

lemma alive_result:
  "keeps (alive_at r) (\<lambda>_. True) f \<Longrightarrow> alive_at r st \<Longrightarrow> alive_at r (fst (snd (go_on f st)))"
  "keeps (alive_at r) (\<lambda>_. True) f \<Longrightarrow> alive_at r st \<Longrightarrow> alive_at r (fst (snd (leave f st)))"
  by (cases st, simp add: go_on_def leave_def keeps_def wp_def)+

lemma emit_alive: "keeps (alive_at r) (\<lambda>_. True) (emit es)" "keeps (alive_at r) (\<lambda>_. True) (\<lambda>st. (st, f st))"
  by (rule keepsI, simp add: wp_def emit_def)+

lemma send_or_close_alive: "alive_at r st \<Longrightarrow> alive_at r (fst (snd (send_or_close env err e st)))"
  unfolding send_or_close_def by (auto intro: alive_result emit_alive on_close_alive split: option.splits)

lemma then_send_alive: "alive_at r (fst (f st)) \<Longrightarrow> alive_at r (fst (snd (then_send f env err e st)))"
  using send_or_close_alive [of r "fst (f st)" env err e]
  by (cases "f st", cases "send_or_close env err e (fst (f st))") (simp add: then_send_def)

lemma service_out_alive: "alive_at r st \<Longrightarrow> alive_at r (fst (snd (on_service_out env latency m err st)))"
proof (cases m)
  case (SmCursorPosition x y)
  assume "alive_at r st"
  then have "alive_at r (fst (desktop env (guarded ss_follow_remote_cursor (handle_cursor_switch_display env x y)) st))"
    by (simp add: desktop_def guarded_def handle_cursor_switch_display_def emit_def)
  with SmCursorPosition show ?thesis by (simp add: then_send_alive)
next
  case SmPeerInfo
  assume "alive_at r st"
  then have "alive_at r (fst (refresh_video_display (\<lambda>_. None) st))" by (simp add: refresh_video_display_def alive_at_def)
  with SmPeerInfo show ?thesis by (simp add: then_send_alive)
qed (auto intro: alive_result emit_alive close_no_retry_alive send_or_close_alive)

lemma delay_tick_alive: "alive_at r st \<Longrightarrow> alive_at r (fst (snd (on_delay_tick env st)))"
  unfolding on_delay_tick_def by (auto intro!: alive_result on_close_alive keeps_actions keeps_alive_guarded keeps_alive_modify emit_alive simp del: actions.simps)

lemma second_alive: "alive_at r st \<Longrightarrow> alive_at r (fst (snd (on_second env q st)))"
  by (auto simp: on_second_def alive_at_def intro: alive_result [unfolded alive_at_def] close_no_retry_alive [unfolded alive_at_def] split: prod.splits)

lemma file_tick_alive: "alive_at r st \<Longrightarrow> alive_at r (fst (snd (on_file_tick env err st)))"
  by (auto simp: on_file_tick_def alive_at_def intro: alive_result [unfolded alive_at_def] on_close_alive [unfolded alive_at_def] split: option.splits prod.splits)

lemma video_out_alive: "alive_at r st \<Longrightarrow> alive_at r (fst (snd (on_video_out env d err st)))"
  unfolding on_video_out_def by (rule then_send_alive) simp

lemma cm_result_alive: "keeps (alive_at r) (\<lambda>_. True) (on_cm_result env c)"
  by (auto simp: keeps_def wp_def alive_at_def on_cm_result_def split: prod.splits)

lemma authorize_alive: "alive_at r st \<Longrightarrow> alive_at r (fst (snd (on_reauthorize st)))"
  by (simp add: on_reauthorize_def alive_at_def Let_def)

lemmas event_alive_intros = alive_result emit_alive on_close_alive close_no_retry_alive switch_permission_alive handle_voice_call_alive
  close_voice_call_alive on_local_close_alive service_out_alive delay_tick_alive second_alive file_tick_alive video_out_alive
  cm_result_alive authorize_alive

text \<open>No event but an arrival renews it, and none of them panics.\<close>

lemma event_alive:
  assumes "\<not> from_peer e" and "alive_at r st" and "on_event env e st = Ret x"
  shows "alive_at r (fst (snd x))"
proof (cases e)
  case (LocalChat words)
  then have "x = go_on (actions [emit [EfSendChat words], modify_sess (\<lambda>s. s\<lparr>ss_chat_unanswered := False\<rparr>)]) st" using assms(3) by simp
  then show ?thesis using assms(2) by (simp only:) (intro alive_result alive_intros, simp add: alive_intros, assumption)
qed (use assms in \<open>auto simp: from_peer_def simp del: actions.simps intro: event_alive_intros split: if_split_asm\<close>)

lemma event_returns: "\<not> from_peer e \<Longrightarrow> on_event env e st \<noteq> Panic"
  by (cases e) (simp_all add: from_peer_def)

lemma quiet_step:
  assumes "\<not> from_peer e" and "alive_at r st"
  shows "\<exists>st' hist'. sess_step (env, e) (st, hist) = Ret (st', hist') \<and> alive_at r st' \<and> (\<not> ss_running (fst st) \<longrightarrow> \<not> ss_running (fst st'))"
proof (cases "ss_running (fst st)")
  case True
  obtain go st1 out where r: "on_event env e st = Ret (go, st1, out)"
    using event_returns [OF assms(1), of env st] by (cases "on_event env e st") auto
  then show ?thesis using event_alive [OF assms r] True by (simp add: alive_at_def)
qed (use assms in simp)

interpretation quiet_peer: total_invariant sess_step "\<lambda>(env, e). \<not> from_peer e" "\<lambda>x. alive_at r (fst x)" for r
proof unfold_locales
  fix x :: "sess_env \<times> sess_event" and y y' :: "'a loop_state"
  assume a: "case x of (env, e) \<Rightarrow> \<not> from_peer e" "alive_at r (fst y)"
  obtain env e where x: "x = (env, e)" by (cases x)
  from quiet_step [of e r "fst y" env "snd y"] a obtain st hist where "sess_step x y = Ret (st, hist)" "alive_at r st" by (auto simp: x)
  then show "sess_step x y \<noteq> Panic" and "sess_step x y = Ret y' \<Longrightarrow> alive_at r (fst y')" by auto
qed

lemma rust_run_append: "rust_run step (es @ fs) s = rust_bind (rust_run step es s) (rust_run step fs)"
proof (induction es arbitrary: s)
  case (Cons e es)
  then show ?case by (cases "step e s") simp_all
qed simp

text \<open>
  C33. A silent peer is disconnected: from any state of a session, let thirty seconds pass in which nothing arrives from the
  peer while the local user, the services, the connection manager and the timers do what they like. The delay timer then ends
  the loop: the run returns, the loop no longer runs, and the end of the session closes the connection.
\<close>

theorem silent_peer_disconnected:
  assumes "\<forall>(env, e) \<in> set es. \<not> from_peer e" and "se_instant env \<ge> ss_last_recv (fst st) + SEC30"
  shows "\<exists>st' hist'. rust_run sess_step (es @ [(env, DelayTick)]) (st, hist) = Ret (st', hist') \<and> \<not> ss_running (fst st')
    \<and> ss_closed (fst (fst (session_end env' pf_err st')))"
proof -
  define r where "r = ss_last_recv (fst st)"
  have "list_all (\<lambda>(env, e). \<not> from_peer e) es" "alive_at r (fst (st, hist))" using assms(1) by (auto simp: list_all_iff alive_at_def r_def)
  then obtain st1 hist1 where run: "rust_run sess_step es (st, hist) = Ret (st1, hist1)" and a: "alive_at r st1"
    using quiet_peer.run_returns [of es r "(st, hist)"] by auto
  have "se_instant env - ss_last_recv (fst st1) \<ge> SEC30" using a assms(2) by (simp add: alive_at_def r_def)
  then have "on_delay_tick env st1 = leave (on_close env ''Timeout'' True) st1" by (simp only: on_delay_tick_def if_True)
  then have "\<exists>st' hist'. sess_step (env, DelayTick) (st1, hist1) = Ret (st', hist') \<and> \<not> ss_running (fst st')"
    by (cases st1, cases "on_close env ''Timeout'' True st1") (auto simp: leave_def)
  then obtain st' hist' where "sess_step (env, DelayTick) (st1, hist1) = Ret (st', hist')" "\<not> ss_running (fst st')" by blast
  then show ?thesis by (auto simp: rust_run_append run session_end_state(2) simp del: sess_step.simps)
qed

theorem silent_peer_disconnected_witness:
  "\<exists>(st' :: unit sst) hist'. rust_run sess_step
       ([(demo_sess_env Linux, LocalChat ''hi'')] @ [((demo_sess_env Linux)\<lparr>se_instant := 30000\<rparr>, DelayTick)])
       ((new_sess 1 demo_permissions demo_params (new_conn ''10.0.0.7'' [] [] False), server_new False 0), []) = Ret (st', hist')
     \<and> \<not> ss_running (fst st') \<and> ss_closed (fst (fst (session_end (demo_sess_env Linux) [] st')))"
  by (rule silent_peer_disconnected) (simp_all add: from_peer_def new_sess_def demo_params_def SEC30_def)

end
