(* ===== verification/Terminal_Output.thy ===== *)
theory Terminal_Output
  imports Secrets
begin

text \<open>
  The output of a remote terminal (\<^verbatim>\<open>src/server/terminal_service.rs\<close>): the buffer of recent lines that is
  replayed to a client that comes back, and the accumulator that keeps the chunks read from the
  pseudo-terminal from ending inside a UTF-8 character.
\<close>

subsection \<open>The buffer of lines\<close>

definition MAX_OUTPUT_BUFFER_SIZE :: nat where "MAX_OUTPUT_BUFFER_SIZE = 1024 * 1024"
definition MAX_BUFFER_LINES :: nat where "MAX_BUFFER_LINES = 10000"

abbreviation newline :: u8 where "newline \<equiv> 10"

record output_buffer =
  ob_lines :: "bytes list"
  ob_total_size :: nat
  ob_last_line_incomplete :: bool

definition buffer_new :: output_buffer where
  "buffer_new = \<lparr>ob_lines = [], ob_total_size = 0, ob_last_line_incomplete = False\<rparr>"

definition find_newline :: "bytes \<Rightarrow> nat option" where
  "find_newline bs = (if newline \<in> set bs then Some (length (takeWhile (\<lambda>b. b \<noteq> newline) bs)) else None)"

text \<open>\<^verbatim>\<open>slice::split\<close> at newlines: always at least one piece.\<close>

fun split_lines :: "bytes \<Rightarrow> bytes list" where
  "split_lines [] = [[]]"
| "split_lines (b # bs) = (if b = newline then [] # split_lines bs else (b # hd (split_lines bs)) # tl (split_lines bs))"

definition push_line :: "nat \<Rightarrow> bool \<Rightarrow> nat \<times> bytes \<Rightarrow> output_buffer \<Rightarrow> output_buffer" where
  "push_line n ends_with_newline p ob =
     (case p of (i, line) \<Rightarrow>
        let ob = (if i = n - 1 \<and> \<not> ends_with_newline \<and> line \<noteq> [] then ob\<lparr>ob_last_line_incomplete := True\<rparr> else ob)
        in if line \<noteq> [] \<or> i < n - 1 then
             let line_data = (if i < n - 1 \<or> ends_with_newline then line @ [newline] else line)
             in ob\<lparr>ob_total_size := ob_total_size ob + length line_data, ob_lines := ob_lines ob @ [line_data]\<rparr>
           else ob)"

definition push_lines :: "bytes \<Rightarrow> output_buffer \<Rightarrow> output_buffer" where
  "push_lines remaining ob =
     (let ends_with_newline = (remaining \<noteq> [] \<and> List.last remaining = newline); ls = split_lines remaining
      in fold (push_line (length ls) ends_with_newline) (enumerate 0 ls) ob)"

fun trim_lines :: "bytes list \<Rightarrow> nat \<Rightarrow> bool \<Rightarrow> output_buffer" where
  "trim_lines [] total_size incomplete =
     (if total_size > MAX_OUTPUT_BUFFER_SIZE then \<lparr>ob_lines = [], ob_total_size = 0, ob_last_line_incomplete = False\<rparr>
      else \<lparr>ob_lines = [], ob_total_size = total_size, ob_last_line_incomplete = incomplete\<rparr>)"
| "trim_lines (removed # ls) total_size incomplete =
     (if total_size > MAX_OUTPUT_BUFFER_SIZE \<or> Suc (length ls) > MAX_BUFFER_LINES then
        trim_lines ls
          (if length removed > total_size then sum_list (map length ls) else total_size - length removed)
          (if ls = [] then False else incomplete)
      else \<lparr>ob_lines = removed # ls, ob_total_size = total_size, ob_last_line_incomplete = incomplete\<rparr>)"

definition trim_buffer :: "output_buffer \<Rightarrow> output_buffer" where
  "trim_buffer ob = trim_lines (ob_lines ob) (ob_total_size ob) (ob_last_line_incomplete ob)"

definition extend_last :: "bytes \<Rightarrow> output_buffer \<Rightarrow> output_buffer" where
  "extend_last bs ob =
     ob\<lparr>ob_lines := butlast (ob_lines ob) @ [List.last (ob_lines ob) @ bs], ob_total_size := ob_total_size ob + length bs\<rparr>"

definition buffer_append :: "bytes \<Rightarrow> output_buffer \<Rightarrow> output_buffer" where
  "buffer_append data ob =
     (if data = [] then ob
      else if ob_last_line_incomplete ob \<and> ob_lines ob \<noteq> [] then
        (case find_newline data of
           Some p \<Rightarrow>
             trim_buffer (push_lines (drop (p + 1) data) ((extend_last (take (p + 1) data) ob)\<lparr>ob_last_line_incomplete := False\<rparr>))
         | None \<Rightarrow> extend_last data ob)
      else trim_buffer (push_lines data ob))"

text \<open>The bytes from an offset on, moved forward over at most three UTF-8 continuation bytes.\<close>

fun align_utf8 :: "bytes \<Rightarrow> nat \<Rightarrow> nat \<Rightarrow> nat" where
  "align_utf8 line offset 0 = offset"
| "align_utf8 line offset (Suc k) =
     (if offset < length line \<and> cont (line ! offset) then align_utf8 line (Suc offset) k else offset)"

fun recent_chunks :: "nat \<Rightarrow> bytes list \<Rightarrow> nat \<Rightarrow> bytes list" where
  "recent_chunks max_bytes [] taken = []"
| "recent_chunks max_bytes (line # older) taken =
     (if taken + length line > max_bytes then
        (if taken = 0 \<and> length line > max_bytes then
           let offset = align_utf8 line (length line - max_bytes) 3
           in if offset < length line then [drop offset line] else []
         else [])
      else line # recent_chunks max_bytes older (taken + length line))"

definition get_recent :: "nat \<Rightarrow> output_buffer \<Rightarrow> bytes" where
  "get_recent max_bytes ob =
     (if max_bytes = 0 then [] else concat (rev (recent_chunks max_bytes (rev (ob_lines ob)) 0)))"

subsection \<open>What the buffer holds\<close>

abbreviation buffered :: "output_buffer \<Rightarrow> bytes" where
  "buffered ob \<equiv> concat (ob_lines ob)"

text \<open>Every line ends with its only newline, apart from the last one if it is incomplete.\<close>

definition whole_line :: "bytes \<Rightarrow> bool" where
  "whole_line l \<longleftrightarrow> (\<exists>k. l = k @ [newline] \<and> newline \<notin> set k)"

definition lines_ok :: "bool \<Rightarrow> bytes list \<Rightarrow> bool" where
  "lines_ok incomplete ls \<longleftrightarrow>
     (if incomplete then ls \<noteq> [] \<and> list_all whole_line (butlast ls) \<and> List.last ls \<noteq> [] \<and> newline \<notin> set (List.last ls)
      else list_all whole_line ls)"

definition buffer_ok :: "output_buffer \<Rightarrow> bool" where
  "buffer_ok ob \<longleftrightarrow> ob_total_size ob = length (buffered ob) \<and> lines_ok (ob_last_line_incomplete ob) (ob_lines ob)"

lemma lines_ok_append: "list_all whole_line ks \<Longrightarrow> lines_ok inc ls \<Longrightarrow> lines_ok inc (ks @ ls)"
  by (auto simp: lines_ok_def butlast_append)

lemma lines_ok_drop: "k < length ls \<Longrightarrow> lines_ok inc ls \<Longrightarrow> lines_ok inc (drop k ls)"
  by (auto simp: lines_ok_def list_all_iff butlast_drop dest: in_set_dropD)

lemma lines_ok_incomplete: "lines_ok True ls \<Longrightarrow> \<exists>ks l. ls = ks @ [l] \<and> list_all whole_line ks \<and> l \<noteq> [] \<and> newline \<notin> set l"
  by (auto simp: lines_ok_def intro: append_butlast_last_id [symmetric] exI [of _ "butlast ls"] exI [of _ "List.last ls"])

lemma split_lines_nonempty [simp]: "split_lines bs \<noteq> []"
  by (cases bs) simp_all

lemma split_lines_no_newline: "newline \<notin> set bs \<Longrightarrow> split_lines bs = [bs]"
  by (induction bs) auto

lemma split_lines_newline: "newline \<notin> set k \<Longrightarrow> split_lines (k @ newline # bs) = k # split_lines bs"
  by (induction k) auto

text \<open>Pushing the pieces of the remaining data one after the other.\<close>

lemma fold_push_lines:
  assumes "i + length ls = n" and "e \<longleftrightarrow> remaining \<noteq> [] \<and> List.last remaining = newline" and "ls = split_lines remaining"
    and "\<not> ob_last_line_incomplete ob"
  shows "\<exists>new inc. fold (push_line n e) (enumerate i ls) ob
      = ob\<lparr>ob_lines := ob_lines ob @ new, ob_total_size := ob_total_size ob + length remaining, ob_last_line_incomplete := inc\<rparr>
    \<and> concat new = remaining \<and> lines_ok inc new"
  using assms
proof (induction remaining arbitrary: i ls ob rule: length_induct)
  case (1 remaining)
  show ?case
  proof (cases "newline \<in> set remaining")
    case False
    then have ls: "ls = [remaining]" using 1 by (simp add: split_lines_no_newline)
    have e: "\<not> e" using 1(3) False by (metis last_in_set)
    have n: "n = Suc i" using 1(2) ls by simp
    show ?thesis
    proof (cases "remaining = []")
      case True
      then show ?thesis using 1(5) ls e n by (intro exI [of _ "[]"] exI [of _ False]) (simp add: push_line_def lines_ok_def)
    next
      case nonempty: False
      then show ?thesis using False ls e n by (intro exI [of _ "[remaining]"] exI [of _ True]) (simp add: push_line_def Let_def lines_ok_def)
    qed
  next
    case True
    then obtain k bs where r: "remaining = k @ newline # bs" and k: "newline \<notin> set k" by (meson split_list_first)
    then have ls: "ls = k # split_lines bs" using 1 by (simp add: split_lines_newline)
    then have n: "i < n - 1" using 1(2) by (cases "split_lines bs") auto
    define ob1 where "ob1 = ob\<lparr>ob_lines := ob_lines ob @ [k @ [newline]], ob_total_size := ob_total_size ob + Suc (length k)\<rparr>"
    have p: "push_line n e (i, k) ob = ob1" using n by (simp add: push_line_def ob1_def Let_def)
    show ?thesis
    proof (cases "bs = []")
      case True
      then have "fold (push_line n e) (enumerate i ls) ob = ob1"
        using p 1(2,3) r ls by (simp add: push_line_def)
      then show ?thesis using True k r 1(5)
        by (intro exI [of _ "[k @ [newline]]"] exI [of _ False]) (auto simp: ob1_def whole_line_def lines_ok_def)
    next
      case False
      then have e: "e \<longleftrightarrow> bs \<noteq> [] \<and> List.last bs = newline" using 1(3) r by simp
      have "length bs < length remaining" using r by simp
      from 1(1) [rule_format, OF this, of "Suc i" "split_lines bs" ob1] obtain new inc where
        f: "fold (push_line n e) (enumerate (Suc i) (split_lines bs)) ob1
          = ob1\<lparr>ob_lines := ob_lines ob1 @ new, ob_total_size := ob_total_size ob1 + length bs, ob_last_line_incomplete := inc\<rparr>"
        and new: "concat new = bs" "lines_ok inc new"
        using 1(2,5) ls e by (auto simp: ob1_def)
      have "lines_ok inc ((k @ [newline]) # new)"
        using lines_ok_append [of "[k @ [newline]]" inc new] new(2) k by (auto simp: whole_line_def)
      then show ?thesis using f new(1) p r ls
        by (intro exI [of _ "(k @ [newline]) # new"] exI [of _ inc]) (simp add: ob1_def)
    qed
  qed
qed

lemma push_lines_ok:
  assumes "\<not> ob_last_line_incomplete ob" and "buffer_ok ob"
  shows "buffer_ok (push_lines data ob) \<and> buffered (push_lines data ob) = buffered ob @ data"
proof -
  have "\<exists>new inc. push_lines data ob
      = ob\<lparr>ob_lines := ob_lines ob @ new, ob_total_size := ob_total_size ob + length data, ob_last_line_incomplete := inc\<rparr>
    \<and> concat new = data \<and> lines_ok inc new"
    unfolding push_lines_def Let_def by (rule fold_push_lines [OF _ refl refl assms(1)]) simp
  then obtain new inc where f: "push_lines data ob
      = ob\<lparr>ob_lines := ob_lines ob @ new, ob_total_size := ob_total_size ob + length data, ob_last_line_incomplete := inc\<rparr>"
    and new: "concat new = data" "lines_ok inc new" by blast
  have "list_all whole_line (ob_lines ob)" using assms by (simp add: buffer_ok_def lines_ok_def)
  from lines_ok_append [OF this new(2)] f new(1) assms(2) show ?thesis by (simp add: buffer_ok_def)
qed

text \<open>Trimming drops the oldest lines, as few as possible.\<close>

definition fits :: "bytes list \<Rightarrow> bool" where
  "fits ls \<longleftrightarrow> length (concat ls) \<le> MAX_OUTPUT_BUFFER_SIZE \<and> length ls \<le> MAX_BUFFER_LINES"

lemma trim_lines_drops:
  assumes "n = length (concat ls)"
  shows "\<exists>k \<le> length ls. trim_lines ls n inc
      = \<lparr>ob_lines = drop k ls, ob_total_size = length (concat (drop k ls)), ob_last_line_incomplete = (if k > 0 \<and> k = length ls then False else inc)\<rparr>
    \<and> fits (drop k ls) \<and> (\<forall>j < k. \<not> fits (drop j ls))"
  using assms
proof (induction ls arbitrary: n inc)
  case Nil
  then show ?case by (simp add: fits_def MAX_OUTPUT_BUFFER_SIZE_def)
next
  case (Cons l ls)
  show ?case
  proof (cases "fits (l # ls)")
    case True
    then show ?thesis using Cons.prems by (intro exI [of _ 0]) (auto simp: fits_def)
  next
    case False
    then have t: "trim_lines (l # ls) n inc = trim_lines ls (length (concat ls)) (if ls = [] then False else inc)"
      using Cons.prems by (auto simp: fits_def)
    from Cons.IH [OF refl] obtain k where k: "k \<le> length ls" "fits (drop k ls)" "\<forall>j < k. \<not> fits (drop j ls)"
      "trim_lines ls (length (concat ls)) (if ls = [] then False else inc) = \<lparr>ob_lines = drop k ls, ob_total_size = length (concat (drop k ls)),
         ob_last_line_incomplete = (if k > 0 \<and> k = length ls then False else if ls = [] then False else inc)\<rparr>"
      by blast
    have "\<not> fits (drop j (l # ls))" if "j < Suc k" for j using that False k(3) by (cases j) auto
    with k t show ?thesis by (intro exI [of _ "Suc k"]) auto
  qed
qed

lemma trim_buffer_ok:
  assumes "buffer_ok ob"
  shows "buffer_ok (trim_buffer ob) \<and> suffix (buffered (trim_buffer ob)) (buffered ob) \<and> fits (ob_lines (trim_buffer ob))"
proof -
  from trim_lines_drops [of "ob_total_size ob" "ob_lines ob" "ob_last_line_incomplete ob"] assms obtain k where
    k: "k \<le> length (ob_lines ob)" "fits (drop k (ob_lines ob))"
    and t: "trim_buffer ob = \<lparr>ob_lines = drop k (ob_lines ob), ob_total_size = length (concat (drop k (ob_lines ob))),
      ob_last_line_incomplete = (if k > 0 \<and> k = length (ob_lines ob) then False else ob_last_line_incomplete ob)\<rparr>"
    by (auto simp: trim_buffer_def buffer_ok_def)
  have "suffix (concat (drop k (ob_lines ob))) (buffered ob)"
    by (metis append_take_drop_id concat_append suffix_def)
  moreover have "buffer_ok (trim_buffer ob)"
  proof (cases "k < length (ob_lines ob)")
    case True
    then show ?thesis using t lines_ok_drop [OF True] assms by (simp add: buffer_ok_def)
  next
    case False
    then show ?thesis using t k(1) assms by (cases "k = 0") (auto simp: buffer_ok_def lines_ok_def)
  qed
  ultimately show ?thesis using t k(2) by simp
qed

lemma extend_last_ok:
  assumes "buffer_ok ob" and "ob_last_line_incomplete ob"
  shows "buffered (extend_last bs ob) = buffered ob @ bs"
    and "newline \<notin> set bs \<Longrightarrow> buffer_ok (extend_last bs ob)"
    and "bs = k @ [newline] \<Longrightarrow> newline \<notin> set k \<Longrightarrow> buffer_ok ((extend_last bs ob)\<lparr>ob_last_line_incomplete := False\<rparr>)"
proof -
  from assms obtain ls l where l: "ob_lines ob = ls @ [l]" "list_all whole_line ls" "l \<noteq> []" "newline \<notin> set l"
    by (auto simp: buffer_ok_def dest: lines_ok_incomplete)
  then show "buffered (extend_last bs ob) = buffered ob @ bs" by (simp add: extend_last_def)
  show "buffer_ok (extend_last bs ob)" if "newline \<notin> set bs"
    using l assms that by (auto simp: buffer_ok_def extend_last_def lines_ok_def)
  show "buffer_ok ((extend_last bs ob)\<lparr>ob_last_line_incomplete := False\<rparr>)" if "bs = k @ [newline]" "newline \<notin> set k"
    using l assms that by (auto simp: buffer_ok_def extend_last_def lines_ok_def whole_line_def intro: exI [of _ "l @ k"])
qed

lemma find_newline_split:
  assumes "find_newline data = Some p"
  shows "\<exists>k. take (p + 1) data = k @ [newline] \<and> newline \<notin> set k"
proof -
  from assms obtain k bs where d: "data = k @ newline # bs" "newline \<notin> set k"
    by (auto simp: find_newline_def split: if_splits dest: split_list_first)
  then have "takeWhile (\<lambda>b. b \<noteq> newline) data = k" by (simp add: takeWhile_tail takeWhile_append)
  with assms d show ?thesis by (auto simp: find_newline_def split: if_splits)
qed

text \<open>Appending keeps the newest output, and within the limits unless an unfinished line just goes on.\<close>

lemma buffer_append_ok:
  assumes "buffer_ok ob"
  shows "buffer_ok (buffer_append data ob) \<and> suffix (buffered (buffer_append data ob)) (buffered ob @ data)
    \<and> (data \<noteq> [] \<and> (newline \<in> set data \<or> \<not> ob_last_line_incomplete ob) \<longrightarrow> fits (ob_lines (buffer_append data ob)))"
proof -
  consider (empty) "data = []" | (goes_on) "data \<noteq> []" "ob_last_line_incomplete ob" "find_newline data = None"
    | (ends) p where "data \<noteq> []" "ob_last_line_incomplete ob" "find_newline data = Some p"
    | (fresh) "data \<noteq> []" "\<not> ob_last_line_incomplete ob"
    by (cases "find_newline data") auto
  then show ?thesis
  proof cases
    case empty
    then show ?thesis using assms by (simp add: buffer_append_def)
  next
    case goes_on
    then have "newline \<notin> set data" "ob_lines ob \<noteq> []" using assms by (auto simp: find_newline_def buffer_ok_def lines_ok_def split: if_splits)
    then show ?thesis using goes_on extend_last_ok [OF assms goes_on(2)] by (simp add: buffer_append_def)
  next
    case ends
    then obtain k where k: "take (p + 1) data = k @ [newline]" "newline \<notin> set k" using find_newline_split by blast
    define ob1 where "ob1 = (extend_last (take (p + 1) data) ob)\<lparr>ob_last_line_incomplete := False\<rparr>"
    have "buffer_ok ob1" "buffered ob1 = buffered ob @ take (p + 1) data"
      using extend_last_ok [OF assms ends(2)] k unfolding ob1_def by simp_all
    with push_lines_ok [of ob1 "drop (p + 1) data"] trim_buffer_ok [of "push_lines (drop (p + 1) data) ob1"]
    have "buffer_ok (trim_buffer (push_lines (drop (p + 1) data) ob1)) \<and> suffix (buffered (trim_buffer (push_lines (drop (p + 1) data) ob1))) (buffered ob @ data)
      \<and> fits (ob_lines (trim_buffer (push_lines (drop (p + 1) data) ob1)))"
      by (simp add: ob1_def)
    moreover have "buffer_append data ob = trim_buffer (push_lines (drop (p + 1) data) ob1)"
      using ends assms by (auto simp: buffer_append_def ob1_def buffer_ok_def lines_ok_def)
    ultimately show ?thesis by simp
  next
    case fresh
    then show ?thesis using push_lines_ok [OF fresh(2) assms, of data] trim_buffer_ok [of "push_lines data ob"] by (simp add: buffer_append_def)
  qed
qed

text \<open>An unfinished line that goes on is never trimmed: the size limit does not hold for it.\<close>

lemma unfinished_line_unbounded:
  "\<exists>chunks. ob_total_size (fold buffer_append chunks buffer_new) > n"
proof (intro exI)
  let ?b = "\<lambda>m. \<lparr>ob_lines = [replicate (Suc m) 65], ob_total_size = Suc m, ob_last_line_incomplete = True\<rparr>"
  have "buffer_append [65] buffer_new = ?b 0"
    by (simp add: buffer_append_def buffer_new_def push_lines_def push_line_def trim_buffer_def MAX_OUTPUT_BUFFER_SIZE_def MAX_BUFFER_LINES_def)
  moreover have "fold buffer_append (replicate k [65]) (?b m) = ?b (m + k)" for k m
  proof (induction k arbitrary: m)
    case (Suc k)
    have "buffer_append [65] (?b m) = ?b (Suc m)"
      by (simp add: buffer_append_def find_newline_def extend_last_def replicate_append_same)
    then have "fold buffer_append (replicate (Suc k) [65]) (?b m) = fold buffer_append (replicate k [65]) (?b (Suc m))"
      by (simp only: replicate_Suc fold_simps)
    then show ?case using Suc.IH [of "Suc m"] by (simp only: add_Suc add_Suc_right)
  qed simp
  ultimately have "fold buffer_append (replicate (Suc n) [65]) buffer_new = ?b n" by (simp only: replicate_Suc fold_simps add_0)
  then show "ob_total_size (fold buffer_append (replicate (Suc n) [65]) buffer_new) > n" by simp
qed

lemma align_utf8_ge: "offset \<le> align_utf8 line offset k"
  by (induction line offset k rule: align_utf8.induct) auto

lemma recent_chunks_suffix:
  "taken \<le> max_bytes \<Longrightarrow> suffix (concat (rev (recent_chunks max_bytes ls taken))) (concat (rev ls))
     \<and> taken + length (concat (rev (recent_chunks max_bytes ls taken))) \<le> max_bytes"
proof (induction max_bytes ls taken rule: recent_chunks.induct)
  case (2 max_bytes line older taken)
  show ?case
  proof (cases "taken + length line > max_bytes")
    case True
    have "suffix (drop n line) (concat (rev older) @ line)" for n
      by (metis suffix_append suffix_drop suffix_order.trans suffix_def append_assoc)
    moreover have "length (drop (align_utf8 line (length line - max_bytes) 3) line) \<le> max_bytes"
      using align_utf8_ge [of "length line - max_bytes" line 3] by simp
    ultimately show ?thesis using True 2(2) by (auto simp: Let_def)
  next
    case False
    then show ?thesis using 2 by (auto simp: suffix_def)
  qed
qed simp

lemma recent_chunks_all:
  "taken + length (concat ls) \<le> max_bytes \<Longrightarrow> recent_chunks max_bytes ls taken = ls"
  by (induction max_bytes ls taken rule: recent_chunks.induct) auto

lemma get_recent_suffix: "suffix (get_recent max_bytes ob) (buffered ob) \<and> length (get_recent max_bytes ob) \<le> max_bytes"
  using recent_chunks_suffix [of 0 max_bytes "rev (ob_lines ob)"] by (simp add: get_recent_def)

lemma length_concat_rev: "length (concat (rev ls)) = length (concat ls)"
  by (induction ls) simp_all

lemma get_recent_all: "length (buffered ob) \<le> max_bytes \<Longrightarrow> get_recent max_bytes ob = buffered ob"
  using recent_chunks_all [of 0 "rev (ob_lines ob)" max_bytes] by (cases "max_bytes = 0") (auto simp: get_recent_def length_concat_rev)

lemma fold_append_ok:
  "buffer_ok ob \<Longrightarrow> buffer_ok (fold buffer_append chunks ob) \<and> suffix (buffered (fold buffer_append chunks ob)) (buffered ob @ concat chunks)"
proof (induction chunks arbitrary: ob)
  case (Cons c cs)
  from buffer_append_ok [OF Cons.prems, of c] have 1: "buffer_ok (buffer_append c ob)" "suffix (buffered (buffer_append c ob)) (buffered ob @ c)" by auto
  from 1(2) have "suffix (buffered (buffer_append c ob) @ concat cs) (buffered ob @ concat (c # cs))" by (auto simp: suffix_def)
  with Cons.IH [OF 1(1)] show ?case by (auto intro: suffix_order.trans)
qed simp

lemma buffer_new_ok: "buffer_ok buffer_new"
  by (simp add: buffer_ok_def buffer_new_def lines_ok_def)

subsection \<open>Chunks that end between characters\<close>

definition utf8_seq_len :: "u8 \<Rightarrow> nat option" where
  "utf8_seq_len b =
     (if b AND 0xE0 = 0xC0 then Some 2 else if b AND 0xF0 = 0xE0 then Some 3 else if b AND 0xF8 = 0xF0 then Some 4 else None)"

text \<open>The last three bytes from the end; \<open>d\<close> counts the bytes from the one looked at to the end.\<close>

fun scan_back :: "nat \<Rightarrow> bytes \<Rightarrow> nat \<Rightarrow> nat" where
  "scan_back len [] d = len"
| "scan_back len (b # before) d =
     (if b AND 0x80 = 0 then len
      else if b AND 0xC0 = 0x80 then scan_back len before (Suc d)
      else case utf8_seq_len b of
        None \<Rightarrow> len
      | Some n \<Rightarrow> if d \<ge> n then len else len - d)"

definition find_utf8_split_point :: "bytes \<Rightarrow> nat" where
  "find_utf8_split_point buf = (if buf = [] then 0 else scan_back (length buf) (take 3 (rev buf)) 1)"

definition push_chunk :: "bytes \<Rightarrow> bytes \<Rightarrow> bytes option \<times> bytes" where
  "push_chunk chunk remainder =
     (if chunk = [] then (None, remainder)
      else
        let had_remainder = (remainder \<noteq> []);
            d = (if had_remainder then remainder @ chunk else chunk);
            split = find_utf8_split_point d
        in if split = length d then (Some d, [])
           else if \<not> had_remainder \<and> split > 0 \<and> \<not> utf8_valid (take split d) then (Some d, remainder)
           else (if take split d = [] then None else Some (take split d), drop split d))"

definition finish_chunks :: "bytes \<Rightarrow> bytes option \<times> bytes" where
  "finish_chunks remainder = (if remainder = [] then (None, remainder) else (Some remainder, []))"

fun push_all :: "bytes list \<Rightarrow> bytes \<Rightarrow> bytes list \<times> bytes" where
  "push_all [] remainder = ([], remainder)"
| "push_all (c # cs) remainder =
     (case push_chunk c remainder of (out, r) \<Rightarrow>
      case push_all cs r of (outs, r) \<Rightarrow> ((case out of Some x \<Rightarrow> x # outs | None \<Rightarrow> outs), r))"

lemma scan_back_bounds: "scan_back len bs d \<le> len \<and> len - (d + length bs - 1) \<le> scan_back len bs d"
  by (induction len bs d rule: scan_back.induct) (auto split: option.splits)

lemma split_point_bounds: "find_utf8_split_point buf \<le> length buf \<and> length buf \<le> find_utf8_split_point buf + 3"
  using scan_back_bounds [of "length buf" "take 3 (rev buf)" 1]
  by (cases "buf = []") (auto simp: find_utf8_split_point_def)

lemma push_chunk_lossless:
  "push_chunk c r = (out, r') \<Longrightarrow> (case out of Some x \<Rightarrow> x | None \<Rightarrow> []) @ r' = r @ c \<and> (length r \<le> 3 \<longrightarrow> length r' \<le> 3)"
proof -
  assume p: "push_chunk c r = (out, r')"
  have d: "(if r \<noteq> [] then r @ c else c) = r @ c" by simp
  show ?thesis using p split_point_bounds [of "r @ c"] unfolding push_chunk_def Let_def d
    by (auto split: if_splits simp del: take_append drop_append)
qed

lemma push_all_lossless:
  "push_all cs r = (outs, r') \<Longrightarrow> concat outs @ r' = r @ concat cs \<and> (length r \<le> 3 \<longrightarrow> length r' \<le> 3)"
proof (induction cs arbitrary: r outs)
  case (Cons c cs)
  obtain out r1 outs1 where 1: "push_chunk c r = (out, r1)" "push_all cs r1 = (outs1, r')" "outs = (case out of Some x \<Rightarrow> x # outs1 | None \<Rightarrow> outs1)"
    using Cons.prems by (auto split: prod.splits)
  from Cons.IH [OF 1(2)] push_chunk_lossless [OF 1(1)] have "concat outs @ r' = (case out of Some x \<Rightarrow> x | None \<Rightarrow> []) @ r1 @ concat cs"
    using 1(3) by (cases out) auto
  with Cons.IH [OF 1(2)] push_chunk_lossless [OF 1(1)] show ?case by (metis append_assoc concat.simps(2))
qed simp

text \<open>The shape of a character.\<close>

definition lead :: "u8 \<Rightarrow> nat \<Rightarrow> bool" where
  "lead b n \<longleftrightarrow> b AND 0x80 \<noteq> 0 \<and> b AND 0xC0 \<noteq> 0x80 \<and> utf8_seq_len b = Some n"

lemma byte_range:
  assumes "lo \<le> b" and "b \<le> hi" and "list_all (\<lambda>n. P (word_of_nat n :: u8)) [unat lo..<Suc (unat hi)]" shows "P b"
proof -
  have "unat b \<in> set [unat lo..<Suc (unat hi)]" using assms(1,2) by (auto simp: word_le_nat_alt)
  with assms(3) have "P (word_of_nat (unat b))" unfolding list_all_iff by blast
  then show ?thesis by simp
qed

lemma lead_bytes:
  "0xC2 \<le> b \<Longrightarrow> b \<le> 0xDF \<Longrightarrow> lead b 2" "0xE0 \<le> b \<Longrightarrow> b \<le> 0xEF \<Longrightarrow> lead b 3" "0xF0 \<le> b \<Longrightarrow> b \<le> 0xF4 \<Longrightarrow> lead b 4"
  by ((rule byte_range, assumption, assumption), simp add: lead_def utf8_seq_len_def)+

lemma ascii_byte: "b < 128 \<Longrightarrow> (b :: u8) AND 0x80 = 0"
  by (rule byte_range [of 0 b 127 "\<lambda>b. b AND 0x80 = 0"]) (simp_all add: word_less_nat_alt word_le_nat_alt upt_conv_Cons)

lemma cont_bytes:
  fixes b :: u8
  shows "0x80 \<le> b \<Longrightarrow> b \<le> 0xBF \<Longrightarrow> cont b" "cont b \<Longrightarrow> b AND 0x80 \<noteq> 0"
proof -
  show "cont b" if "0x80 \<le> b" "b \<le> 0xBF" by (rule byte_range [OF that]) (simp add: cont_def)
  have "b AND 0x80 = (b AND 0xC0) AND 0x80" by (simp add: and.assoc)
  then show "b AND 0x80 \<noteq> 0" if "cont b" using that by (simp add: cont_def)
qed

lemma second_cont: "second_of_3 b c \<Longrightarrow> cont c" "second_of_4 b c \<Longrightarrow> cont c"
  by (auto simp: second_of_3_def second_of_4_def intro!: cont_bytes(1) elim: order_trans [rotated] order_trans)

text \<open>Either one byte below 128, or a leading byte with as many continuation bytes as it announces.\<close>

definition char_shape :: "bytes \<Rightarrow> bool" where
  "char_shape c \<longleftrightarrow> (\<exists>a. c = [a] \<and> a AND 0x80 = 0)
     \<or> (\<exists>a rest. c = a # rest \<and> lead a (length c) \<and> list_all cont rest \<and> length rest \<in> {1, 2, 3})"

lemma byte_at_simps [simp]: "byte_at (b # bs) 0 = b" "byte_at (b # bs) (Suc i) = byte_at bs i" "byte_at [] i = 0"
  by (simp_all add: byte_at_def)

lemma no_cont [simp]: "\<not> cont 0" "\<not> second_of_3 b 0" "\<not> second_of_4 b 0"
  by (simp_all add: cont_def second_of_3_def second_of_4_def)

lemma scan_shape:
  assumes "bs \<noteq> []" and "utf8_scan bs = (n, True)"
  shows "\<exists>c rest. bs = c @ rest \<and> length c = n \<and> char_shape c \<and> (\<forall>ys. utf8_scan (c @ ys) = (n, True))"
proof -
  obtain b bs1 where b: "bs = b # bs1" using assms(1) by (cases bs) auto
  consider (one) "b < 128" | (two) "0xC2 \<le> b" "b \<le> 0xDF" | (three) "0xE0 \<le> b" "b \<le> 0xEF" | (four) "0xF0 \<le> b" "b \<le> 0xF4"
    using assms(2) unfolding b utf8_scan_def Let_def by (auto split: if_splits)
  then show ?thesis
  proof cases
    case one
    then show ?thesis using assms(2) ascii_byte [OF one]
      by (intro exI [of _ "[b]"] exI [of _ bs1]) (auto simp: b utf8_scan_def char_shape_def)
  next
    case two
    then have x: "\<not> b < 128" by (simp add: word_le_nat_alt word_less_nat_alt)
    with two obtain c rest where "bs1 = c # rest" "cont c" "n = 2" using assms(2) by (cases bs1) (auto simp: b utf8_scan_def split: if_splits)
    then show ?thesis using two x lead_bytes(1) [OF two]
      by (intro exI [of _ "[b, c]"] exI [of _ rest]) (auto simp: b utf8_scan_def char_shape_def numeral_2_eq_2)
  next
    case three
    then have x: "\<not> b < 128" "\<not> b \<le> 0xDF" by (simp_all add: word_le_nat_alt word_less_nat_alt)
    with three obtain c bs2 where 1: "bs1 = c # bs2" "second_of_3 b c" using assms(2) by (cases bs1) (auto simp: b utf8_scan_def split: if_splits)
    then obtain d rest where "bs2 = d # rest" "cont d" "n = 3"
      using assms(2) three x 1 by (cases bs2) (auto simp: b utf8_scan_def numeral_2_eq_2 split: if_splits)
    then show ?thesis using three x 1 second_cont lead_bytes(2) [OF three]
      by (intro exI [of _ "[b, c, d]"] exI [of _ rest]) (auto simp: b utf8_scan_def char_shape_def numeral_2_eq_2 numeral_3_eq_3)
  next
    case four
    then have x: "\<not> b < 128" "\<not> b \<le> 0xDF" "\<not> b \<le> 0xEF" by (simp_all add: word_le_nat_alt word_less_nat_alt)
    with four obtain c bs2 where 1: "bs1 = c # bs2" "second_of_4 b c" using assms(2) by (cases bs1) (auto simp: b utf8_scan_def split: if_splits)
    then obtain d bs3 where 2: "bs2 = d # bs3" "cont d"
      using assms(2) four x 1 by (cases bs2) (auto simp: b utf8_scan_def numeral_2_eq_2 split: if_splits)
    then obtain e rest where "bs3 = e # rest" "cont e" "n = 4"
      using assms(2) four x 1 2 by (cases bs3) (auto simp: b utf8_scan_def numeral_2_eq_2 numeral_3_eq_3 split: if_splits)
    then show ?thesis using four x 1 2 second_cont lead_bytes(3) [OF four]
      by (intro exI [of _ "[b, c, d, e]"] exI [of _ rest]) (auto simp: b utf8_scan_def char_shape_def numeral_2_eq_2 numeral_3_eq_3 eval_nat_numeral)
  qed
qed

definition utf8_char :: "bytes \<Rightarrow> bool" where
  "utf8_char c \<longleftrightarrow> char_shape c \<and> (\<forall>ys. utf8_scan (c @ ys) = (length c, True))"

lemma valid_cases:
  assumes "utf8_valid bs" and "bs \<noteq> []"
  shows "\<exists>c rest. bs = c @ rest \<and> utf8_char c \<and> utf8_valid rest"
proof -
  obtain n where n: "utf8_scan bs = (n, True)" "utf8_valid (drop n bs)"
    using assms by (cases "utf8_scan bs") (auto simp: utf8_valid.simps [of bs])
  from scan_shape [OF assms(2) n(1)] obtain c rest where "bs = c @ rest" "length c = n" "char_shape c" "\<forall>ys. utf8_scan (c @ ys) = (n, True)" by blast
  then show ?thesis using n(2) by (intro exI [of _ c] exI [of _ rest]) (simp add: utf8_char_def)
qed

lemma char_nonempty: "utf8_char c \<Longrightarrow> c \<noteq> []"
  by (auto simp: utf8_char_def char_shape_def)

lemma valid_char: "utf8_char c \<Longrightarrow> utf8_valid (c @ ys) = utf8_valid ys"
  using char_nonempty [of c] by (subst utf8_valid.simps) (simp add: utf8_char_def)

lemma valid_append: "utf8_valid xs \<Longrightarrow> utf8_valid (xs @ ys) = utf8_valid ys"
proof (induction xs rule: length_induct)
  case (1 xs)
  show ?case
  proof (cases "xs = []")
    case False
    then obtain c rest where "xs = c @ rest" "utf8_char c" "utf8_valid rest" using valid_cases 1(2) by blast
    with 1(1) char_nonempty [of c] show ?thesis by (simp add: valid_char)
  qed simp
qed

lemma valid_last: "utf8_valid xs \<Longrightarrow> xs \<noteq> [] \<Longrightarrow> \<exists>ys c. xs = ys @ c \<and> utf8_char c"
proof (induction xs rule: length_induct)
  case (1 xs)
  then obtain c rest where c: "xs = c @ rest" "utf8_char c" "utf8_valid rest" using valid_cases by blast
  show ?case
  proof (cases "rest = []")
    case True
    then show ?thesis using c by (intro exI [of _ "[]"] exI [of _ c]) simp
  next
    case False
    moreover have "length rest < length xs" using c(1) char_nonempty [OF c(2)] by simp
    ultimately obtain ys d where "rest = ys @ d" "utf8_char d" using 1(1) c(3) by blast
    then show ?thesis using c(1) by (intro exI [of _ "c @ ys"] exI [of _ d]) simp
  qed
qed

text \<open>What has been read of a valid text is characters and the beginning of one more.\<close>

lemma valid_prefix:
  "utf8_valid (d @ rest) \<Longrightarrow> \<exists>v p. d = v @ p \<and> utf8_valid v \<and> (p = [] \<or> (\<exists>q. q \<noteq> [] \<and> utf8_char (p @ q)))"
proof (induction d rule: length_induct)
  case (1 d)
  show ?case
  proof (cases "d = []")
    case True
    then show ?thesis by (simp add: utf8_valid.simps)
  next
    case False
    then obtain c ys where c: "d @ rest = c @ ys" "utf8_char c" "utf8_valid ys" using valid_cases [OF 1(2)] by auto
    show ?thesis
    proof (cases "length c \<le> length d")
      case True
      then obtain d1 where d: "d = c @ d1" "ys = d1 @ rest" using c(1) by (metis append_eq_append_conv_if append_take_drop_id)
      then have "length d1 < length d" "utf8_valid (d1 @ rest)" using c(3) char_nonempty [OF c(2)] by simp_all
      with 1(1) obtain v p where "d1 = v @ p" "utf8_valid v" "p = [] \<or> (\<exists>q. q \<noteq> [] \<and> utf8_char (p @ q))" by blast
      then show ?thesis using d(1) c(2) valid_char by (intro exI [of _ "c @ v"] exI [of _ p]) simp
    next
      case longer: False
      then obtain q where "c = d @ q" "q \<noteq> []" using c(1) by (metis append_eq_append_conv_if append_eq_append_conv2 le_refl append_Nil2)
      then show ?thesis using c(2) by (intro exI [of _ "[]"] exI [of _ d]) (auto simp: utf8_valid.simps)
    qed
  qed
qed

lemma scan_conts:
  "list_all cont xs \<Longrightarrow> scan_back len (xs @ ys) d = scan_back len ys (d + length xs)"
  by (induction xs arbitrary: d) (auto simp: cont_def dest: cont_bytes(2) [unfolded cont_def])

lemma scan_lead: "lead a n \<Longrightarrow> scan_back len (a # ys) d = (if d \<ge> n then len else len - d)"
  by (simp add: lead_def)

lemma list_all_rev_take: "list_all P xs \<Longrightarrow> list_all P (take n (rev xs))"
  by (auto simp: list_all_iff dest: in_set_takeD)

lemma split_point_complete:
  assumes "utf8_char c" shows "find_utf8_split_point (ys @ c) = length (ys @ c)"
proof -
  consider (one) a where "c = [a]" "a AND 0x80 = 0"
    | (more) a rest where "c = a # rest" "lead a (length c)" "list_all cont rest" "length rest \<in> {1, 2, 3}"
    using assms by (auto simp: utf8_char_def char_shape_def)
  then show ?thesis
  proof cases
    case one
    then show ?thesis by (simp add: find_utf8_split_point_def numeral_3_eq_3)
  next
    case more
    show ?thesis
    proof (cases "length rest = 3")
      case True
      then have "take 3 (rev (ys @ c)) = rev rest @ []" using more(1) by simp
      then show ?thesis using more(1,3) by (simp only: find_utf8_split_point_def scan_conts list_all_rev) simp
    next
      case False
      then obtain zs where "take 3 (rev (ys @ c)) = rev rest @ a # zs" using more(1,4) by (auto simp: take_Cons')
      then show ?thesis using more by (simp only: find_utf8_split_point_def scan_conts list_all_rev scan_lead) simp
    qed
  qed
qed

lemma split_point_started:
  assumes "utf8_char (p @ q)" and "p \<noteq> []" and "q \<noteq> []" shows "find_utf8_split_point (ys @ p) = length ys"
proof -
  from assms obtain a rest where c: "p @ q = a # rest" "lead a (length (p @ q))" "list_all cont rest" "length rest \<in> {1, 2, 3}"
    by (auto simp: utf8_char_def char_shape_def append_eq_Cons_conv)
  then obtain p1 where p: "p = a # p1" "rest = p1 @ q" using assms(2) by (cases p) auto
  then have "length p1 < 3" using c(4) assms(3) by (cases q) auto
  then obtain zs where "take 3 (rev (ys @ p)) = rev p1 @ a # zs" using p by (auto simp: take_Cons')
  moreover have "list_all cont p1" using c(3) p by simp
  ultimately show ?thesis using c(2) p assms(3)
    by (simp only: find_utf8_split_point_def scan_conts list_all_rev scan_lead) (cases q; simp)
qed

lemma push_chunk_valid:
  assumes "utf8_valid (r @ c @ rest)" and "push_chunk c r = (out, r')"
  shows "(\<forall>x. out = Some x \<longrightarrow> utf8_valid x) \<and> utf8_valid (r' @ rest)"
proof (cases "c = []")
  case True
  then show ?thesis using assms by (auto simp: push_chunk_def)
next
  case False
  define d where "d = r @ c"
  have d: "(if r \<noteq> [] then r @ c else c) = d" by (simp add: d_def)
  obtain v p where vp: "d = v @ p" "utf8_valid v" "p = [] \<or> (\<exists>q. q \<noteq> [] \<and> utf8_char (p @ q))"
    using valid_prefix [of d rest] assms(1) by (auto simp: d_def)
  have "find_utf8_split_point d = length v"
  proof (cases "p = []")
    case True
    then have v: "d = v" "v \<noteq> []" using vp(1) False by (auto simp: d_def)
    then obtain ys e where "v = ys @ e" "utf8_char e" using valid_last [OF vp(2)] by blast
    with split_point_complete [of e ys] v(1) show ?thesis by simp
  next
    case False
    then show ?thesis using vp split_point_started by auto
  qed
  then have "find_utf8_split_point d = length v" "take (length v) d = v" "drop (length v) d = p" using vp(1) by simp_all
  moreover have "utf8_valid (p @ rest)" using assms(1) valid_append [OF vp(2), of "p @ rest"] vp(1) by (metis d_def append_assoc)
  ultimately show ?thesis using assms(2) False vp(1,2) unfolding push_chunk_def Let_def d
    by (auto split: if_splits simp: utf8_valid.simps [of "[]"] simp del: take_append drop_append)
qed

lemma push_all_valid:
  "utf8_valid (r @ concat cs @ rest) \<Longrightarrow> push_all cs r = (outs, r') \<Longrightarrow> list_all utf8_valid outs \<and> utf8_valid (r' @ rest)"
proof (induction cs arbitrary: r outs)
  case (Cons c cs)
  obtain out r1 outs1 where 1: "push_chunk c r = (out, r1)" "push_all cs r1 = (outs1, r')" "outs = (case out of Some x \<Rightarrow> x # outs1 | None \<Rightarrow> outs1)"
    using Cons.prems(2) by (auto split: prod.splits)
  from push_chunk_valid [OF _ 1(1), of "concat cs @ rest"] Cons.prems(1) have "\<forall>x. out = Some x \<longrightarrow> utf8_valid x" "utf8_valid (r1 @ concat cs @ rest)" by simp_all
  with Cons.IH [OF _ 1(2)] 1(3) show ?case by (auto split: option.splits)
qed simp

text \<open>
  C40. The chunks of a terminal's output are whole: whatever the sizes of the reads, the chunks handed on and the at most three
  bytes held back are exactly what was read; and if what was read is the beginning of a UTF-8 text, every chunk is a
  UTF-8 text by itself.
\<close>

theorem terminal_chunks_whole:
  assumes "push_all reads [] = (chunks, remainder)"
  shows "concat chunks @ remainder = concat reads \<and> length remainder \<le> 3
    \<and> (\<forall>rest. utf8_valid (concat reads @ rest) \<longrightarrow> list_all utf8_valid chunks \<and> utf8_valid (remainder @ rest))"
  using push_all_lossless [OF assms] push_all_valid [OF _ assms] by auto

theorem terminal_chunks_whole_witness:
  "push_all [[0x61, 0xE4], [0xB8], [0xAD, 0xE4]] [] = ([[0x61], [0xE4, 0xB8, 0xAD]], [0xE4])
   \<and> list_all utf8_valid [[0x61], [0xE4, 0xB8, 0xAD]]"
proof -
  have v: "utf8_valid [0x61]" "utf8_valid ([0x61, 0xE4, 0xB8, 0xAD, 0xE4] @ [0xB8, 0xAD])" by code_simp+
  then have p: "push_all [[0x61, 0xE4], [0xB8], [0xAD, 0xE4]] [] = ([[0x61], [0xE4, 0xB8, 0xAD]], [0xE4])"
    by (simp add: push_chunk_def find_utf8_split_point_def utf8_seq_len_def)
  from terminal_chunks_whole [OF p] p v(2) show ?thesis by simp
qed

end
