(* ===== verification/Terminal_Service.thy ===== *)
theory Terminal_Service
  imports Terminal_Output
begin

text \<open>
  The terminals of a controlled machine (\<^verbatim>\<open>src/server/terminal_service.rs\<close>, Unix build): sessions with
  a pseudo-terminal, the services that keep them across connections, the requests of a client, and
  the periodic collection of output. The reader thread of a session is the event of one read.

  The pseudo-terminal and its child process are third-party: what an operation on them returns is
  part of the environment. A channel is the list of its messages.
\<close>

subsection \<open>Sessions and services\<close>

definition CHANNEL_BUFFER_SIZE :: nat where "CHANNEL_BUFFER_SIZE = 500"
definition MAX_SERVICES :: nat where "MAX_SERVICES = 100"
definition SERVICE_IDLE_TIMEOUT :: nat where "SERVICE_IDLE_TIMEOUT = 3600000"
definition COMPRESS_THRESHOLD :: nat where "COMPRESS_THRESHOLD = 512"
definition DEFAULT_RECONNECT_BUFFER_BYTES :: nat where "DEFAULT_RECONNECT_BUFFER_BYTES = 8 * 1024"
definition MAX_SIGWINCH_PHASE_ATTEMPTS :: nat where "MAX_SIGWINCH_PHASE_ATTEMPTS = 3"

datatype sigwinch_phase = WinchIdle | TempResize nat | Restore nat

datatype sigwinch_action = DoTempResize | DoRestore

datatype session_state = TermClosed | TermActive "bytes option" sigwinch_phase

datatype reader_thread = NoReader | Reading bytes | ReaderDone

record term_session =
  tm_last_activity :: nat
  tm_pty :: "(u16 \<times> u16) option"
  tm_child :: bool
  tm_input_tx :: bool
  tm_output_rx :: "bytes list option"
  tm_exiting :: bool
  tm_reader :: reader_thread
  tm_output_buffer :: output_buffer
  tm_title :: string
  tm_pid :: u32
  tm_rows :: u16
  tm_cols :: u16
  tm_closed_message_sent :: bool
  tm_state :: session_state

record term_service =
  ts_sessions :: "(int, term_session) hashmap"
  ts_last_activity :: nat
  ts_is_persistent :: bool
  ts_needs_session_sync :: bool
  ts_is_specified_user :: bool

type_synonym term_registry = "(string, term_service) hashmap"

datatype child_status = Running | Exited int | WaitError

record term_env =
  te_now :: nat
  te_spawn :: "string + u32"
  te_resize :: "int \<Rightarrow> u16 \<Rightarrow> u16 \<Rightarrow> string option"
  te_kill :: "int \<Rightarrow> string option"
  te_try_wait :: "int \<Rightarrow> child_status"
  te_try_lock :: "int \<Rightarrow> bool"
  te_compress :: "bytes \<Rightarrow> bytes"

datatype term_response =
    RspOpened int string u32 string "int list" bool
  | RspData int bytes bool
  | RspClosed int int
  | RspError string

datatype term_effect =
    ToPty int bytes
  | ResizePty int u16 u16
  | KillChild int
  | ReapChild int

definition session_new :: "nat \<Rightarrow> int \<Rightarrow> u16 \<Rightarrow> u16 \<Rightarrow> term_session" where
  "session_new now i rows cols =
     \<lparr>tm_last_activity = now, tm_pty = None, tm_child = False, tm_input_tx = False, tm_output_rx = None, tm_exiting = False,
      tm_reader = NoReader, tm_output_buffer = buffer_new, tm_title = ''Terminal '' @ show_int i, tm_pid = 0,
      tm_rows = rows, tm_cols = cols, tm_closed_message_sent = False, tm_state = TermClosed\<rparr>"

definition service_new_at :: "nat \<Rightarrow> bool \<Rightarrow> bool \<Rightarrow> term_service" where
  "service_new_at now is_persistent is_specified_user =
     \<lparr>ts_sessions = [], ts_last_activity = now, ts_is_persistent = is_persistent, ts_needs_session_sync = False,
      ts_is_specified_user = is_specified_user\<rparr>"

text \<open>Stopping a session ends both threads and its child; a final line break goes to the terminal.\<close>

definition stop_session :: "int \<Rightarrow> term_session \<Rightarrow> term_session \<times> term_effect list" where
  "stop_session i s =
     (s\<lparr>tm_state := TermClosed, tm_exiting := True, tm_input_tx := False, tm_output_rx := None, tm_pty := None,
        tm_reader := NoReader, tm_child := False\<rparr>,
      (if tm_input_tx s then [ToPty i [13, 10]] else []) @ (if tm_child s then [KillChild i, ReapChild i] else []))"

subsection \<open>The registry of services\<close>

definition reset_status :: "bool \<Rightarrow> term_service \<Rightarrow> term_service" where
  "reset_status is_persistent sv =
     sv\<lparr>ts_is_persistent := is_persistent, ts_needs_session_sync := True,
        ts_sessions := map (\<lambda>(i, s). (i, s\<lparr>tm_state := TermClosed\<rparr>)) (ts_sessions sv)\<rparr>"

definition get_or_create_service :: "nat \<Rightarrow> string \<Rightarrow> bool \<Rightarrow> bool \<Rightarrow> term_registry \<Rightarrow> string + term_registry" where
  "get_or_create_service now sid is_persistent is_specified_user reg =
     (if hm_get reg sid = None \<and> length reg \<ge> MAX_SERVICES
      then Inl (''Maximum number of terminal services ('' @ show_nat MAX_SERVICES @ '') reached'')
      else let sv = (case hm_get reg sid of Some sv \<Rightarrow> sv | None \<Rightarrow> service_new_at now is_persistent is_specified_user)
           in Inr (hm_insert sid (reset_status is_persistent sv) reg))"

definition remove_service :: "string \<Rightarrow> term_registry \<Rightarrow> term_registry \<times> term_effect list" where
  "remove_service sid reg =
     (case hm_get reg sid of
        Some sv \<Rightarrow> (hm_remove sid reg, concat (map (\<lambda>(i, s). snd (stop_session i s)) (ts_sessions sv)))
      | None \<Rightarrow> (reg, []))"

definition idle_service :: "nat \<Rightarrow> term_service \<Rightarrow> bool" where
  "idle_service now sv \<longleftrightarrow>
     (if \<not> ts_is_persistent sv \<and> now - ts_last_activity sv > SERVICE_IDLE_TIMEOUT then True
      else ts_is_persistent sv \<and> ts_sessions sv = [] \<and> now - ts_last_activity sv > SERVICE_IDLE_TIMEOUT * 2)"

fun remove_services :: "string list \<Rightarrow> term_registry \<Rightarrow> term_registry \<times> term_effect list" where
  "remove_services [] reg = (reg, [])"
| "remove_services (sid # sids) reg =
     (case remove_service sid reg of (reg, out) \<Rightarrow> case remove_services sids reg of (reg, out') \<Rightarrow> (reg, out @ out'))"

definition cleanup_inactive_services :: "nat \<Rightarrow> term_registry \<Rightarrow> term_registry \<times> term_effect list" where
  "cleanup_inactive_services now reg = remove_services (map fst (filter (\<lambda>(sid, sv). idle_service now sv) reg)) reg"

definition set_persistent :: "string \<Rightarrow> bool \<Rightarrow> term_registry \<Rightarrow> string + term_registry" where
  "set_persistent sid is_persistent reg =
     (case hm_get reg sid of
        Some sv \<Rightarrow> Inr (hm_insert sid (sv\<lparr>ts_is_persistent := is_persistent\<rparr>) reg)
      | None \<Rightarrow> Inl (''Service '' @ sid @ '' not found''))"

definition on_disconnect :: "string \<Rightarrow> bool \<Rightarrow> term_registry \<Rightarrow> term_registry \<times> term_effect list" where
  "on_disconnect sid is_persistent reg = (if is_persistent then (reg, []) else remove_service sid reg)"

text \<open>The end of the thread that collects the output of a service.\<close>

definition run_exit :: "string \<Rightarrow> term_registry \<Rightarrow> term_registry \<times> term_effect list" where
  "run_exit sid reg =
     (case hm_get reg sid of
        Some sv \<Rightarrow> if ts_is_persistent sv then (reg, []) else remove_service sid reg
      | None \<Rightarrow> (reg, []))"

text \<open>The children of stopped terminals wait in a list until they have exited; a task looks after it and the registry.\<close>

definition add_to_reaper :: "int \<Rightarrow> int list \<Rightarrow> int list" where
  "add_to_reaper child tasks = tasks @ [child]"

primrec check_zombie_terminals :: "(int \<Rightarrow> child_status) \<Rightarrow> int list \<Rightarrow> int list" where
  "check_zombie_terminals try_wait [] = []"
| "check_zombie_terminals try_wait (child # tasks) =
     (case try_wait child of
        Running \<Rightarrow> child # check_zombie_terminals try_wait tasks
      | _ \<Rightarrow> check_zombie_terminals try_wait tasks)"

definition cleanup_task_round ::
  "term_env \<Rightarrow> nat \<Rightarrow> term_registry \<Rightarrow> int list \<Rightarrow> nat \<times> (term_registry \<times> term_effect list) \<times> int list" where
  "cleanup_task_round env last_service_cleanup reg tasks =
     (let tasks = check_zombie_terminals (te_try_wait env) tasks
      in if te_now env - last_service_cleanup > 300000
         then (te_now env, cleanup_inactive_services (te_now env) reg, tasks)
         else (last_service_cleanup, (reg, []), tasks))"

definition get_terminal_session_count :: "bool \<Rightarrow> term_registry \<Rightarrow> int list \<Rightarrow> nat" where
  "get_terminal_session_count include_zombie_tasks reg tasks =
     length reg + (if include_zombie_tasks then length tasks else 0)"

subsection \<open>Reading the pseudo-terminal\<close>

datatype pty_read = ReadEof | ReadBytes bytes | ReadWouldBlock | ReadError

text \<open>The channel takes a chunk, drops it when full, or is gone.\<close>

definition try_send_output :: "bytes \<Rightarrow> bytes list option \<Rightarrow> bool \<times> bytes list option" where
  "try_send_output d rx =
     (case rx of
        None \<Rightarrow> (True, None)
      | Some q \<Rightarrow> (False, Some (if length q < CHANNEL_BUFFER_SIZE then q @ [d] else q)))"

definition reader_step :: "pty_read \<Rightarrow> term_session \<Rightarrow> term_session" where
  "reader_step r s =
     (case tm_reader s of
        Reading remainder \<Rightarrow>
          (case r of
             ReadEof \<Rightarrow>
               s\<lparr>tm_output_rx := (case fst (finish_chunks remainder) of
                     Some d \<Rightarrow> snd (try_send_output d (tm_output_rx s)) | None \<Rightarrow> tm_output_rx s),
                 tm_reader := ReaderDone\<rparr>
           | ReadBytes bs \<Rightarrow>
               if tm_exiting s then s\<lparr>tm_reader := ReaderDone\<rparr>
               else (case push_chunk bs remainder of
                 (None, rest) \<Rightarrow> s\<lparr>tm_reader := Reading rest\<rparr>
               | (Some d, rest) \<Rightarrow>
                   (case try_send_output d (tm_output_rx s) of
                      (gone, rx) \<Rightarrow> s\<lparr>tm_output_rx := rx, tm_reader := (if gone then ReaderDone else Reading rest)\<rparr>))
           | ReadWouldBlock \<Rightarrow> if tm_exiting s then s\<lparr>tm_reader := ReaderDone\<rparr> else s
           | ReadError \<Rightarrow> s\<lparr>tm_reader := ReaderDone\<rparr>)
      | _ \<Rightarrow> s)"

subsection \<open>Requests of a client\<close>

datatype term_action =
    OpenTerminal int u32 u32
  | ResizeTerminal int u32 u32
  | DataTerminal int bytes
  | CloseTerminal int
  | OtherTerminalAction

text \<open>Taking at most so many messages from a channel.\<close>

definition drain :: "nat \<Rightarrow> bytes list option \<Rightarrow> bytes list \<times> bytes list option" where
  "drain n rx = (case rx of Some q \<Rightarrow> (take n q, Some (drop n q)) | None \<Rightarrow> ([], None))"

definition remap_lowest :: "int \<Rightarrow> term_service \<Rightarrow> term_service" where
  "remap_lowest i sv =
     (if hm_get (ts_sessions sv) i = None \<and> ts_needs_session_sync sv \<and> ts_sessions sv \<noteq> [] then
        let lowest = Min (set (map fst (ts_sessions sv)))
        in case hm_get (ts_sessions sv) lowest of
             Some s \<Rightarrow> sv\<lparr>ts_sessions := hm_insert i s (hm_remove lowest (ts_sessions sv))\<rparr>
           | None \<Rightarrow> sv
      else sv)"

definition reconnect_session :: "term_session \<Rightarrow> term_session" where
  "reconnect_session s =
     (let buffer = get_recent DEFAULT_RECONNECT_BUFFER_BYTES (tm_output_buffer s);
          (backlog, rx) = drain CHANNEL_BUFFER_SIZE (tm_output_rx s);
          ob = fold buffer_append backlog (tm_output_buffer s);
          buffer = (if backlog \<noteq> [] then get_recent DEFAULT_RECONNECT_BUFFER_BYTES ob else buffer)
      in s\<lparr>tm_output_rx := rx, tm_output_buffer := ob,
           tm_state := TermActive (if buffer \<noteq> [] then Some buffer else None) (TempResize MAX_SIGWINCH_PHASE_ATTEMPTS)\<rparr>)"

definition has_pending :: "term_session \<Rightarrow> bool" where
  "has_pending s = (case tm_state s of TermActive (Some _) _ \<Rightarrow> True | _ \<Rightarrow> False)"

definition open_new :: "term_env \<Rightarrow> int \<Rightarrow> u32 \<Rightarrow> u32 \<Rightarrow> u32 \<Rightarrow> term_session" where
  "open_new env i rows cols pid =
     (session_new (te_now env) i (ucast rows) (ucast cols))
       \<lparr>tm_pid := pid, tm_pty := Some (ucast rows, ucast cols), tm_child := True, tm_input_tx := True, tm_output_rx := Some [],
        tm_reader := Reading [], tm_state := TermActive None WinchIdle\<rparr>"

definition handle_open :: "term_env \<Rightarrow> string \<Rightarrow> int \<Rightarrow> u32 \<Rightarrow> u32 \<Rightarrow> term_service \<Rightarrow> (string + term_response option) \<times> term_service" where
  "handle_open env sid i rows cols sv0 =
     (let sv = remap_lowest i sv0 in
      case hm_get (ts_sessions sv) i of
        Some s \<Rightarrow>
          let s = reconnect_session s;
              ids = (if ts_needs_session_sync sv \<and> length (ts_sessions sv) > 1
                     then filter (\<lambda>j. j \<noteq> i) (map fst (ts_sessions sv)) else [])
          in (Inr (Some (RspOpened i
                (if has_pending s then ''Reconnected to existing terminal with pending output'' else ''Reconnected to existing terminal'')
                (tm_pid s) sid ids (has_pending s))),
              sv\<lparr>ts_sessions := hm_insert i s (ts_sessions sv), ts_needs_session_sync := False\<rparr>)
      | None \<Rightarrow>
          (case te_spawn env of
             Inl e \<Rightarrow> (Inl e, sv)
           | Inr pid \<Rightarrow>
               (Inr (Some (RspOpened i ''Terminal opened'' pid sid
                  (if ts_needs_session_sync sv then map fst (ts_sessions sv) else []) False)),
                sv\<lparr>ts_sessions := hm_insert i (open_new env i rows cols pid) (ts_sessions sv), ts_needs_session_sync := False\<rparr>)))"

definition resize_pty :: "term_env \<Rightarrow> int \<Rightarrow> u16 \<Rightarrow> u16 \<Rightarrow> term_session \<Rightarrow> string option \<times> term_session \<times> term_effect list" where
  "resize_pty env i rows cols s =
     (case tm_pty s of
        None \<Rightarrow> (None, s, [])
      | Some _ \<Rightarrow>
          (case te_resize env i rows cols of
             None \<Rightarrow> (None, s\<lparr>tm_pty := Some (rows, cols)\<rparr>, [ResizePty i rows cols])
           | Some e \<Rightarrow> (Some e, s, [])))"

definition resize_session :: "term_env \<Rightarrow> int \<Rightarrow> u32 \<Rightarrow> u32 \<Rightarrow> term_session \<Rightarrow> string option \<times> term_session \<times> term_effect list" where
  "resize_session env i rows cols s =
     resize_pty env i (ucast rows) (ucast cols) (s\<lparr>tm_last_activity := te_now env, tm_rows := ucast rows, tm_cols := ucast cols\<rparr>)"

definition handle_resize :: "term_env \<Rightarrow> int \<Rightarrow> u32 \<Rightarrow> u32 \<Rightarrow> term_service
    \<Rightarrow> (string + term_response option) \<times> term_service \<times> term_effect list" where
  "handle_resize env i rows cols sv =
     (case hm_get (ts_sessions sv) i of
        None \<Rightarrow> (Inr None, sv, [])
      | Some s \<Rightarrow>
          (case resize_session env i rows cols s of
             (err, s, out) \<Rightarrow> (case err of Some e \<Rightarrow> Inl e | None \<Rightarrow> Inr None, sv\<lparr>ts_sessions := hm_insert i s (ts_sessions sv)\<rparr>, out)))"

definition handle_data :: "term_env \<Rightarrow> int \<Rightarrow> bytes \<Rightarrow> term_service \<Rightarrow> term_service \<times> term_effect list" where
  "handle_data env i d sv =
     (case hm_get (ts_sessions sv) i of
        None \<Rightarrow> (sv, [])
      | Some s \<Rightarrow> (sv\<lparr>ts_sessions := hm_insert i (s\<lparr>tm_last_activity := te_now env\<rparr>) (ts_sessions sv)\<rparr>,
                    if tm_input_tx s then [ToPty i d] else []))"

text \<open>Closing takes the session out first: when killing the child fails, the request fails and no answer is sent.\<close>

definition handle_close :: "term_env \<Rightarrow> int \<Rightarrow> term_service \<Rightarrow> (string + term_response option) \<times> term_service \<times> term_effect list" where
  "handle_close env i sv =
     (case hm_get (ts_sessions sv) i of
        None \<Rightarrow> (Inr None, sv, [])
      | Some s \<Rightarrow>
          let sv = sv\<lparr>ts_sessions := hm_remove i (ts_sessions sv)\<rparr>; dropped = snd (stop_session i (s\<lparr>tm_child := False\<rparr>))
          in if tm_child s then
               (case te_kill env i of
                  Some e \<Rightarrow> (Inl e, sv, dropped)
                | None \<Rightarrow> (Inr (Some (RspClosed i (-1))), sv, [KillChild i, ReapChild i] @ dropped))
             else (Inr (Some (RspClosed i 0)), sv, dropped))"

definition handle_action :: "term_env \<Rightarrow> string \<Rightarrow> term_action \<Rightarrow> term_registry
    \<Rightarrow> (string + term_response option) \<times> term_registry \<times> term_effect list" where
  "handle_action env sid action reg =
     (case hm_get reg sid of
        None \<Rightarrow> (Inr (Some (RspError (''Terminal service '' @ sid @ '' not found''))), reg, [])
      | Some sv0 \<Rightarrow>
          let sv = sv0\<lparr>ts_last_activity := te_now env\<rparr>;
              (r, sv, out) =
                (case action of
                   OpenTerminal i rows cols \<Rightarrow> (case handle_open env sid i rows cols sv of (r, sv) \<Rightarrow> (r, sv, []))
                 | ResizeTerminal i rows cols \<Rightarrow> handle_resize env i rows cols sv
                 | DataTerminal i d \<Rightarrow> (case handle_data env i d sv of (sv, out) \<Rightarrow> (Inr None, sv, out))
                 | CloseTerminal i \<Rightarrow> handle_close env i sv
                 | OtherTerminalAction \<Rightarrow> (Inr None, sv, []))
          in (r, hm_insert sid sv reg, out))"

text \<open>The connection turns a failed request into an error message.\<close>

definition handle_terminal_action :: "term_env \<Rightarrow> string \<Rightarrow> term_action \<Rightarrow> term_registry
    \<Rightarrow> term_response option \<times> term_registry \<times> term_effect list" where
  "handle_terminal_action env sid action reg =
     (case handle_action env sid action reg of
        (Inr r, reg, out) \<Rightarrow> (r, reg, out)
      | (Inl e, reg, out) \<Rightarrow> (Some (RspError (''Failed to handle action: '' @ e)), reg, out))"

subsection \<open>Collecting the output\<close>

definition create_terminal_data_response :: "term_env \<Rightarrow> int \<Rightarrow> bytes \<Rightarrow> term_response" where
  "create_terminal_data_response env i d =
     (if length d > COMPRESS_THRESHOLD \<and> length (te_compress env d) < length d then RspData i (te_compress env d) True
      else RspData i d False)"

definition saturating_sub1 :: "u16 \<Rightarrow> u16" where "saturating_sub1 r = (if r = 0 then 0 else r - 1)"
definition saturating_add1 :: "u16 \<Rightarrow> u16" where "saturating_add1 r = (if r = - 1 then r else r + 1)"

definition do_sigwinch_resize :: "term_env \<Rightarrow> int \<Rightarrow> sigwinch_action \<Rightarrow> term_session \<Rightarrow> bool \<times> term_session \<times> term_effect list" where
  "do_sigwinch_resize env i action s =
     (if tm_rows s = 0 \<or> tm_cols s = 0 then (False, s, [])
      else
        let target_rows = (case action of
              DoTempResize \<Rightarrow> if tm_rows s > 2 then saturating_sub1 (tm_rows s) else saturating_add1 (tm_rows s)
            | DoRestore \<Rightarrow> tm_rows s)
        in case resize_pty env i target_rows (tm_cols s) s of
             (err, s', out) \<Rightarrow> (tm_pty s \<noteq> None \<and> err = None, s', out))"

definition next_sigwinch :: "sigwinch_phase \<Rightarrow> sigwinch_phase \<times> sigwinch_action option" where
  "next_sigwinch w =
     (case w of
        TempResize 0 \<Rightarrow> (WinchIdle, None)
      | TempResize (Suc r) \<Rightarrow> (TempResize r, Some DoTempResize)
      | Restore 0 \<Rightarrow> (WinchIdle, None)
      | Restore (Suc r) \<Rightarrow> (Restore r, Some DoRestore)
      | WinchIdle \<Rightarrow> (WinchIdle, None))"

definition sigwinch_done :: "sigwinch_action \<Rightarrow> sigwinch_phase" where
  "sigwinch_done a = (case a of DoTempResize \<Rightarrow> Restore MAX_SIGWINCH_PHASE_ATTEMPTS | DoRestore \<Rightarrow> WinchIdle)"

definition session_ended :: "term_env \<Rightarrow> int \<Rightarrow> term_session \<Rightarrow> bool" where
  "session_ended env i s \<longleftrightarrow> \<not> tm_closed_message_sent s
     \<and> (tm_reader s = ReaderDone \<or> tm_child s \<and> (case te_try_wait env i of Exited _ \<Rightarrow> True | _ \<Rightarrow> False))"

text \<open>One session of a poll: what is sent, whether it ended, and the session afterwards.\<close>

definition poll_session :: "term_env \<Rightarrow> int \<Rightarrow> term_session \<Rightarrow> bytes list \<times> bool \<times> term_session \<times> term_effect list" where
  "poll_session env i s0 =
     (let ended = session_ended env i s0;
          received = (case tm_output_rx s0 of Some q \<Rightarrow> q | None \<Rightarrow> []);
          s = s0\<lparr>tm_closed_message_sent := (tm_closed_message_sent s0 \<or> ended),
                 tm_output_rx := map_option (\<lambda>_. []) (tm_output_rx s0),
                 tm_output_buffer := fold buffer_append received (tm_output_buffer s0)\<rparr>
      in case tm_state s of
           TermClosed \<Rightarrow> ([], ended, s, [])
         | TermActive pending w \<Rightarrow>
             let (w, action) = next_sigwinch w;
                 replay = (case pending of Some b \<Rightarrow> if b \<noteq> [] then [b] else [] | None \<Rightarrow> []);
                 s = s\<lparr>tm_state := TermActive None w, tm_last_activity := (if received \<noteq> [] then te_now env else tm_last_activity s)\<rparr>;
                 (s, out) =
                   (case action of
                      None \<Rightarrow> (s, [])
                    | Some a \<Rightarrow>
                        (case do_sigwinch_resize env i a s of
                           (True, s, out) \<Rightarrow> (s\<lparr>tm_state := TermActive None (sigwinch_done a)\<rparr>, out)
                         | (False, s, out) \<Rightarrow> (s, out)))
             in (replay @ received, ended, s, out))"

fun poll_sessions :: "term_env \<Rightarrow> (int \<times> term_session) list
    \<Rightarrow> term_response list \<times> int list \<times> (int \<times> term_session) list \<times> term_effect list" where
  "poll_sessions env [] = ([], [], [], [])"
| "poll_sessions env ((i, s) # rest) =
     (case poll_sessions env rest of (rs, ended, ss, out) \<Rightarrow>
        if te_try_lock env i then
          (case poll_session env i s of
             (chunks, e, s, out') \<Rightarrow> (map (create_terminal_data_response env i) chunks @ rs, (if e then i # ended else ended), (i, s) # ss, out' @ out))
        else (rs, ended, (i, s) # ss, out))"

text \<open>
  Ended sessions are removed, persistent or not: the flag that the closed message was sent has just been set.
\<close>

definition end_session :: "term_env \<Rightarrow> bool \<Rightarrow> int \<Rightarrow> (int, term_session) hashmap
    \<Rightarrow> term_response \<times> (int, term_session) hashmap \<times> term_effect list" where
  "end_session env is_persistent i ss =
     (case hm_get ss i of
        None \<Rightarrow> (RspClosed i 0, ss, [])
      | Some s \<Rightarrow>
          let code = (if tm_child s then (case te_try_wait env i of Exited c \<Rightarrow> wrap_i32 c | _ \<Rightarrow> 0) else 0);
              reap = (if tm_child s then [ReapChild i] else []); s' = s\<lparr>tm_child := False\<rparr>
          in if \<not> is_persistent \<or> tm_closed_message_sent s
             then (RspClosed i code, hm_remove i ss, reap @ snd (stop_session i s'))
             else (RspClosed i code, hm_insert i s' ss, reap))"

fun end_sessions :: "term_env \<Rightarrow> bool \<Rightarrow> int list \<Rightarrow> (int, term_session) hashmap
    \<Rightarrow> term_response list \<times> (int, term_session) hashmap \<times> term_effect list" where
  "end_sessions env is_persistent [] ss = ([], ss, [])"
| "end_sessions env is_persistent (i # ids) ss =
     (case end_session env is_persistent i ss of (r, ss, out) \<Rightarrow>
      case end_sessions env is_persistent ids ss of (rs, ss, out') \<Rightarrow> (r # rs, ss, out @ out'))"

definition read_outputs :: "term_env \<Rightarrow> string \<Rightarrow> bool \<Rightarrow> term_registry \<Rightarrow> term_response list \<times> term_registry \<times> term_effect list" where
  "read_outputs env sid is_persistent reg =
     (case hm_get reg sid of
        None \<Rightarrow> ([], reg, [])
      | Some sv \<Rightarrow>
          (case poll_sessions env (ts_sessions sv) of (rs, ended, ss, out) \<Rightarrow>
           case end_sessions env is_persistent ended ss of (rs', ss, out') \<Rightarrow>
             (rs @ rs', hm_insert sid (sv\<lparr>ts_sessions := ss\<rparr>) reg, out @ out')))"

subsection \<open>What a client sees\<close>

text \<open>
  An observer of one terminal: all that was read from it, what the channel accepted, what was lost because
  the channel was full or the reader stopped, and what the present client was sent.
\<close>

record watch =
  w_read :: bytes
  w_accepted :: bytes
  w_lost :: "bytes list"
  w_view :: bytes

datatype term_event =
    ReadEv pty_read
  | PollEv term_env
  | ReconnectEv
  | DisconnectEv
  | ResizeEv term_env u32 u32
  | InputEv nat

definition remainder_of :: "term_session \<Rightarrow> bytes" where
  "remainder_of s = (case tm_reader s of Reading r \<Rightarrow> r | _ \<Rightarrow> [])"

definition queued :: "term_session \<Rightarrow> bytes list" where
  "queued s = (case tm_output_rx s of Some q \<Rightarrow> q | None \<Rightarrow> [])"

definition pending_of :: "term_session \<Rightarrow> bytes" where
  "pending_of s = (case tm_state s of TermActive (Some b) _ \<Rightarrow> b | _ \<Rightarrow> [])"

definition offer :: "bytes option \<Rightarrow> term_session \<Rightarrow> watch \<Rightarrow> watch" where
  "offer out s w =
     (case out of
        None \<Rightarrow> w
      | Some d \<Rightarrow>
          (case tm_output_rx s of
             Some q \<Rightarrow> if length q < CHANNEL_BUFFER_SIZE then w\<lparr>w_accepted := w_accepted w @ d\<rparr> else w\<lparr>w_lost := w_lost w @ [d]\<rparr>
           | None \<Rightarrow> w\<lparr>w_lost := w_lost w @ [d]\<rparr>))"

definition watch_read :: "pty_read \<Rightarrow> term_session \<Rightarrow> watch \<Rightarrow> watch" where
  "watch_read r s w =
     (case tm_reader s of
        Reading remainder \<Rightarrow>
          (case r of
             ReadEof \<Rightarrow> offer (fst (finish_chunks remainder)) s w
           | ReadBytes bs \<Rightarrow>
               if tm_exiting s then w\<lparr>w_read := w_read w @ bs, w_lost := w_lost w @ [remainder @ bs]\<rparr>
               else offer (fst (push_chunk bs remainder)) s (w\<lparr>w_read := w_read w @ bs\<rparr>)
           | ReadWouldBlock \<Rightarrow> if tm_exiting s then w\<lparr>w_lost := w_lost w @ [remainder]\<rparr> else w
           | ReadError \<Rightarrow> w\<lparr>w_lost := w_lost w @ [remainder]\<rparr>)
      | _ \<Rightarrow> w)"

fun term_step :: "int \<Rightarrow> term_event \<Rightarrow> term_session \<times> watch \<Rightarrow> term_session \<times> watch" where
  "term_step i (ReadEv r) (s, w) = (reader_step r s, watch_read r s w)"
| "term_step i (PollEv env) (s, w) =
     (case poll_session env i s of (chunks, ended, s, out) \<Rightarrow> (s, w\<lparr>w_view := w_view w @ concat chunks\<rparr>))"
| "term_step i ReconnectEv (s, w) = (reconnect_session s, w\<lparr>w_view := []\<rparr>)"
| "term_step i DisconnectEv (s, w) = (s\<lparr>tm_state := TermClosed\<rparr>, w\<lparr>w_view := []\<rparr>)"
| "term_step i (ResizeEv env rows cols) (s, w) = (case resize_session env i rows cols s of (err, s, out) \<Rightarrow> (s, w))"
| "term_step i (InputEv now) (s, w) = (s\<lparr>tm_last_activity := now\<rparr>, w)"

definition term_run :: "int \<Rightarrow> term_event list \<Rightarrow> term_session \<times> watch \<Rightarrow> term_session \<times> watch" where
  "term_run i es x = fold (term_step i) es x"

text \<open>\<open>base\<close> is what earlier clients were sent, \<open>h\<close> all the output collected so far.\<close>

definition output_ok :: "bool \<Rightarrow> term_session \<times> watch \<Rightarrow> bool" where
  "output_ok first x \<longleftrightarrow> (case x of (s, w) \<Rightarrow>
     buffer_ok (tm_output_buffer s) \<and> length (remainder_of s) \<le> 3 \<and> length (pending_of s) \<le> DEFAULT_RECONNECT_BUFFER_BYTES
     \<and> (w_lost w = [] \<longrightarrow> w_read w = w_accepted w @ remainder_of s)
     \<and> (\<exists>h. w_accepted w = h @ concat (queued s) \<and> suffix (buffered (tm_output_buffer s)) h
          \<and> (tm_state s \<noteq> TermClosed \<longrightarrow> (\<exists>base. h = base @ w_view w @ pending_of s \<and> (first \<longrightarrow> base = [])))
          \<and> (first \<longrightarrow> tm_state s \<noteq> TermClosed)))"

lemma offer_cases:
  assumes "try_send_output d (tm_output_rx s) = (gone, rx)"
  shows "offer (Some d) s w = (if \<not> gone \<and> length (queued s) < CHANNEL_BUFFER_SIZE then w\<lparr>w_accepted := w_accepted w @ d\<rparr> else w\<lparr>w_lost := w_lost w @ [d]\<rparr>)
    \<and> (case rx of Some q \<Rightarrow> q | None \<Rightarrow> []) = (if \<not> gone \<and> length (queued s) < CHANNEL_BUFFER_SIZE then queued s @ [d] else queued s)"
  using assms by (auto simp: offer_def try_send_output_def queued_def split: option.splits)

lemma output_ok_read:
  assumes "output_ok first (s, w)" and "tm_output_buffer s' = tm_output_buffer s" and "tm_state s' = tm_state s" and "w_view w' = w_view w"
    and "length (remainder_of s') \<le> 3" and "w_lost w' = [] \<Longrightarrow> w_read w' = w_accepted w' @ remainder_of s'"
    and "concat (queued s') = concat (queued s) @ d" and "w_accepted w' = w_accepted w @ d"
  shows "output_ok first (s', w')"
proof -
  have p: "pending_of s' = pending_of s" using assms(3) by (simp add: pending_of_def)
  from assms(1) obtain h where h: "w_accepted w = h @ concat (queued s)" "suffix (buffered (tm_output_buffer s)) h"
    "tm_state s \<noteq> TermClosed \<longrightarrow> (\<exists>base. h = base @ w_view w @ pending_of s \<and> (first \<longrightarrow> base = []))" "first \<longrightarrow> tm_state s \<noteq> TermClosed"
    by (auto simp: output_ok_def)
  then have "w_accepted w' = h @ concat (queued s') \<and> suffix (buffered (tm_output_buffer s')) h
      \<and> (tm_state s' \<noteq> TermClosed \<longrightarrow> (\<exists>base. h = base @ w_view w' @ pending_of s' \<and> (first \<longrightarrow> base = []))) \<and> (first \<longrightarrow> tm_state s' \<noteq> TermClosed)"
    using assms p by simp
  then show ?thesis using assms p unfolding output_ok_def by auto
qed

lemma reader_ok:
  assumes "output_ok first (s, w)"
  shows "output_ok first (reader_step r s, watch_read r s w)"
proof (cases "tm_reader s")
  case (Reading remainder)
  then have rem: "remainder_of s = remainder" and l: "length remainder \<le> 3" and rd: "w_lost w = [] \<Longrightarrow> w_read w = w_accepted w @ remainder"
    using assms by (auto simp: remainder_of_def output_ok_def)
  show ?thesis
  proof (cases r)
    case ReadEof
    show ?thesis
    proof (cases "remainder = []")
      case True
      then show ?thesis using ReadEof Reading rd
        by (intro output_ok_read [OF assms, where d = "[]"])
          (auto simp: reader_step_def watch_read_def finish_chunks_def offer_def remainder_of_def queued_def)
    next
      case False
      obtain gone rx where t: "try_send_output remainder (tm_output_rx s) = (gone, rx)" by (cases "try_send_output remainder (tm_output_rx s)")
      from offer_cases [OF t, of w] show ?thesis using ReadEof Reading rd t False
        by (intro output_ok_read [OF assms, where d = "if \<not> gone \<and> length (queued s) < CHANNEL_BUFFER_SIZE then remainder else []"])
          (auto simp: reader_step_def watch_read_def finish_chunks_def remainder_of_def queued_def)
    qed
  next
    case (ReadBytes bs)
    show ?thesis
    proof (cases "tm_exiting s")
      case True
      then show ?thesis using ReadBytes Reading
        by (intro output_ok_read [OF assms, where d = "[]"]) (auto simp: reader_step_def watch_read_def remainder_of_def queued_def)
    next
      case False
      obtain out rest where p: "push_chunk bs remainder = (out, rest)" by (cases "push_chunk bs remainder")
      from push_chunk_lossless [OF p] l have pl: "(case out of Some x \<Rightarrow> x | None \<Rightarrow> []) @ rest = remainder @ bs" "length rest \<le> 3" by auto
      show ?thesis
      proof (cases out)
        case None
        then show ?thesis using ReadBytes Reading False p pl rd
          by (intro output_ok_read [OF assms, where d = "[]"]) (auto simp: reader_step_def watch_read_def offer_def remainder_of_def queued_def)
      next
        case (Some d)
        obtain gone rx where t: "try_send_output d (tm_output_rx s) = (gone, rx)" by (cases "try_send_output d (tm_output_rx s)")
        from offer_cases [OF t, of "w\<lparr>w_read := w_read w @ bs\<rparr>"] show ?thesis using ReadBytes Reading False p pl rd t Some
          by (intro output_ok_read [OF assms, where d = "if \<not> gone \<and> length (queued s) < CHANNEL_BUFFER_SIZE then d else []"])
            (auto simp: reader_step_def watch_read_def remainder_of_def queued_def)
      qed
    qed
  qed (use Reading rd l in \<open>intro output_ok_read [OF assms, where d = "[]"]; auto simp: reader_step_def watch_read_def remainder_of_def queued_def\<close>)+
qed (use assms in \<open>simp_all add: reader_step_def watch_read_def\<close>)

lemma resize_frame: "\<exists>p. fst (snd (resize_pty env i rows cols s)) = s\<lparr>tm_pty := p\<rparr>"
  by (auto simp: resize_pty_def split: option.splits intro: exI [of _ "tm_pty s"])

lemma sigwinch_frame: "\<exists>p. fst (snd (do_sigwinch_resize env i a s)) = s\<lparr>tm_pty := p\<rparr>"
proof -
  have "\<exists>p. s = s\<lparr>tm_pty := p\<rparr>" by (rule exI [of _ "tm_pty s"]) simp
  then show ?thesis using resize_frame by (auto simp: do_sigwinch_resize_def Let_def split: prod.splits) (metis fst_conv snd_conv)+
qed

definition collected :: "term_env \<Rightarrow> int \<Rightarrow> term_session \<Rightarrow> term_session" where
  "collected env i s =
     s\<lparr>tm_closed_message_sent := (tm_closed_message_sent s \<or> session_ended env i s), tm_output_rx := map_option (\<lambda>_. []) (tm_output_rx s),
       tm_output_buffer := fold buffer_append (queued s) (tm_output_buffer s)\<rparr>"

lemma poll_active:
  assumes "tm_state s = TermActive pending w"
  shows "\<exists>p w'. poll_session env i s
    = ((case pending of Some b \<Rightarrow> if b \<noteq> [] then [b] else [] | None \<Rightarrow> []) @ queued s, session_ended env i s,
       (collected env i s)\<lparr>tm_state := TermActive None w', tm_last_activity := (if queued s \<noteq> [] then te_now env else tm_last_activity s), tm_pty := p\<rparr>,
       snd (snd (snd (poll_session env i s))))"
proof -
  define s1 where "s1 = (collected env i s)\<lparr>tm_state := TermActive None (fst (next_sigwinch w)),
      tm_last_activity := (if queued s \<noteq> [] then te_now env else tm_last_activity s)\<rparr>"
  show ?thesis
  proof (cases "snd (next_sigwinch w)")
    case None
    then show ?thesis using assms
      by (intro exI [of _ "tm_pty s"] exI [of _ "fst (next_sigwinch w)"])
        (auto simp: poll_session_def Let_def queued_def collected_def split: prod.splits)
  next
    case (Some a)
    obtain ok s2 out2 where d: "do_sigwinch_resize env i a s1 = (ok, s2, out2)" by (cases "do_sigwinch_resize env i a s1")
    with sigwinch_frame [of env i a s1] obtain p where p: "s2 = s1\<lparr>tm_pty := p\<rparr>" by auto
    then show ?thesis using assms Some d
      by (intro exI [of _ p] exI [of _ "if ok then sigwinch_done a else fst (next_sigwinch w)"])
        (cases ok; auto simp: poll_session_def Let_def queued_def collected_def s1_def split: prod.splits)
  qed
qed

lemma poll_facts:
  assumes "poll_session env i s = (chunks, ended, s', out)"
  shows "tm_output_buffer s' = fold buffer_append (queued s) (tm_output_buffer s) \<and> queued s' = [] \<and> remainder_of s' = remainder_of s
    \<and> (tm_state s = TermClosed \<longrightarrow> chunks = [] \<and> tm_state s' = TermClosed)
    \<and> (tm_state s \<noteq> TermClosed \<longrightarrow> concat chunks = pending_of s @ concat (queued s) \<and> (\<exists>w. tm_state s' = TermActive None w))"
proof (cases "tm_state s")
  case TermClosed
  then show ?thesis using assms by (auto simp: poll_session_def Let_def queued_def remainder_of_def split: option.splits)
next
  case (TermActive pending w)
  with poll_active [OF TermActive, of env i] assms show ?thesis
    by (auto simp: collected_def queued_def remainder_of_def pending_of_def split: option.splits)
qed

lemma collect_suffix:
  assumes "buffer_ok ob" and "suffix (buffered ob) h"
  shows "buffer_ok (fold buffer_append chunks ob) \<and> suffix (buffered (fold buffer_append chunks ob)) (h @ concat chunks)"
  using fold_append_ok [OF assms(1), of chunks] assms(2) by (auto simp: suffix_def)

lemma poll_ok:
  assumes "output_ok first (s, w)" and "poll_session env i s = (chunks, ended, s', out)"
  shows "output_ok first (s', w\<lparr>w_view := w_view w @ concat chunks\<rparr>)"
proof -
  from assms(1) obtain h where h: "w_accepted w = h @ concat (queued s)" "suffix (buffered (tm_output_buffer s)) h"
    "tm_state s \<noteq> TermClosed \<longrightarrow> (\<exists>base. h = base @ w_view w @ pending_of s \<and> (first \<longrightarrow> base = []))" "first \<longrightarrow> tm_state s \<noteq> TermClosed"
    and b: "buffer_ok (tm_output_buffer s)" by (auto simp: output_ok_def)
  note p = poll_facts [OF assms(2)]
  have "pending_of s' = []" using p by (cases "tm_state s = TermClosed") (auto simp: pending_of_def)
  moreover have "tm_state s' \<noteq> TermClosed \<longrightarrow> (\<exists>base. h @ concat (queued s) = base @ (w_view w @ concat chunks) \<and> (first \<longrightarrow> base = []))"
    using h(3) p by (cases "tm_state s = TermClosed") auto
  ultimately show ?thesis using assms(1) h(1,4) p collect_suffix [OF b h(2), of "queued s"]
    unfolding output_ok_def by (auto simp: intro!: exI [of _ "h @ concat (queued s)"])
qed

lemma reconnect_facts:
  "\<exists>backlog ob. concat (queued s) = concat backlog @ concat (queued (reconnect_session s)) \<and> ob = fold buffer_append backlog (tm_output_buffer s)
     \<and> tm_output_buffer (reconnect_session s) = ob \<and> pending_of (reconnect_session s) = get_recent DEFAULT_RECONNECT_BUFFER_BYTES ob
     \<and> remainder_of (reconnect_session s) = remainder_of s \<and> tm_state (reconnect_session s) \<noteq> TermClosed"
proof (cases "tm_output_rx s")
  case None
  then show ?thesis by (intro exI [of _ "[]"]) (auto simp: reconnect_session_def drain_def queued_def pending_of_def remainder_of_def Let_def)
next
  case (Some q)
  then show ?thesis
    by (intro exI [of _ "take CHANNEL_BUFFER_SIZE q"])
      (auto simp: reconnect_session_def drain_def queued_def pending_of_def remainder_of_def Let_def simp flip: concat_append)
qed

lemma reconnect_ok:
  assumes "output_ok first (s, w)"
  shows "output_ok False (reconnect_session s, w\<lparr>w_view := []\<rparr>)"
proof -
  from assms obtain h where h: "w_accepted w = h @ concat (queued s)" "suffix (buffered (tm_output_buffer s)) h"
    and b: "buffer_ok (tm_output_buffer s)" by (auto simp: output_ok_def)
  obtain backlog ob where r: "concat (queued s) = concat backlog @ concat (queued (reconnect_session s))"
    "ob = fold buffer_append backlog (tm_output_buffer s)" "tm_output_buffer (reconnect_session s) = ob"
    "pending_of (reconnect_session s) = get_recent DEFAULT_RECONNECT_BUFFER_BYTES ob"
    "remainder_of (reconnect_session s) = remainder_of s" "tm_state (reconnect_session s) \<noteq> TermClosed"
    using reconnect_facts [of s] by blast
  note c = collect_suffix [OF b h(2), of backlog, folded r(2)]
  then obtain base where "h @ concat backlog = base @ pending_of (reconnect_session s)"
    using get_recent_suffix [of DEFAULT_RECONNECT_BUFFER_BYTES ob] r(4) by (auto simp: suffix_def)
  with c r h(1) assms get_recent_suffix [of DEFAULT_RECONNECT_BUFFER_BYTES ob] show ?thesis
    unfolding output_ok_def by (auto intro!: exI [of _ "h @ concat backlog"])
qed

text \<open>Events that start another view of the terminal.\<close>

definition new_view :: "term_event \<Rightarrow> bool" where
  "new_view e = (case e of ReconnectEv \<Rightarrow> True | DisconnectEv \<Rightarrow> True | _ \<Rightarrow> False)"

lemma term_step_ok:
  assumes "output_ok first (s, w)"
  shows "output_ok (first \<and> \<not> new_view e) (term_step i e (s, w))"
proof (cases e)
  case (ReadEv r)
  then show ?thesis using reader_ok [OF assms] by (simp add: new_view_def)
next
  case (PollEv env)
  obtain chunks ended s' out where p: "poll_session env i s = (chunks, ended, s', out)" by (cases "poll_session env i s")
  from poll_ok [OF assms p] PollEv p show ?thesis by (simp add: new_view_def)
next
  case ReconnectEv
  then show ?thesis using reconnect_ok [OF assms] by (simp add: new_view_def)
next
  case DisconnectEv
  then show ?thesis using assms by (auto simp: output_ok_def new_view_def remainder_of_def queued_def pending_of_def)
next
  case (ResizeEv env rows cols)
  obtain err s' out where r: "resize_session env i rows cols s = (err, s', out)" by (cases "resize_session env i rows cols s")
  obtain p where "s' = s\<lparr>tm_last_activity := te_now env, tm_rows := ucast rows, tm_cols := ucast cols, tm_pty := p\<rparr>"
    using resize_frame [of env i "ucast rows" "ucast cols" "s\<lparr>tm_last_activity := te_now env, tm_rows := ucast rows, tm_cols := ucast cols\<rparr>"] r
    by (auto simp: resize_session_def)
  then show ?thesis using assms ResizeEv r by (auto simp: output_ok_def new_view_def remainder_of_def queued_def pending_of_def)
next
  case (InputEv now)
  then show ?thesis using assms by (auto simp: output_ok_def new_view_def remainder_of_def queued_def pending_of_def)
qed

lemma term_run_ok: "output_ok first x \<Longrightarrow> output_ok (first \<and> \<not> list_ex new_view es) (term_run i es x)"
proof (induction es arbitrary: first x)
  case (Cons e es)
  from term_step_ok [of first "fst x" "snd x" e i] Cons.prems have "output_ok (first \<and> \<not> new_view e) (term_step i e x)" by simp
  from Cons.IH [OF this] show ?case by (simp add: term_run_def)
qed (simp add: term_run_def)

definition watch_new :: watch where
  "watch_new = \<lparr>w_read = [], w_accepted = [], w_lost = [], w_view = []\<rparr>"

lemma open_new_ok: "output_ok True (open_new env i rows cols pid, watch_new)"
  by (simp add: output_ok_def open_new_def session_new_def watch_new_def remainder_of_def queued_def pending_of_def buffer_new_ok)
    (simp add: buffer_new_def)

text \<open>
  C38. A terminal's output reaches its client in order and complete: open a terminal and let its reader, the collector, resizes,
  input, lost connections and reconnections happen in any order. As long as a client is connected, everything the channel
  accepted is some output of earlier clients, then exactly what this client was sent, then what is about to be replayed to it
  (at most 8 KiB, and the last output before it came back), then what waits in the channel; the first client missed nothing.
  If no chunk was lost to a full channel, what was accepted is all that was read from the terminal but at most three bytes.
\<close>

theorem terminal_output_faithful:
  assumes "term_run i es (open_new env i rows cols pid, watch_new) = (s, w)" and "tm_state s \<noteq> TermClosed"
  shows "\<exists>base. w_accepted w = base @ w_view w @ pending_of s @ concat (queued s)
    \<and> (\<not> list_ex new_view es \<longrightarrow> base = []) \<and> length (pending_of s) \<le> 8192
    \<and> (w_lost w = [] \<longrightarrow> (\<exists>r. w_read w = w_accepted w @ r \<and> length r \<le> 3))"
  using term_run_ok [OF open_new_ok, of es i env i rows cols pid] assms
  by (auto simp: output_ok_def DEFAULT_RECONNECT_BUFFER_BYTES_def)

definition demo_term_env :: term_env where
  "demo_term_env = \<lparr>te_now = 0, te_spawn = Inr 7, te_resize = (\<lambda>_ _ _. None), te_kill = (\<lambda>_. None), te_try_wait = (\<lambda>_. Running),
     te_try_lock = (\<lambda>_. True), te_compress = (\<lambda>d. d)\<rparr>"

theorem terminal_output_faithful_witness:
  "\<exists>s w base. term_run 1 [ReadEv (ReadBytes [104, 105]), PollEv demo_term_env, ReconnectEv, ReadEv (ReadBytes [33])]
       (open_new demo_term_env 1 24 80 7, watch_new) = (s, w) \<and> w_view w = [] \<and> pending_of s = [104, 105]
     \<and> w_accepted w = base @ w_view w @ pending_of s @ concat (queued s)"
proof -
  let ?es = "[ReadEv (ReadBytes [104, 105]), PollEv demo_term_env, ReconnectEv, ReadEv (ReadBytes [33])]"
  obtain s w where r: "term_run 1 ?es (open_new demo_term_env 1 24 80 7, watch_new) = (s, w)"
    by (cases "term_run 1 ?es (open_new demo_term_env 1 24 80 7, watch_new)")
  have "case term_run 1 ?es (open_new demo_term_env 1 24 80 7, watch_new) of
    (s, w) \<Rightarrow> tm_state s \<noteq> TermClosed \<and> w_view w = [] \<and> pending_of s = [104, 105]"
    by (simp add: term_run_def open_new_def session_new_def watch_new_def reader_step_def push_chunk_def find_utf8_split_point_def
        try_send_output_def CHANNEL_BUFFER_SIZE_def poll_session_def next_sigwinch_def reconnect_session_def drain_def
        DEFAULT_RECONNECT_BUFFER_BYTES_def get_recent_def buffer_append_def buffer_new_def push_lines_def push_line_def trim_buffer_def
        MAX_OUTPUT_BUFFER_SIZE_def MAX_BUFFER_LINES_def watch_read_def offer_def pending_of_def numeral_3_eq_3 Let_def)
  then have f: "tm_state s \<noteq> TermClosed" "w_view w = []" "pending_of s = [104, 105]" unfolding r by simp_all
  from terminal_output_faithful [OF r f(1)] obtain base where "w_accepted w = base @ w_view w @ pending_of s @ concat (queued s)" by blast
  with r f show ?thesis by blast
qed

text \<open>A poll of a service sends what the polls of its sessions give, compressed or not.\<close>

definition data_for :: "(bytes \<Rightarrow> bytes) \<Rightarrow> int \<Rightarrow> term_response \<Rightarrow> bytes list" where
  "data_for decompress i r =
     (case r of RspData j d compressed \<Rightarrow> if j = i then [if compressed then decompress d else d] else [] | _ \<Rightarrow> [])"

lemma data_response:
  assumes "\<And>d. decompress (te_compress env d) = d"
  shows "data_for decompress i (create_terminal_data_response env j d) = (if j = i then [d] else [])"
  using assms by (simp add: data_for_def create_terminal_data_response_def)

lemma end_sessions_silent: "end_sessions env p ids ss = (rs, ss', out) \<Longrightarrow> r \<in> set rs \<Longrightarrow> data_for decompress i r = []"
  by (induction ids arbitrary: ss rs ss' out)
    (auto simp: end_session_def data_for_def Let_def split: prod.splits option.splits if_splits)

lemma poll_sessions_data:
  assumes "\<And>d. decompress (te_compress env d) = d" and "distinct (map fst ss)"
  shows "concat (map (data_for decompress i) (fst (poll_sessions env ss)))
    = (case map_of ss i of Some s \<Rightarrow> if te_try_lock env i then fst (poll_session env i s) else [] | None \<Rightarrow> [])"
  using assms(2)
proof (induction ss)
  case (Cons x ss)
  obtain j s where x: "x = (j, s)" by (cases x)
  have d: "concat (map (data_for decompress i) (map (create_terminal_data_response env j) chunks)) = (if j = i then chunks else [])" for chunks
    by (induction chunks) (simp_all add: data_response [OF assms(1)])
  have n: "map_of ss j = None" using Cons.prems by (simp add: x map_of_eq_None_iff)
  obtain rs ended ss' out where q: "poll_sessions env ss = (rs, ended, ss', out)" by (metis prod_cases4)
  have e: "fst (poll_sessions env (x # ss)) = (if te_try_lock env j then map (create_terminal_data_response env j) (fst (poll_session env j s)) else []) @ rs"
    by (simp add: x q split: prod.splits)
  have f: "concat (map (data_for decompress i) rs)
      = (case map_of ss i of Some s \<Rightarrow> if te_try_lock env i then fst (poll_session env i s) else [] | None \<Rightarrow> [])"
    using Cons q by simp
  show ?case unfolding e map_append concat_append f using n d [of "fst (poll_session env j s)"] by (cases "j = i") (auto simp: x)
qed simp

lemma read_outputs_data:
  assumes "\<And>d. decompress (te_compress env d) = d" and "hm_get reg sid = Some sv" and "hm_wf (ts_sessions sv)"
    and "hm_get (ts_sessions sv) i = Some s" and "te_try_lock env i"
  shows "concat (map (data_for decompress i) (fst (read_outputs env sid p reg))) = fst (poll_session env i s)"
proof -
  obtain rs ended ss out rs' ss' out' where q: "poll_sessions env (ts_sessions sv) = (rs, ended, ss, out)"
    "end_sessions env p ended ss = (rs', ss', out')" by (metis prod_cases3 prod.collapse)
  have "map (data_for decompress i) rs' = map (\<lambda>_. []) rs'" using end_sessions_silent [OF q(2)] by (intro map_cong) auto
  then have "concat (map (data_for decompress i) rs') = []" by simp
  with poll_sessions_data [OF assms(1), of "ts_sessions sv" i] q assms show ?thesis by (simp add: read_outputs_def)
qed

subsection \<open>Redrawing after a reconnection\<close>

definition phase_of :: "term_session \<Rightarrow> sigwinch_phase" where
  "phase_of s = (case tm_state s of TermActive _ w \<Rightarrow> w | TermClosed \<Rightarrow> WinchIdle)"

definition polled :: "int \<Rightarrow> term_session \<Rightarrow> term_env \<Rightarrow> term_session" where
  "polled i s env = fst (snd (snd (poll_session env i s)))"

fun polls_left :: "sigwinch_phase \<Rightarrow> nat" where
  "polls_left WinchIdle = 0"
| "polls_left (TempResize r) = r + MAX_SIGWINCH_PHASE_ATTEMPTS + 1"
| "polls_left (Restore r) = r + 1"

lemma polled_phase:
  "polls_left (phase_of (polled i s env)) \<le> polls_left (phase_of s) - 1"
proof (cases "tm_state s")
  case TermClosed
  then show ?thesis by (simp add: polled_def poll_session_def phase_of_def Let_def)
next
  case (TermActive pending w)
  have frame: "do_sigwinch_resize env i a s1 = (ok, s2, out2) \<Longrightarrow> tm_state s2 = tm_state s1" for a s1 ok s2 out2
    using sigwinch_frame [of env i a s1] by auto
  show ?thesis using TermActive frame
    by (auto simp: polled_def poll_session_def phase_of_def Let_def next_sigwinch_def sigwinch_done_def MAX_SIGWINCH_PHASE_ATTEMPTS_def
        split: prod.splits option.splits sigwinch_phase.splits nat.splits bool.splits)
qed

lemma polls_settle: "polls_left (phase_of s) \<le> length envs \<Longrightarrow> phase_of (foldl (polled i) s envs) = WinchIdle"
proof (induction envs arbitrary: s)
  case Nil
  then show ?case by (cases "phase_of s") simp_all
next
  case (Cons env envs)
  then show ?case using polled_phase [of i s env] by simp
qed

lemma polled_resize:
  assumes "tm_state s = TermActive pending w" and "next_sigwinch w = (w', Some a)" and "tm_rows s \<noteq> 0" and "tm_cols s \<noteq> 0"
    and "tm_pty s \<noteq> None" and "\<And>rows cols. te_resize env i rows cols = None"
  shows "tm_state (polled i s env) = TermActive None (sigwinch_done a)
    \<and> tm_pty (polled i s env) = Some (case a of DoTempResize \<Rightarrow> if tm_rows s > 2 then saturating_sub1 (tm_rows s) else saturating_add1 (tm_rows s)
         | DoRestore \<Rightarrow> tm_rows s, tm_cols s)
    \<and> tm_rows (polled i s env) = tm_rows s \<and> tm_cols (polled i s env) = tm_cols s"
  using assms by (cases a) (auto simp: polled_def poll_session_def Let_def do_sigwinch_resize_def resize_pty_def split: prod.splits)

lemma reconnect_frame:
  "tm_rows (reconnect_session s) = tm_rows s" "tm_cols (reconnect_session s) = tm_cols s" "tm_pty (reconnect_session s) = tm_pty s"
  "\<exists>pending. tm_state (reconnect_session s) = TermActive pending (TempResize 3)"
  by (cases "drain CHANNEL_BUFFER_SIZE (tm_output_rx s)", simp add: reconnect_session_def Let_def MAX_SIGWINCH_PHASE_ATTEMPTS_def)+

lemma temp_rows_differ: "r \<noteq> 0 \<Longrightarrow> (if r > 2 then saturating_sub1 r else saturating_add1 r) \<noteq> (r :: u16)"
  by (auto simp: saturating_sub1_def saturating_add1_def)

text \<open>
  C39. The redraw after a reconnection comes to an end: whatever resizing does, after at most seven polls no phase of it is left.
  If the terminal has a size and resizing works, the first poll sets a different number of rows and the second one restores
  the size the client asked for.
\<close>

theorem terminal_redraw_settles:
  "(length envs \<ge> 7 \<longrightarrow> phase_of (foldl (polled i) (reconnect_session s) envs) = WinchIdle)
   \<and> (tm_rows s \<noteq> 0 \<and> tm_cols s \<noteq> 0 \<and> tm_pty s \<noteq> None \<and> (\<forall>env \<in> {ea, eb}. \<forall>rows cols. te_resize env i rows cols = None) \<longrightarrow>
        (\<exists>rows. rows \<noteq> tm_rows s \<and> tm_pty (polled i (reconnect_session s) ea) = Some (rows, tm_cols s))
        \<and> (let s2 = polled i (polled i (reconnect_session s) ea) eb
           in phase_of s2 = WinchIdle \<and> tm_pty s2 = Some (tm_rows s, tm_cols s)))"
proof -
  define s0 where "s0 = reconnect_session s"
  obtain pending where st: "tm_state s0 = TermActive pending (TempResize 3)" and f: "tm_rows s0 = tm_rows s" "tm_cols s0 = tm_cols s" "tm_pty s0 = tm_pty s"
    using reconnect_frame [of s] unfolding s0_def by blast
  then have "polls_left (phase_of s0) = 7" by (simp add: phase_of_def MAX_SIGWINCH_PHASE_ATTEMPTS_def)
  then have 1: "length envs \<ge> 7 \<longrightarrow> phase_of (foldl (polled i) s0 envs) = WinchIdle" using polls_settle [of s0 envs i] by simp
  have 2: "(\<exists>rows. rows \<noteq> tm_rows s \<and> tm_pty (polled i s0 ea) = Some (rows, tm_cols s))
      \<and> phase_of (polled i (polled i s0 ea) eb) = WinchIdle \<and> tm_pty (polled i (polled i s0 ea) eb) = Some (tm_rows s, tm_cols s)"
    if a: "tm_rows s \<noteq> 0" "tm_cols s \<noteq> 0" "tm_pty s \<noteq> None" "\<forall>env \<in> {ea, eb}. \<forall>rows cols. te_resize env i rows cols = None"
  proof -
    have "next_sigwinch (TempResize 3) = (TempResize 2, Some DoTempResize)" by (simp add: next_sigwinch_def numeral_3_eq_3 numeral_2_eq_2)
    from polled_resize [OF st this] a f have p1: "tm_state (polled i s0 ea) = TermActive None (Restore 3)" "tm_rows (polled i s0 ea) = tm_rows s"
      "tm_cols (polled i s0 ea) = tm_cols s" "tm_pty (polled i s0 ea) = Some (if tm_rows s > 2 then saturating_sub1 (tm_rows s) else saturating_add1 (tm_rows s), tm_cols s)"
      by (auto simp: sigwinch_done_def MAX_SIGWINCH_PHASE_ATTEMPTS_def)
    have "next_sigwinch (Restore 3) = (Restore 2, Some DoRestore)" by (simp add: next_sigwinch_def numeral_3_eq_3 numeral_2_eq_2)
    from polled_resize [OF p1(1) this, of eb i] a p1 have "tm_state (polled i (polled i s0 ea) eb) = TermActive None WinchIdle"
      "tm_pty (polled i (polled i s0 ea) eb) = Some (tm_rows s, tm_cols s)" by (auto simp: sigwinch_done_def)
    with p1(4) temp_rows_differ [OF a(1)] show ?thesis by (simp add: phase_of_def)
  qed
  show ?thesis using 1 2 unfolding s0_def Let_def by blast
qed

theorem terminal_redraw_settles_witness:
  "(let s = open_new demo_term_env 1 24 80 7; s2 = polled 1 (polled 1 (reconnect_session s) demo_term_env) demo_term_env
    in phase_of s2 = WinchIdle \<and> tm_pty s2 = Some (24, 80))
   \<and> phase_of (foldl (polled 1) (reconnect_session (open_new demo_term_env 1 24 80 7)) (replicate 7 demo_term_env)) = WinchIdle"
  using terminal_redraw_settles [where i = 1 and s = "open_new demo_term_env 1 24 80 7" and envs = "replicate 7 demo_term_env"
      and ea = demo_term_env and eb = demo_term_env]
  by (simp add: Let_def open_new_def session_new_def demo_term_env_def)

end
