(* ===== verification/Spec2Isabelle.thy ===== *)
theory Spec2Isabelle
  imports Handshake Session_End Terminal_Service
begin

section \<open>A remote desktop program and its hardware decoders\<close>

text \<open>
  The repository is the RustDesk remote desktop program with a build for a set-top box whose video is decoded
  by a separate daemon. This development models the controlled side (what a peer can make a machine do), the
  encryption of connections and their key exchange, the transfer of files, terminals, the stored secrets, the
  choice of codecs and the two hardware decoders of the box. Paths below are relative to \<^verbatim>\<open>src/rustdesk\<close>.

  \<^bold>\<open>How the parts fit together.\<close> Bytes arrive in frames (\<open>Bytes_Codec\<close>), whose contents are encrypted
  (\<open>Transport\<close>) with a key the two sides agree on first (\<open>Handshake\<close>). A new connection goes through logins
  (\<open>Login\<close>), limited by the failure tables (\<open>Login_Failure\<close>) and checked against stored secrets (\<open>Secrets\<close>),
  until it is authorised for one scope: desktop, camera, terminal, file transfer or a forwarded port. From
  then on its loop (\<open>Session_Loop\<close>) handles messages (\<open>Session\<close>) after a filter for the scope
  (\<open>Session_Scope\<close>), subscribes to services (\<open>Services\<close>), and hands file requests to its own jobs or to the
  connection manager (\<open>File_Actions\<close>, \<open>Cm_Jobs\<close>, composed in \<open>File_Sessions\<close>), which read and write through
  transfer jobs (\<open>File_Transfer\<close>) and listings (\<open>Directories\<close>) with checked names (\<open>File_Names\<close>). A terminal
  session talks to a service that outlives it (\<open>Terminal_Service\<close>). Video is paced by \<open>Video_QoS\<close> and encoded
  in the format \<open>Codec_Negotiation\<close> settles on; a viewer decodes it by the daemon (\<open>Goke_Bridge\<close>) or the
  platform (\<open>Media_Codec\<close>), both fed with the parameter sets of \<open>Param_Sets\<close>.

  \<^bold>\<open>Theories, their sources and what they show.\<close>

  \<^item> \<open>Prelude\<close>: machine integers, byte strings, results with panics (\<open>rust\<close>), hash maps, and the locales shared
    by all state machines: \<open>step_invariant\<close> (an invariant kept by every step that returns is kept by every
    run), \<open>total_invariant\<close> (no step panics) and \<open>forward_simulation\<close>. \<open>F32\<close>: binary32 rounding on the
    rationals.
  \<^item> \<open>Bytes_Codec\<close> (\<^verbatim>\<open>libs/hbb_common/src/bytes_codec.rs\<close>): encoder and decoder with every error branch.
    Whatever the chunks and polls, the decoder delivers a prefix of what was sent, makes progress and
    allocates a bounded amount.
  \<^item> \<open>Transport\<close>, \<open>Handshake\<close> (\<^verbatim>\<open>libs/hbb_common/src/tcp.rs\<close>, \<^verbatim>\<open>AddrMangle\<close> of \<^verbatim>\<open>lib.rs\<close>, \<^verbatim>\<open>src/client.rs\<close>,
    \<^verbatim>\<open>src/server.rs\<close>, \<^verbatim>\<open>src/common.rs\<close>): mangled addresses come back; an attacker on the wire cannot alter,
    drop, repeat or reorder authenticated messages, though it can send an end's own back to it; an honest handshake followed by a session delivers what
    was sent through encryption and framing; a secured connection leads to the certified owner of the wanted
    id. A failed handshake leaves the connection unencrypted, as the code intends; that is why the theorems
    speak of secured streams.
  \<^item> \<open>Param_Sets\<close>, \<open>Goke_Bridge\<close>, \<open>Media_Codec\<close>, \<open>Codec_Negotiation\<close> (\<^verbatim>\<open>libs/scrap/src/common/mediacodec.rs\<close>,
    \<^verbatim>\<open>goke.rs\<close>, \<^verbatim>\<open>codec.rs\<close>): exact extraction of parameter sets; the records on the daemon's pipe; the render
    loop writes inside the window and shows well-formed frames; the platform decoder gets the same units,
    returns, and converts within its buffers; probing and the surface pointer; the negotiated format; the
    routing of frames.
  \<^item> \<open>Login_Failure\<close>, \<open>Secrets\<close>, \<open>Login\<close> (\<^verbatim>\<open>src/server/login_failure_check.rs\<close>, \<^verbatim>\<open>src/server/connection.rs\<close>,
    \<^verbatim>\<open>libs/hbb_common/src/password_security.rs\<close>, \<^verbatim>\<open>config/permanent_password.rs\<close>, parts of \<^verbatim>\<open>config.rs\<close> and
    \<^verbatim>\<open>lib.rs\<close>): quotas of wrong guesses per address and minute; stored strings and the permanent password come
    back; what authorises a connection, the rotation of the temporary password, and the permission every scope
    needs.
  \<^item> \<open>Video_QoS\<close> (\<^verbatim>\<open>src/server/video_qos.rs\<close>): the whole controller; its ranges are invariant and no call
    panics; the frame rate respects every user; a new quality request takes effect.
  \<^item> \<open>File_System\<close>, \<open>File_Names\<close>, \<open>File_Transfer\<close>, \<open>Directories\<close> (\<^verbatim>\<open>libs/hbb_common/src/fs.rs\<close>,
    \<^verbatim>\<open>compress.rs\<close>): a model of Unix paths, links and files; containment of checked names; jobs send
    everything in order, what is sent is what is stored, nothing is sent over an existing file without
    consent; exact recursive listings.
  \<^item> \<open>Cm_Jobs\<close>, \<open>File_Actions\<close>, \<open>File_Sessions\<close> (\<^verbatim>\<open>src/ui_cm_interface.rs\<close>, \<^verbatim>\<open>src/server/connection.rs\<close>): the
    manager's requests and read jobs, the connection's file messages, and both composed: one-way transfer and
    the missing permission hold for every sequence of messages, and reading through the manager refines
    reading by the connection.
  \<^item> \<open>Services\<close> (\<^verbatim>\<open>src/server/service.rs\<close>, \<^verbatim>\<open>src/server.rs\<close>): subscriptions, snapshots, the registry; a service
    refines the view each subscriber has of it.
  \<^item> \<open>Session_Scope\<close>, \<open>Session\<close>, \<open>Session_Loop\<close> (\<^verbatim>\<open>src/server/connection.rs\<close>): the filter of messages, their
    handlers, and the loop with all its events. \<open>Session_Safety\<close> has weakest preconditions for the handlers
    and shows that the peer's messages have no effect outside the scope; \<open>Session_Subscriptions\<close> that every
    subscription is one the session is entitled to at that moment; \<open>Session_End\<close> that the end gives everything
    back and silence leads to it.
  \<^item> \<open>Terminal_Output\<close>, \<open>Terminal_Service\<close> (\<^verbatim>\<open>src/server/terminal_service.rs\<close>): reads are cut at characters
    without losing a byte; what a client is sent is a contiguous part of the output across reconnections,
    collections and a full channel; the redraw after a reconnection comes to an end with the right size. The
    replay buffer keeps its shape, and its limit holds except while an unfinished line goes on.

  \<^bold>\<open>State and effects.\<close> A struct is a record, an enum a datatype, a handler a function from the state to the
  state with a list of effects. Code that is not in the repository (sodiumoxide, zstd, SHA-256, the NDK,
  libyuv, the operating system beyond the modelled file system) is an argument of the definitions, with the
  documented behaviour a theorem relies on as its hypothesis. Integers have their width where they can wrap:
  \<^verbatim>\<open>usize\<close> is 32 bits, as on the box. \<^verbatim>\<open>f32\<close> is rounded after every operation.

  \<^bold>\<open>Termination and bounds.\<close> All loops over data are total functions; the read loop of a transfer job has the
  unread bytes as its measure. The recursion into directories carries the number of remaining levels, and
  \<open>depth_bound\<close> of the modelled file system is enough for every path in it; the number of followed links is
  \<^verbatim>\<open>MAXSYMLINKS\<close>, as in the kernel. The warm-up loop of the platform decoder may wait for ever if polling
  takes no time: it is a partial function, and the theorem about it shows that it returns.

  \<^bold>\<open>Concurrency.\<close> A connection is a task that handles one event at a time, so a session is a sequence of
  events in any order; the connection manager answers before the next event. Two services or connections
  interleave at the granularity of the locks; the race of a snapshot with a late subscriber is a lemma of
  \<open>Services\<close>, the race of a probe with the surface another of \<open>Media_Codec\<close>. The reader thread of a terminal,
  the collection of its output and the requests of its client are events in any order.

  \<^bold>\<open>Not modelled.\<close> The controlling side after the key exchange and the user interface, the rendezvous protocol
  and its sockets, injection of input, screen capture and the encoders, platform clipboards, inter-process
  serialisation, plugins and web requests: these are calls into the operating system, asynchronous runtimes
  and libraries with little logic of their own. Of the modelled files the branches of other targets are left
  out (Windows elevation, virtual displays, clipboard files, switching sides, the helper process of
  terminals), and so are the threads that run a service and the bytes of a forwarded port.
\<close>

end
